(* ===== verification/Prelude.thy ===== *)
theory Prelude
  imports Main "HOL-Library.Word" "HOL-Library.Sublist"
begin

text \<open>
  The shared ground of the development: machine integer types, the result type of a C
  call that may block, crash or exit, its sequencing operator, and the generic list
  lemmas that several components use.
\<close>

section \<open>Machine integers\<close>

type_synonym u8 = "8 word"
type_synonym u16 = "16 word"
type_synonym u32 = "32 word"
type_synonym u64 = "64 word"

section \<open>Results of a C call\<close>

text \<open>
  Undefined behaviour and traps are values. \<open>Null_Deref\<close>: a null (or small integer)
  pointer is read or written. \<open>Out_Of_Bounds\<close>: memory outside the object is read or
  written. \<open>Buffer_Overflow\<close>: a string operation writes past the end of its buffer.
  \<open>Div_By_Zero\<close>: an integer division by zero.
\<close>

datatype fault = Null_Deref | Out_Of_Bounds | Buffer_Overflow | Div_By_Zero

text \<open>
  \<open>Ret x\<close>: the call returns \<open>x\<close>. \<open>Blocked\<close>: the call waits for an answer of the
  environment that the run does not contain. \<open>Crash f\<close>: the process dies of \<open>f\<close>.
  \<open>Exit n\<close>: the process called \<open>exit(n)\<close>. \<open>No_Fuel\<close>: the bound of a loop of the
  model was too small; each such loop has a lemma that this never happens.
\<close>

datatype 'a res = Ret 'a | Blocked | Crash fault | Exit int | No_Fuel

type_synonym ('s, 'a) io = "'s \<Rightarrow> 'a res \<times> 's"

definition retIO :: "'a \<Rightarrow> ('s, 'a) io" where
  "retIO x s = (Ret x, s)"

definition crashIO :: "fault \<Rightarrow> ('s, 'a) io" where
  "crashIO f s = (Crash f, s)"

definition bindIO :: "('s, 'a) io \<Rightarrow> ('a \<Rightarrow> ('s, 'b) io) \<Rightarrow> ('s, 'b) io" where
  "bindIO m k s =
     (case m s of
        (Ret x, s') \<Rightarrow> k x s'
      | (Blocked, s') \<Rightarrow> (Blocked, s')
      | (Crash f, s') \<Rightarrow> (Crash f, s')
      | (Exit n, s') \<Rightarrow> (Exit n, s')
      | (No_Fuel, s') \<Rightarrow> (No_Fuel, s'))"

text \<open>A pure step that may fault, lifted to the state.\<close>

definition liftR :: "'a res \<Rightarrow> ('s, 'a) io" where
  "liftR r s = (r, s)"

named_theorems io_simps \<open>rules that run the sequencing operators\<close>

lemma retIO_app [simp, io_simps]: "retIO x s = (Ret x, s)"
  by (simp add: retIO_def)

lemma crashIO_app [simp, io_simps]: "crashIO f s = (Crash f, s)"
  by (simp add: crashIO_def)

lemma liftR_app [simp, io_simps]: "liftR r s = (r, s)"
  by (simp add: liftR_def)

lemma bindIO_Ret [simp, io_simps]: "m s = (Ret x, s') \<Longrightarrow> bindIO m k s = k x s'"
  by (simp add: bindIO_def)

lemma bindIO_Blocked [simp, io_simps]: "m s = (Blocked, s') \<Longrightarrow> bindIO m k s = (Blocked, s')"
  by (simp add: bindIO_def)

lemma bindIO_Crash [simp, io_simps]: "m s = (Crash f, s') \<Longrightarrow> bindIO m k s = (Crash f, s')"
  by (simp add: bindIO_def)

lemma bindIO_Exit [simp, io_simps]: "m s = (Exit n, s') \<Longrightarrow> bindIO m k s = (Exit n, s')"
  by (simp add: bindIO_def)

lemma bindIO_No_Fuel [simp, io_simps]: "m s = (No_Fuel, s') \<Longrightarrow> bindIO m k s = (No_Fuel, s')"
  by (simp add: bindIO_def)

lemma bindIO_liftR: "bindIO (liftR (Ret x)) k s = k x s"
  by simp

text \<open>
  The continuation only matters on the value and the state that the first part returns;
  the loops below recurse under the operator and terminate by this rule.
\<close>

lemma bindIO_cong [fundef_cong]:
  assumes "m s = m' s'"
    and "\<And>x t. m' s' = (Ret x, t) \<Longrightarrow> k x t = k' x t"
  shows "bindIO m k s = bindIO m' k' s'"
  using assms by (auto simp: bindIO_def split: prod.splits res.splits)

lemma bindIO_RetE:
  assumes "bindIO m k s = (Ret y, s'')"
  obtains x s' where "m s = (Ret x, s')" and "k x s' = (Ret y, s'')"
  using assms by (auto simp: bindIO_def split: prod.splits res.splits)

lemma bindIO_assoc: "bindIO (bindIO m k) h s = bindIO m (\<lambda>x. bindIO (k x) h) s"
  by (auto simp: bindIO_def split: prod.splits res.splits)

text \<open>The same sequencing for steps without a state.\<close>

definition bind_res :: "'a res \<Rightarrow> ('a \<Rightarrow> 'b res) \<Rightarrow> 'b res" where
  "bind_res m k =
     (case m of Ret x \<Rightarrow> k x | Blocked \<Rightarrow> Blocked | Crash f \<Rightarrow> Crash f | Exit n \<Rightarrow> Exit n | No_Fuel \<Rightarrow> No_Fuel)"

lemma bind_res_simps [simp, io_simps]:
  "bind_res (Ret x) k = k x" "bind_res Blocked k = Blocked" "bind_res (Crash f) k = Crash f"
  "bind_res (Exit n) k = Exit n" "bind_res No_Fuel k = No_Fuel"
  by (simp_all add: bind_res_def)

lemma bind_res_cong [fundef_cong]:
  assumes "m = m'" and "\<And>x. m' = Ret x \<Longrightarrow> k x = k' x"
  shows "bind_res m k = bind_res m' k'"
  using assms by (cases m') simp_all

lemma bind_res_RetE:
  assumes "bind_res m k = Ret y"
  obtains x where "m = Ret x" and "k x = Ret y"
  using assms by (cases m) simp_all

text \<open>
  A state predicate that every step keeps is kept by a sequence, whatever way it ends:
  the frame rule of the development.
\<close>

definition keeps :: "('s \<Rightarrow> 's \<Rightarrow> bool) \<Rightarrow> ('s, 'a) io \<Rightarrow> bool" where
  "keeps R m \<longleftrightarrow> (\<forall>s. R s (snd (m s)))"

lemma keepsI: "(\<And>s. R s (snd (m s))) \<Longrightarrow> keeps R m"
  by (simp add: keeps_def)

lemma keepsD: "keeps R m \<Longrightarrow> m s = (r, s') \<Longrightarrow> R s s'"
  unfolding keeps_def by (metis snd_conv)

lemma keeps_bindIO:
  assumes "transp R" and "keeps R m" and "\<And>x. keeps R (k x)"
  shows "keeps R (bindIO m k)"
proof (rule keepsI)
  fix s
  obtain r s' where m: "m s = (r, s')" by fastforce
  with assms(2) have R: "R s s'" by (rule keepsD)
  show "R s (snd (bindIO m k s))"
  proof (cases r)
    case (Ret x)
    obtain r2 s2 where k: "k x s' = (r2, s2)" by fastforce
    with assms(3) have "R s' s2" by (rule keepsD)
    with R assms(1) have "R s s2" by (blast dest: transpD)
    with Ret m k show ?thesis by simp
  qed (use R m in simp_all)
qed

lemma keeps_retIO: "reflp R \<Longrightarrow> keeps R (retIO x)"
  by (simp add: keeps_def reflpD)

lemma keeps_crashIO: "reflp R \<Longrightarrow> keeps R (crashIO f)"
  by (simp add: keeps_def reflpD)

lemma keeps_liftR: "reflp R \<Longrightarrow> keeps R (liftR r)"
  by (simp add: keeps_def reflpD)

section \<open>Words\<close>

lemma unat_add_of_nat: "unat (c :: u32) + m < 2 ^ 32 \<Longrightarrow> unat (c + of_nat m) = unat c + m"
  by (simp add: unat_word_ariths unat_of_nat take_bit_nat_eq_self)

lemma unat_of_nat32: "n < 2 ^ 32 \<Longrightarrow> unat (of_nat n :: u32) = n"
  by (simp add: unat_of_nat take_bit_nat_eq_self)

lemma less_of_nat32: "n < 2 ^ 32 \<Longrightarrow> (c :: u32) < of_nat n \<longleftrightarrow> unat c < n"
  by (simp add: word_less_nat_alt unat_of_nat32)

lemma sint_of_small: "n < 2 ^ 31 \<Longrightarrow> sint (of_nat n :: u32) = int n"
  by (simp add: sint_uint uint_nat unat_of_nat32 signed_take_bit_int_eq_self)

lemma sint_of_unat:
  assumes "unat (c :: u32) = n" and "n < 2 ^ 31"
  shows "sint c = int n"
proof -
  have "c = of_nat n" using assms(1) by auto
  with assms(2) show ?thesis by (simp add: sint_of_small)
qed

lemma unat_minus1_32: "unat (-1 :: u32) = 2 ^ 32 - 1"
  by (transfer, simp add: mask_eq_exp_minus_1)

lemma unat_high_half: "unat (drop_bit 16 (w :: u64)) = unat w div 65536"
  by (simp add: drop_bit_eq_div unat_div)

lemma unat_ucast_64: "unat (ucast (x :: u32) :: u64) = unat x"
proof -
  have "unat x < 2 ^ 64" using unsigned_less [of x, where 'a = nat] by simp
  then show ?thesis by (simp only: unsigned_ucast_eq take_bit_nat_eq_self len_num0 len_bit0)
      (simp add: take_bit_nat_eq_self)
qed

lemma unat_add_64: "unat (x :: u64) + unat y < 2 ^ 64 \<Longrightarrow> unat (x + y) = unat x + unat y"
  by (simp add: unat_word_ariths take_bit_nat_eq_self)

lemma of_nat_mod_65536: "(of_nat (n mod 65536) :: u16) = of_nat n"
  by (simp add: word_of_nat_eq_iff take_bit_eq_mod)

section \<open>Lists\<close>

lemma drop_take_append: "i \<le> j \<Longrightarrow> take (j - i) (drop i xs) @ drop j xs = drop i xs"
  by (metis append_take_drop_id drop_drop le_add_diff_inverse2)

lemma take_append_drop_mid: "i \<le> j \<Longrightarrow> take i xs @ take (j - i) (drop i xs) = take j xs"
  by (metis le_add_diff_inverse take_add)

lemma takeWhile_all: "(\<And>x. x \<in> set xs \<Longrightarrow> P x) \<Longrightarrow> takeWhile P xs = xs"
  by (simp add: takeWhile_eq_all_conv)

lemma dropWhile_all: "(\<And>x. x \<in> set xs \<Longrightarrow> P x) \<Longrightarrow> dropWhile P xs = []"
  by (simp add: dropWhile_eq_Nil_conv)

lemma takeWhile_stop: "\<forall>x\<in>set xs. P x \<Longrightarrow> \<not> P y \<Longrightarrow> takeWhile P (xs @ y # ys) = xs"
  by (simp add: takeWhile_append)

lemma dropWhile_stop: "\<forall>x\<in>set xs. P x \<Longrightarrow> \<not> P y \<Longrightarrow> dropWhile P (xs @ y # ys) = y # ys"
  by (simp add: dropWhile_append)

end
