(* ===== verification/Libc.thy ===== *)
theory Libc
  imports Prelude
begin

unbundle bit_operations_syntax

text \<open>
  The functions of the C library that the programs use: the string functions, the
  decimal conversions, the IPv4 text conversions and the byte order macros. A C string is
  the list of its characters without the terminating NUL; a heap block that holds a
  string is a \<open>cbuf\<close> with its size, so that each write is checked against the block.
\<close>

section \<open>Characters and strings\<close>

abbreviation NUL :: char where "NUL \<equiv> CHR 0x00"
abbreviation TAB :: char where "TAB \<equiv> CHR 0x09"
abbreviation BSP :: char where "BSP \<equiv> CHR 0x08"
abbreviation CR :: char where "CR \<equiv> CHR 0x0D"
abbreviation LF :: char where "LF \<equiv> CHR 0x0A"
abbreviation SPC :: char where "SPC \<equiv> CHR 0x20"

abbreviation crlf :: string where "crlf \<equiv> [CR, LF]"
abbreviation crlf2 :: string where "crlf2 \<equiv> [CR, LF, CR, LF]"

text \<open>The C string that starts at a memory region: up to the first NUL.\<close>

definition c_string :: "string \<Rightarrow> string" where
  "c_string m = takeWhile (\<lambda>c. c \<noteq> NUL) m"

lemma c_string_id: "NUL \<notin> set s \<Longrightarrow> c_string s = s"
  by (auto simp: c_string_def intro: takeWhile_all)

lemma c_string_crlf2: "length m = 4 \<Longrightarrow> c_string m = crlf2 \<longleftrightarrow> m = crlf2"
  by (auto simp: c_string_def numeral_eq_Suc length_Suc_conv split: if_splits)

lemma no_NUL_c_string: "NUL \<notin> set (c_string m)"
  by (auto simp: c_string_def dest: set_takeWhileD)

text \<open>\<open>strtok\<close>: the next token and the text after the delimiter that ended it.\<close>

definition strtok :: "string \<Rightarrow> string \<Rightarrow> (string \<times> string) option" where
  "strtok delims s =
     (let t = dropWhile (\<lambda>c. c \<in> set delims) s
      in if t = [] then None
         else Some (takeWhile (\<lambda>c. c \<notin> set delims) t,
                    drop 1 (dropWhile (\<lambda>c. c \<notin> set delims) t)))"

text \<open>\<open>strsep\<close>: the text up to the first delimiter, and what follows it (the pointer
  becomes NULL, \<open>None\<close>, when there is no delimiter).\<close>

definition strsep :: "string \<Rightarrow> string \<Rightarrow> string \<times> string option" where
  "strsep delims s =
     (takeWhile (\<lambda>c. c \<notin> set delims) s,
      case dropWhile (\<lambda>c. c \<notin> set delims) s of [] \<Rightarrow> None | _ # r \<Rightarrow> Some r)"

fun strstr :: "string \<Rightarrow> string \<Rightarrow> string option" where
  "strstr [] n = (if n = [] then Some [] else None)"
| "strstr (c # cs) n = (if prefix n (c # cs) then Some (c # cs) else strstr cs n)"

lemma strtok_word:
  assumes "t \<noteq> []" and "set t \<inter> set ds = {}"
  shows "strtok ds t = Some (t, [])"
    and "d \<in> set ds \<Longrightarrow> strtok ds (t @ d # r) = Some (t, r)"
proof -
  from assms have dw: "dropWhile (\<lambda>c. c \<in> set ds) t = t"
      "dropWhile (\<lambda>c. c \<in> set ds) (t @ d # r) = t @ d # r"
    by (cases t; auto)+
  from assms have ok: "\<forall>c\<in>set t. c \<notin> set ds" by auto
  then show "strtok ds t = Some (t, [])"
    using assms dw by (simp add: strtok_def takeWhile_all dropWhile_all)
  show "strtok ds (t @ d # r) = Some (t, r)" if "d \<in> set ds"
    using that ok dw by (simp add: strtok_def takeWhile_stop dropWhile_stop)
qed

lemma strtok_None_iff: "strtok ds s = None \<longleftrightarrow> set s \<subseteq> set ds"
  by (auto simp: strtok_def Let_def dropWhile_eq_Nil_conv)

lemma strsep_found:
  "d \<in> set ds \<Longrightarrow> set t \<inter> set ds = {} \<Longrightarrow> strsep ds (t @ d # r) = (t, Some r)"
  by (subgoal_tac "\<forall>c\<in>set t. c \<notin> set ds") (auto simp: strsep_def takeWhile_stop dropWhile_stop)

lemma strsep_none: "set t \<inter> set ds = {} \<Longrightarrow> strsep ds t = (t, None)"
  by (auto simp: strsep_def disjoint_iff intro!: takeWhile_all split: list.splits)
    (metis dropWhile_eq_Nil_conv list.distinct(1))

lemma strstr_char:
  "c \<notin> set t \<Longrightarrow> strstr (t @ c # r) [c] = Some (c # r)"
  by (induction t) auto

lemma strstr_char_None: "c \<notin> set t \<Longrightarrow> strstr t [c] = None"
  by (induction t) auto

section \<open>String buffers on the heap\<close>

text \<open>
  A heap block of \<open>cap\<close> bytes that holds the string \<open>chars\<close> and its NUL. \<open>slack\<close> is what
  the block is known to hold after that NUL: the rest of a string that a NUL written into
  it has cut.
\<close>

record cbuf =
  cap :: nat
  chars :: string
  slack :: string

definition wf_cbuf :: "cbuf \<Rightarrow> bool" where
  "wf_cbuf b \<longleftrightarrow> length (chars b) + length (slack b) < cap b \<and> NUL \<notin> set (chars b)"

definition realloc_buf :: "cbuf \<Rightarrow> nat \<Rightarrow> cbuf res" where
  "realloc_buf b n = (if length (chars b) < n then Ret (b\<lparr>cap := n\<rparr>) else Crash Out_Of_Bounds)"

text \<open>\<open>strncat(b, src, n)\<close> appends at most \<open>n\<close> characters of \<open>src\<close>, then a NUL.\<close>

definition strncat_buf :: "cbuf \<Rightarrow> string \<Rightarrow> nat \<Rightarrow> cbuf res" where
  "strncat_buf b src n =
     (let add = c_string (take n src)
      in if length (chars b) + length add + 1 \<le> cap b then Ret (b\<lparr>chars := chars b @ add, slack := []\<rparr>)
         else Crash Buffer_Overflow)"

text \<open>\<open>sprintf\<close> into a buffer of \<open>n\<close> bytes: the formatted text and its NUL must fit.\<close>

definition sprintf_to :: "nat \<Rightarrow> string \<Rightarrow> string res" where
  "sprintf_to n s = (if length s + 1 \<le> n then Ret s else Crash Buffer_Overflow)"

text \<open>\<open>strncpy(dst, src, n)\<close> into an array whose last byte (at least) stays NUL.\<close>

definition strncpy_text :: "string \<Rightarrow> nat \<Rightarrow> string" where
  "strncpy_text src n = take n src"

section \<open>Decimal numbers\<close>

definition digit_char :: "nat \<Rightarrow> char" where
  "digit_char d = char_of (48 + d)"

definition is_digit :: "char \<Rightarrow> bool" where
  "is_digit c \<longleftrightarrow> 48 \<le> (of_char c :: nat) \<and> (of_char c :: nat) \<le> 57"

definition digit_val :: "char \<Rightarrow> nat" where
  "digit_val c = of_char c - 48"

text \<open>What \<open>%u\<close> prints.\<close>

fun dec :: "nat \<Rightarrow> string" where
  "dec n = (if n < 10 then [digit_char n] else dec (n div 10) @ [digit_char (n mod 10)])"

declare dec.simps [simp del]

text \<open>What \<open>%d\<close> and \<open>%i\<close> print.\<close>

definition dec_int :: "int \<Rightarrow> string" where
  "dec_int i = (if i < 0 then CHR ''-'' # dec (nat (- i)) else dec (nat i))"

definition digits_val :: "string \<Rightarrow> nat" where
  "digits_val s = foldl (\<lambda>a c. 10 * a + digit_val c) 0 s"

definition is_space :: "char \<Rightarrow> bool" where
  "is_space c \<longleftrightarrow> c \<in> {SPC, CHR 0x09, CHR 0x0A, CHR 0x0B, CHR 0x0C, CHR 0x0D}"

text \<open>
  \<open>strtol(s, NULL, 10)\<close> and \<open>strtoimax(s, NULL, 10)\<close> on a machine with 64-bit long:
  white space, an optional sign, digits; 0 when there is no digit, saturation at the ends
  of the range.
\<close>

definition strtol10 :: "string \<Rightarrow> int" where
  "strtol10 s =
     (let t = dropWhile is_space s;
          (neg, u) = (case t of [] \<Rightarrow> (False, [])
                      | c # r \<Rightarrow> if c = CHR ''-'' then (True, r)
                                else if c = CHR ''+'' then (False, r) else (False, t));
          v = int (digits_val (takeWhile is_digit u))
      in if neg then max (- (2 ^ 63)) (- v) else min (2 ^ 63 - 1) v)"

lemma of_char_digit_char: "d < 10 \<Longrightarrow> (of_char (digit_char d) :: nat) = 48 + d"
  by (simp add: digit_char_def of_char_of)

lemma is_digit_digit_char: "d < 10 \<Longrightarrow> is_digit (digit_char d)"
  by (simp add: is_digit_def of_char_digit_char)

lemma digit_val_digit_char: "d < 10 \<Longrightarrow> digit_val (digit_char d) = d"
  by (simp add: digit_val_def of_char_digit_char)

lemma dec_digits: "\<forall>c\<in>set (dec n). is_digit c"
proof (induction n rule: dec.induct)
  case (1 n)
  then show ?case
    by (cases "n < 10") (auto simp: dec.simps [of n] is_digit_digit_char)
qed

lemma dec_nonempty: "dec n \<noteq> []"
  by (subst dec.simps) simp

lemma digits_val_snoc: "digits_val (s @ [c]) = 10 * digits_val s + digit_val c"
  by (simp add: digits_val_def)

lemma digits_val_dec: "digits_val (dec n) = n"
proof (induction n rule: dec.induct)
  case (1 n)
  then show ?case
    by (cases "n < 10")
      (auto simp: dec.simps [of n] digits_val_snoc digit_val_digit_char digits_val_def)
qed

lemma length_dec: "n < 10 ^ k \<Longrightarrow> 0 < k \<Longrightarrow> length (dec n) \<le> k"
proof (induction k arbitrary: n)
  case (Suc k)
  show ?case
  proof (cases "n < 10")
    case False
    with Suc.prems have "n div 10 < 10 ^ k" and "0 < k"
      by (auto intro: gr0I)
    then have "length (dec (n div 10)) \<le> k" by (rule Suc.IH)
    with False show ?thesis by (simp add: dec.simps [of n])
  qed (simp add: dec.simps [of n])
qed simp

lemma is_digit_facts:
  assumes "is_digit c"
  shows "\<not> is_space c" and "c \<noteq> CHR ''-''" and "c \<noteq> CHR ''+''" and "c \<noteq> CHR '':''"
    and "c \<noteq> CR" and "c \<noteq> LF" and "c \<noteq> NUL" and "c \<noteq> CHR ''.''" and "c \<noteq> SPC"
  using assms by (auto simp: is_digit_def is_space_def)

lemma takeWhile_dec:
  "(\<forall>c. r = c # drop 1 r \<longrightarrow> \<not> is_digit c) \<Longrightarrow> takeWhile is_digit (dec n @ r) = dec n"
  by (cases r) (auto simp: takeWhile_append2 dec_digits)

lemma strtol10_dec:
  assumes "n < 2 ^ 63" and "r = [] \<or> \<not> is_digit (hd r)"
  shows "strtol10 (dec n @ r) = int n"
proof -
  obtain d ds where d: "dec n = d # ds" using dec_nonempty by (cases "dec n") auto
  with dec_digits [of n] have dd: "is_digit d" by auto
  have "takeWhile is_digit (dec n @ r) = dec n"
    using assms(2) by (cases r) (auto simp: takeWhile_append2 dec_digits)
  then have "int (digits_val (takeWhile is_digit (dec n @ r))) = int n"
    by (simp add: digits_val_dec)
  moreover from assms(1) have "int n \<le> 2 ^ 63 - 1" by simp
  ultimately show ?thesis
    using is_digit_facts [OF dd] by (simp add: strtol10_def d Let_def)
qed

section \<open>Byte order and IPv4 text\<close>

definition htons :: "u16 \<Rightarrow> u16" where
  "htons x = push_bit 8 x OR drop_bit 8 x"

abbreviation ntohs :: "u16 \<Rightarrow> u16" where "ntohs \<equiv> htons"

lemma htons_involution: "htons (htons x) = x"
  unfolding htons_def
  by (rule bit_word_eqI) (auto simp: bit_simps)

text \<open>
  \<open>inet_pton(AF_INET, \<dots>)\<close>: four decimal octets between dots, none above 255, none with
  a leading zero. \<open>cur\<close> is the octet being read. \<open>None\<close> is the return value 0.
\<close>

fun inet_pton_loop :: "string \<Rightarrow> nat list \<Rightarrow> nat option \<Rightarrow> nat list option" where
  "inet_pton_loop [] os None = None"
| "inet_pton_loop [] os (Some v) = (if length os = 3 then Some (os @ [v]) else None)"
| "inet_pton_loop (c # cs) os cur =
     (if is_digit c then
        (case cur of
           None \<Rightarrow> inet_pton_loop cs os (Some (digit_val c))
         | Some v \<Rightarrow> if v = 0 \<or> 10 * v + digit_val c > 255 then None
                    else inet_pton_loop cs os (Some (10 * v + digit_val c)))
      else if c = CHR ''.'' then
        (case cur of
           None \<Rightarrow> None
         | Some v \<Rightarrow> if length os = 3 then None else inet_pton_loop cs (os @ [v]) None)
      else None)"

definition inet_pton4 :: "string \<Rightarrow> nat list option" where
  "inet_pton4 s = inet_pton_loop s [] None"

text \<open>\<open>inet_ntop(AF_INET, \<dots>)\<close>: the octets in decimal, joined by dots.\<close>

fun inet_ntop4 :: "nat list \<Rightarrow> string" where
  "inet_ntop4 [] = []"
| "inet_ntop4 [v] = dec v"
| "inet_ntop4 (v # vs) = dec v @ CHR ''.'' # inet_ntop4 vs"

lemma inet_pton_loop_dec:
  assumes "n < 256"
  shows "inet_pton_loop (dec n @ r) os None = inet_pton_loop r os (Some n)"
  using assms
proof (induction n arbitrary: r rule: dec.induct)
  case (1 n)
  show ?case
  proof (cases "n < 10")
    case True
    then show ?thesis
      by (simp add: dec.simps [of n] is_digit_digit_char digit_val_digit_char)
  next
    case False
    with 1 have "inet_pton_loop (dec n @ r) os None
      = inet_pton_loop (digit_char (n mod 10) # r) os (Some (n div 10))"
      by (simp add: dec.simps [of n])
    moreover from False have "n div 10 \<noteq> 0" by simp
    moreover have "10 * (n div 10) + n mod 10 = n" by simp
    ultimately show ?thesis
      using 1 by (simp add: is_digit_digit_char digit_val_digit_char)
  qed
qed

lemma not_is_digit_dot: "\<not> is_digit CHR ''.''"
  by (simp add: is_digit_def)

lemma inet_pton4_ntop4:
  assumes "length os = 4" and "\<forall>v\<in>set os. v < 256"
  shows "inet_pton4 (inet_ntop4 os) = Some os"
proof -
  obtain a b c d where os: "os = [a, b, c, d]"
    using assms(1) by (auto simp: numeral_eq_Suc length_Suc_conv)
  have last: "inet_pton_loop (dec d) [a, b, c] None = Some [a, b, c, d]"
    using inet_pton_loop_dec [of d "[]" "[a, b, c]"] assms(2) os by simp
  show ?thesis
    using assms(2) last
    by (simp add: os inet_pton4_def inet_pton_loop_dec not_is_digit_dot)
qed

lemma length_inet_ntop4:
  assumes "length os = 4" and "\<forall>v\<in>set os. v < 256"
  shows "length (inet_ntop4 os) \<le> 15"
proof -
  obtain a b c d where os: "os = [a, b, c, d]"
    using assms(1) by (auto simp: numeral_eq_Suc length_Suc_conv)
  have "\<And>v. v \<in> set os \<Longrightarrow> length (dec v) \<le> 3"
    using assms(2) by (auto intro!: length_dec)
  then have "length (dec a) \<le> 3" "length (dec b) \<le> 3" "length (dec c) \<le> 3" "length (dec d) \<le> 3"
    by (auto simp: os)
  then show ?thesis by (simp add: os)
qed

end
