(* ===== verification/Posix.thy ===== *)
theory Posix
  imports Libc
begin

text \<open>
  The operating system as the programs see it. The state \<open>os\<close> holds, for each system
  call, the answers the kernel will give; a call consumes the next one, and a call with
  no answer left blocks. Every theorem quantifies over these answers, so it covers every
  behaviour of the peer, the file system and the network. What the program does to the
  outside (bytes accepted by a descriptor, descriptors closed, sockets bound) is recorded.
  Output to \<open>stderr\<close> (the \<open>debug\<close> macro and the error messages) is not recorded.
\<close>

section \<open>The state\<close>

text \<open>
  Answers to \<open>read\<close>: an error (-1), or bytes that arrived together; no bytes is end of
  file. A read of fewer bytes than have arrived leaves the others for the next read.
  Answers to \<open>write\<close>: an error (-1), or the number of bytes the kernel is ready to accept.
\<close>

datatype rd = Rd_Err | Rd_Data string
datatype wr = Wr_Err | Wr_Acc nat

text \<open>A file that can be opened for reading: the size \<open>fstat\<close> reports and its reads.\<close>

record os_file =
  fsize :: nat
  fdata :: "rd list"

record sockaddr_in =
  sin_family :: nat
  sin_port :: u16
  sin_addr :: "nat list"
  sin_zero :: string

datatype acc = Acc_Err | Acc int sockaddr_in

datatype event =
    Ev_Close int
  | Ev_Bind int sockaddr_in
  | Ev_Listen int int
  | Ev_Connect int sockaddr_in
  | Ev_Fork int

record os =
  rds :: "int \<Rightarrow> rd list"
  wrs :: "int \<Rightarrow> wr list"
  outs :: "int \<Rightarrow> string"
  next_fd :: int
  files :: "string \<Rightarrow> os_file option"
  creats :: "string \<Rightarrow> wr list option"
  created :: "(string \<times> int) list"
  opened :: "string list"
  stats :: "int \<Rightarrow> nat"
  dirs :: "string \<Rightarrow> string list option"
  socks :: "int list"
  binds :: "int list"
  listens :: "int list"
  connects :: "int list"
  accepts :: "acc list"
  forks :: "int list"
  clock :: "nat \<Rightarrow> nat \<times> nat"
  ticks :: nat
  heap_pre :: "nat \<Rightarrow> nat \<Rightarrow> char"
  heap_junk :: "nat \<Rightarrow> string"
  evts :: "event list"
  stdout :: string

text \<open>
  \<open>heap_pre n k\<close> is the byte \<open>k + 1\<close> places before a heap block of \<open>n\<close> bytes, and
  \<open>heap_junk n\<close> the bytes that \<open>malloc(n)\<close> leaves in a fresh block: C leaves both open,
  and two of the programs read them.
\<close>

type_synonym 'a cio = "(os, 'a) io"

section \<open>System calls\<close>

definition sys_read :: "int \<Rightarrow> nat \<Rightarrow> string option cio" where
  "sys_read fd n w =
     (case rds w fd of
        [] \<Rightarrow> (Blocked, w)
      | Rd_Err # r \<Rightarrow> (Ret None, w\<lparr>rds := (rds w)(fd := r)\<rparr>)
      | Rd_Data bs # r \<Rightarrow>
          if length bs \<le> n then (Ret (Some bs), w\<lparr>rds := (rds w)(fd := r)\<rparr>)
          else (Ret (Some (take n bs)), w\<lparr>rds := (rds w)(fd := Rd_Data (drop n bs) # r)\<rparr>))"

text \<open>\<open>write(fd, mem + off, n)\<close>; \<open>mem\<close> is the object the pointer points into.\<close>

definition sys_write :: "int \<Rightarrow> string \<Rightarrow> int \<Rightarrow> nat \<Rightarrow> int cio" where
  "sys_write fd mem off n w =
     (if off < 0 \<or> int (length mem) < off + int n then (Crash Out_Of_Bounds, w)
      else case wrs w fd of
        [] \<Rightarrow> (Blocked, w)
      | Wr_Err # r \<Rightarrow> (Ret (-1), w\<lparr>wrs := (wrs w)(fd := r)\<rparr>)
      | Wr_Acc k # r \<Rightarrow>
          (Ret (int (min k n)),
           w\<lparr>wrs := (wrs w)(fd := r),
             outs := (outs w)(fd := outs w fd @ take (min k n) (drop (nat off) mem))\<rparr>))"

definition sys_open_rd :: "string \<Rightarrow> int cio" where
  "sys_open_rd path w =
     (case files w path of
        None \<Rightarrow> (Ret (-1), w)
      | Some f \<Rightarrow>
          (Ret (next_fd w),
           w\<lparr>next_fd := next_fd w + 1, opened := opened w @ [path],
             rds := (rds w)(next_fd w := fdata f), stats := (stats w)(next_fd w := fsize f)\<rparr>))"

definition sys_creat :: "string \<Rightarrow> int cio" where
  "sys_creat path w =
     (case creats w path of
        None \<Rightarrow> (Ret (-1), w)
      | Some a \<Rightarrow>
          (Ret (next_fd w),
           w\<lparr>next_fd := next_fd w + 1, created := created w @ [(path, next_fd w)],
             wrs := (wrs w)(next_fd w := a), outs := (outs w)(next_fd w := [])\<rparr>))"

definition sys_fstat_size :: "int \<Rightarrow> nat cio" where
  "sys_fstat_size fd w = (Ret (stats w fd), w)"

definition sys_close :: "int \<Rightarrow> unit cio" where
  "sys_close fd w = (Ret (), w\<lparr>evts := evts w @ [Ev_Close fd]\<rparr>)"

definition sys_opendir :: "string \<Rightarrow> string list option cio" where
  "sys_opendir path w = (Ret (dirs w path), w)"

definition sys_socket :: "int cio" where
  "sys_socket w = (case socks w of [] \<Rightarrow> (Blocked, w) | a # r \<Rightarrow> (Ret a, w\<lparr>socks := r\<rparr>))"

definition sys_bind :: "int \<Rightarrow> sockaddr_in \<Rightarrow> int cio" where
  "sys_bind fd a w =
     (case binds w of [] \<Rightarrow> (Blocked, w)
      | b # r \<Rightarrow> (Ret b, w\<lparr>binds := r, evts := evts w @ [Ev_Bind fd a]\<rparr>))"

definition sys_listen :: "int \<Rightarrow> int \<Rightarrow> int cio" where
  "sys_listen fd q w =
     (case listens w of [] \<Rightarrow> (Blocked, w)
      | b # r \<Rightarrow> (Ret b, w\<lparr>listens := r, evts := evts w @ [Ev_Listen fd q]\<rparr>))"

definition sys_connect :: "int \<Rightarrow> sockaddr_in \<Rightarrow> int cio" where
  "sys_connect fd a w =
     (case connects w of [] \<Rightarrow> (Blocked, w)
      | b # r \<Rightarrow> (Ret b, w\<lparr>connects := r, evts := evts w @ [Ev_Connect fd a]\<rparr>))"

definition sys_accept :: "int \<Rightarrow> acc cio" where
  "sys_accept fd w =
     (case accepts w of [] \<Rightarrow> (Blocked, w) | a # r \<Rightarrow> (Ret a, w\<lparr>accepts := r\<rparr>))"

definition sys_fork :: "int cio" where
  "sys_fork w =
     (case forks w of [] \<Rightarrow> (Blocked, w)
      | p # r \<Rightarrow> (Ret p, w\<lparr>forks := r, evts := evts w @ [Ev_Fork p]\<rparr>))"

definition sys_gettimeofday :: "(nat \<times> nat) cio" where
  "sys_gettimeofday w = (Ret (clock w (ticks w)), w\<lparr>ticks := Suc (ticks w)\<rparr>)"

definition sys_printf :: "string \<Rightarrow> unit cio" where
  "sys_printf s w = (Ret (), w\<lparr>stdout := stdout w @ s\<rparr>)"

text \<open>\<open>malloc(n)\<close> used as a string buffer: the string the fresh block happens to hold. A
  block without a NUL makes the next \<open>strlen\<close> run past its end.\<close>

definition sys_malloc_str :: "nat \<Rightarrow> cbuf cio" where
  "sys_malloc_str n w =
     (if NUL \<in> set (take n (heap_junk w n)) then (Ret \<lparr>cap = n, chars = c_string (take n (heap_junk w n)), slack = []\<rparr>, w)
      else (Crash Out_Of_Bounds, w))"

text \<open>A system in which nothing has happened yet, the starting point of the examples.\<close>

definition idle :: os where
  "idle = \<lparr>rds = (\<lambda>_. []), wrs = (\<lambda>_. []), outs = (\<lambda>_. []), next_fd = 8,
     files = (\<lambda>_. None), creats = (\<lambda>_. None), created = [], opened = [], stats = (\<lambda>_. 0),
     dirs = (\<lambda>_. None), socks = [], binds = [], listens = [], connects = [], accepts = [],
     forks = [], clock = (\<lambda>n. (n, 0)), ticks = 0, heap_pre = (\<lambda>_ _. NUL),
     heap_junk = (\<lambda>_. [NUL]), evts = [], stdout = []\<rparr>"

lemma idle_sel [simp]:
  "rds idle = (\<lambda>_. [])" "wrs idle = (\<lambda>_. [])" "outs idle = (\<lambda>_. [])" "next_fd idle = 8"
  "files idle = (\<lambda>_. None)" "creats idle = (\<lambda>_. None)" "created idle = []" "opened idle = []"
  "dirs idle = (\<lambda>_. None)" "socks idle = []" "binds idle = []" "listens idle = []"
  "connects idle = []" "accepts idle = []" "forks idle = []" "heap_pre idle = (\<lambda>_ _. NUL)"
  "heap_junk idle = (\<lambda>_. [NUL])" "evts idle = []" "stdout idle = []" "clock idle = (\<lambda>n. (n, 0))"
  by (simp_all add: idle_def)

section \<open>Scripts\<close>

text \<open>The state with other input left on a descriptor.\<close>

definition with_rds :: "int \<Rightarrow> rd list \<Rightarrow> os \<Rightarrow> os" where
  "with_rds fd q w = w\<lparr>rds := (rds w)(fd := q)\<rparr>"

lemma with_rds_same [simp]: "rds w fd = q \<Longrightarrow> with_rds fd q w = w"
  by (simp add: with_rds_def fun_upd_idem)

lemma with_rds_twice [simp]: "with_rds fd q (with_rds fd p w) = with_rds fd q w"
  by (simp add: with_rds_def)

lemma with_rds_sel [simp]:
  "rds (with_rds fd q w) = (rds w)(fd := q)"
  "outs (with_rds fd q w) = outs w"
  "wrs (with_rds fd q w) = wrs w"
  "next_fd (with_rds fd q w) = next_fd w"
  "files (with_rds fd q w) = files w"
  "creats (with_rds fd q w) = creats w"
  "created (with_rds fd q w) = created w"
  "opened (with_rds fd q w) = opened w"
  "stats (with_rds fd q w) = stats w"
  "dirs (with_rds fd q w) = dirs w"
  "accepts (with_rds fd q w) = accepts w"
  "socks (with_rds fd q w) = socks w"
  "connects (with_rds fd q w) = connects w"
  "forks (with_rds fd q w) = forks w"
  "clock (with_rds fd q w) = clock w"
  "ticks (with_rds fd q w) = ticks w"
  "heap_pre (with_rds fd q w) = heap_pre w"
  "heap_junk (with_rds fd q w) = heap_junk w"
  "evts (with_rds fd q w) = evts w"
  "stdout (with_rds fd q w) = stdout w"
  by (simp_all add: with_rds_def)

lemma sys_read_state:
  "sys_read fd n w = (r, w') \<Longrightarrow> w' = with_rds fd (rds w' fd) w"
  by (auto simp: sys_read_def with_rds_def fun_upd_idem split: list.splits rd.splits if_splits)

text \<open>The size of a read script: every read of at least one byte makes it smaller.\<close>

fun rd_size :: "rd list \<Rightarrow> nat" where
  "rd_size [] = 0"
| "rd_size (Rd_Err # r) = Suc (rd_size r)"
| "rd_size (Rd_Data bs # r) = Suc (length bs + rd_size r)"

lemma rd_size_eq_0 [simp]: "rd_size r = 0 \<longleftrightarrow> r = []"
  by (cases r rule: rd_size.cases) auto

lemma sys_read_decreases:
  "sys_read fd n w = (Ret x, w') \<Longrightarrow> 0 < n \<Longrightarrow> rd_size (rds w' fd) < rd_size (rds w fd)"
  by (auto simp: sys_read_def split: list.splits rd.splits if_splits)

lemma sys_read_Nil: "rds w fd = [] \<Longrightarrow> sys_read fd n w = (Blocked, w)"
  by (simp add: sys_read_def)

lemma sys_read_Ret:
  assumes "rds w fd \<noteq> []"
  obtains x q where "sys_read fd n w = (Ret x, with_rds fd q w)"
    and "0 < n \<Longrightarrow> rd_size q < rd_size (rds w fd)"
proof -
  have "\<exists>x w1. sys_read fd n w = (Ret x, w1)"
    using assms by (auto simp: sys_read_def neq_Nil_conv split: rd.split)
  then obtain x w1 where rd: "sys_read fd n w = (Ret x, w1)" by blast
  with sys_read_state [OF rd] sys_read_decreases [OF rd] show ?thesis
    by (intro that [of x "rds w1 fd"]) auto
qed

lemma sys_write_decreases:
  "sys_write fd mem off n w = (Ret x, w') \<Longrightarrow> length (wrs w' fd) < length (wrs w fd)"
  by (auto simp: sys_write_def split: list.splits wr.splits if_splits)

lemma sys_write_range: "sys_write fd mem off n w = (Ret x, w') \<Longrightarrow> x = -1 \<or> 0 \<le> x \<and> x \<le> int n"
  by (auto simp: sys_write_def split: list.splits wr.splits if_splits)

text \<open>
  A stream in good order: no error and no end of file among the answers; its bytes are
  the concatenation of the segments, however the network cut them.
\<close>

definition flowing :: "rd list \<Rightarrow> bool" where
  "flowing r \<longleftrightarrow> (\<forall>a\<in>set r. \<exists>bs. a = Rd_Data bs \<and> bs \<noteq> [])"

fun stream :: "rd list \<Rightarrow> string" where
  "stream [] = []"
| "stream (Rd_Err # r) = stream r"
| "stream (Rd_Data bs # r) = bs @ stream r"

lemma flowing_simps [simp]:
  "flowing []" "\<not> flowing (Rd_Err # r)" "flowing (Rd_Data bs # r) \<longleftrightarrow> bs \<noteq> [] \<and> flowing r"
  by (auto simp: flowing_def)

lemma flowing_stream_Nil: "flowing r \<Longrightarrow> stream r = [] \<longleftrightarrow> r = []"
  by (cases r rule: stream.cases) auto

lemma stream_append [simp]: "stream (a @ b) = stream a @ stream b"
  by (induction a rule: stream.induct) auto

lemma flowing_append [simp]: "flowing (a @ b) \<longleftrightarrow> flowing a \<and> flowing b"
  by (auto simp: flowing_def)

text \<open>A read from a flowing script: some non-empty part of the stream, at most \<open>n\<close> bytes.\<close>

lemma sys_read_flowing:
  assumes "rds w fd = r @ q" and "flowing r" and "r \<noteq> []" and "0 < n"
  obtains bs r' where "sys_read fd n w = (Ret (Some bs), with_rds fd (r' @ q) w)"
    and "flowing r'" and "stream r = bs @ stream r'" and "bs \<noteq> []" and "length bs \<le> n"
    and "rd_size r' < rd_size r"
proof -
  from assms(2,3) obtain bs r1 where r: "r = Rd_Data bs # r1" and "bs \<noteq> []" "flowing r1"
    by (cases r rule: stream.cases) auto
  show ?thesis
  proof (cases "length bs \<le> n")
    case True
    with r assms \<open>bs \<noteq> []\<close> \<open>flowing r1\<close> show ?thesis
      by (intro that [of bs r1]) (auto simp: sys_read_def with_rds_def)
  next
    case False
    with r assms \<open>flowing r1\<close> show ?thesis
      by (intro that [of "take n bs" "Rd_Data (drop n bs) # r1"]) (auto simp: sys_read_def with_rds_def)
  qed
qed

text \<open>A writable descriptor: every answer accepts at least one byte, and \<open>n\<close> bytes get
  through.\<close>

definition accepting :: "wr list \<Rightarrow> nat \<Rightarrow> bool" where
  "accepting a n \<longleftrightarrow> n \<le> length a \<and> (\<forall>x\<in>set a. \<exists>k. x = Wr_Acc (Suc k))"

lemma accepting_mono: "accepting a n \<Longrightarrow> m \<le> n \<Longrightarrow> accepting a m"
  by (auto simp: accepting_def)

lemma accepting_replicate: "0 < k \<Longrightarrow> accepting (replicate n (Wr_Acc k)) m \<longleftrightarrow> m \<le> n"
  by (cases k) (auto simp: accepting_def)

lemma accepting_Suc:
  assumes "accepting a n" and "0 < n"
  obtains k r where "a = Wr_Acc (Suc k) # r" and "accepting r (n - 1)"
proof -
  from assms obtain x r where "a = x # r" by (cases a) (auto simp: accepting_def)
  with assms that show ?thesis by (fastforce simp: accepting_def)
qed

lemma accepting_drop: "accepting a n \<Longrightarrow> accepting (drop m a) (n - m)"
  by (auto simp: accepting_def dest: in_set_dropD)

text \<open>
  A file that reads without error up to its end of file, and the bytes it delivers.
\<close>

fun reads_ok :: "rd list \<Rightarrow> bool" where
  "reads_ok [] = False"
| "reads_ok (Rd_Err # r) = False"
| "reads_ok (Rd_Data bs # r) = (bs = [] \<or> reads_ok r)"

fun content :: "rd list \<Rightarrow> string" where
  "content [] = []"
| "content (Rd_Err # r) = []"
| "content (Rd_Data bs # r) = (if bs = [] then [] else bs @ content r)"

lemma reads_okE:
  assumes "reads_ok a"
  obtains r q where "a = r @ Rd_Data [] # q" and "flowing r" and "stream r = content a"
  using assms
proof (induction a arbitrary: thesis rule: reads_ok.induct)
  case (3 bs a)
  show ?case
  proof (cases "bs = []")
    case True
    then show ?thesis using 3(2) [of "[]" a] by simp
  next
    case False
    with 3(1,3) obtain r q where "a = r @ Rd_Data [] # q" "flowing r" "stream r = content a"
      by auto
    with False show ?thesis using 3(2) [of "Rd_Data bs # r" q] by simp
  qed
qed simp_all

lemma length_stream_le: "length (stream r) \<le> rd_size r"
  by (induction r rule: stream.induct) auto

lemma rd_size_append [simp]: "rd_size (a @ b) = rd_size a + rd_size b"
  by (induction a rule: rd_size.induct) auto

end
