(* ===== verification/Write_All.thy ===== *)
theory Write_All
  imports Posix
begin

text \<open>
  The contract of the loops that write a buffer with repeated calls of \<open>write\<close>. Every
  program of the repository has such loops, with counters of different types
  (\<open>u_int\<close>, \<open>int\<close>) and with the test before or after the call. The locale states what
  one round does; its lemmas say what a whole run does. Each program interprets it on its
  own loop.
\<close>

text \<open>The state after \<open>k\<close> calls of \<open>write\<close> that delivered \<open>bs\<close>.\<close>

definition wrote :: "int \<Rightarrow> string \<Rightarrow> nat \<Rightarrow> os \<Rightarrow> os" where
  "wrote fd bs k w =
     w\<lparr>wrs := (wrs w)(fd := drop k (wrs w fd)), outs := (outs w)(fd := outs w fd @ bs)\<rparr>"

lemma wrote_wrote [simp]: "wrote fd b2 k2 (wrote fd b1 k1 w) = wrote fd (b1 @ b2) (k1 + k2) w"
  by (simp add: wrote_def add.commute)

lemma wrote_sel [simp]:
  "outs (wrote fd bs k w) = (outs w)(fd := outs w fd @ bs)"
  "wrs (wrote fd bs k w) = (wrs w)(fd := drop k (wrs w fd))"
  "rds (wrote fd bs k w) = rds w"
  "next_fd (wrote fd bs k w) = next_fd w"
  "files (wrote fd bs k w) = files w"
  "creats (wrote fd bs k w) = creats w"
  "created (wrote fd bs k w) = created w"
  "opened (wrote fd bs k w) = opened w"
  "stats (wrote fd bs k w) = stats w"
  "dirs (wrote fd bs k w) = dirs w"
  "accepts (wrote fd bs k w) = accepts w"
  "socks (wrote fd bs k w) = socks w"
  "connects (wrote fd bs k w) = connects w"
  "forks (wrote fd bs k w) = forks w"
  "clock (wrote fd bs k w) = clock w"
  "ticks (wrote fd bs k w) = ticks w"
  "heap_pre (wrote fd bs k w) = heap_pre w"
  "heap_junk (wrote fd bs k w) = heap_junk w"
  "evts (wrote fd bs k w) = evts w"
  "stdout (wrote fd bs k w) = stdout w"
  by (simp_all add: wrote_def)

lemma with_rds_wrote: "with_rds fd q (wrote f bs k w) = wrote f bs k (with_rds fd q w)"
  by (simp add: wrote_def with_rds_def)

lemma wrote_0 [simp]: "wrote fd [] 0 w = w"
  by (simp add: wrote_def)

lemma sys_write_acc:
  assumes "wrs w fd = Wr_Acc k # r" and "i + n \<le> length mem"
  shows "sys_write fd mem (int i) n w =
           (Ret (int (min k n)), wrote fd (take (min k n) (drop i mem)) 1 w)"
  using assms by (simp add: sys_write_def wrote_def)

lemma sys_write_blocked:
  "wrs w fd = [] \<Longrightarrow> i + n \<le> length mem \<Longrightarrow> sys_write fd mem (int i) n w = (Blocked, w)"
  by (simp add: sys_write_def)

lemma sys_write_err:
  "wrs w fd = Wr_Err # r \<Longrightarrow> i + n \<le> length mem \<Longrightarrow>
     sys_write fd mem (int i) n w = (Ret (-1), wrote fd [] 1 w)"
  by (simp add: sys_write_def wrote_def)

definition no_wr_err :: "wr list \<Rightarrow> bool" where
  "no_wr_err a \<longleftrightarrow> Wr_Err \<notin> set a"

text \<open>The calls that will fail, and with them the bytes a descriptor has accepted.\<close>

fun write_errors :: "wr list \<Rightarrow> nat" where
  "write_errors [] = 0"
| "write_errors (Wr_Err # a) = Suc (write_errors a)"
| "write_errors (Wr_Acc k # a) = write_errors a"

definition owed :: "int \<Rightarrow> os \<Rightarrow> int" where
  "owed fd w = int (length (outs w fd)) + int (write_errors (wrs w fd))"

text \<open>
  \<open>lp fd mem n c\<close> is the loop with \<open>c\<close> in its counter, \<open>cnt\<close> reads the counter, and
  \<open>bound\<close> limits the sizes for which the counter does not wrap around.
\<close>

locale write_all =
  fixes lp :: "int \<Rightarrow> string \<Rightarrow> nat \<Rightarrow> 'c \<Rightarrow> 'c cio"
    and cnt :: "'c \<Rightarrow> nat"
    and bound :: nat
  assumes lp_blocked:
      "cnt c < n \<Longrightarrow> n \<le> length mem \<Longrightarrow> n < bound \<Longrightarrow> wrs w fd = [] \<Longrightarrow>
         lp fd mem n c w = (Blocked, w)"
    and lp_step:
      "cnt c < n \<Longrightarrow> n \<le> length mem \<Longrightarrow> n < bound \<Longrightarrow> wrs w fd = Wr_Acc k # r \<Longrightarrow>
         \<exists>c'. cnt c' = cnt c + min k (n - cnt c) \<and>
              lp fd mem n c w =
                (let w' = wrote fd (take (min k (n - cnt c)) (drop (cnt c) mem)) 1 w
                 in if cnt c' < n then lp fd mem n c' w' else (Ret c', w'))"
begin

text \<open>Enough answers that accept something: the whole buffer goes out, once, in order.\<close>

lemma lp_total:
  assumes "cnt c < n" and "n \<le> length mem" and "n < bound" and "accepting (wrs w fd) (n - cnt c)"
  shows "\<exists>c' k. lp fd mem n c w = (Ret c', wrote fd (take (n - cnt c) (drop (cnt c) mem)) k w) \<and>
           cnt c' = n \<and> k \<le> n - cnt c"
  using assms
proof (induction "n - cnt c" arbitrary: c w rule: less_induct)
  case less
  have "0 < n - cnt c" using less.prems(1) by simp
  then obtain k r where
    wr: "wrs w fd = Wr_Acc (Suc k) # r" and acc: "accepting r (n - cnt c - 1)"
    using accepting_Suc [OF less.prems(4)] by blast
  define m where "m = min (Suc k) (n - cnt c)"
  let ?w = "wrote fd (take m (drop (cnt c) mem)) 1 w"
  from lp_step [OF less.prems(1-3) wr] obtain c' where
    c': "cnt c' = cnt c + m" and
    run: "lp fd mem n c w = (if cnt c' < n then lp fd mem n c' ?w else (Ret c', ?w))"
    unfolding Let_def m_def by blast
  from less.prems(1) have m: "0 < m" "m \<le> n - cnt c" by (auto simp: m_def)
  show ?case
  proof (cases "cnt c' < n")
    case True
    have "accepting (wrs ?w fd) (n - cnt c')"
      using acc wr m c' by (auto intro: accepting_mono)
    moreover have "n - cnt c' < n - cnt c" using m c' less.prems(1) by simp
    ultimately obtain c2 k2 where
      "lp fd mem n c' ?w = (Ret c2, wrote fd (take (n - cnt c') (drop (cnt c') mem)) k2 ?w)"
      and "cnt c2 = n" and "k2 \<le> n - cnt c'"
      using less.hyps [of c' ?w] True less.prems(2,3) by blast
    moreover have "take m (drop (cnt c) mem) @ take (n - cnt c') (drop (cnt c') mem)
        = take (n - cnt c) (drop (cnt c) mem)"
      using take_append_drop_mid [of m "n - cnt c" "drop (cnt c) mem"] m c'
      by (simp add: add.commute)
    ultimately show ?thesis using run True m c' by (intro exI [of _ c2] exI [of _ "1 + k2"]) simp
  next
    case False
    with c' m have "m = n - cnt c" by simp
    with run False c' m show ?thesis by (intro exI [of _ c'] exI [of _ 1]) simp
  qed
qed

text \<open>
  Without errors, whatever the kernel accepts: what goes out is the unsent part of the
  buffer up to some point, and all of it when the loop returns; the loop does not crash.
\<close>

lemma lp_prefix:
  assumes "cnt c < n" and "n \<le> length mem" and "n < bound" and "no_wr_err (wrs w fd)"
  shows "\<exists>m k. snd (lp fd mem n c w) = wrote fd (take m (drop (cnt c) mem)) k w \<and>
           cnt c + m \<le> n \<and>
           (fst (lp fd mem n c w) = Blocked \<or>
            (\<exists>c'. fst (lp fd mem n c w) = Ret c' \<and> cnt c' = n) \<and> cnt c + m = n)"
  using assms
proof (induction "length (wrs w fd)" arbitrary: c w rule: less_induct)
  case less
  show ?case
  proof (cases "wrs w fd")
    case Nil
    with less.prems lp_blocked [of c n mem w fd] show ?thesis
      by (intro exI [of _ 0]) simp
  next
    case (Cons a r)
    with less.prems(4) obtain k where wr: "wrs w fd = Wr_Acc k # r"
      by (cases a) (auto simp: no_wr_err_def)
    define m where "m = min k (n - cnt c)"
    let ?w = "wrote fd (take m (drop (cnt c) mem)) 1 w"
    from lp_step [OF less.prems(1-3) wr] obtain c' where
      c': "cnt c' = cnt c + m" and
      run: "lp fd mem n c w = (if cnt c' < n then lp fd mem n c' ?w else (Ret c', ?w))"
      unfolding Let_def m_def by blast
    have mn: "cnt c + m \<le> n" using less.prems(1) by (simp add: m_def)
    show ?thesis
    proof (cases "cnt c' < n")
      case True
      have "no_wr_err (wrs ?w fd)" and "length (wrs ?w fd) < length (wrs w fd)"
        using less.prems(4) wr by (auto simp: no_wr_err_def)
      with less.hyps [of ?w c'] True less.prems(2,3) obtain m2 k2 where
        "snd (lp fd mem n c' ?w) = wrote fd (take m2 (drop (cnt c') mem)) k2 ?w"
        and m2: "cnt c' + m2 \<le> n"
        and "fst (lp fd mem n c' ?w) = Blocked \<or>
            (\<exists>c''. fst (lp fd mem n c' ?w) = Ret c'' \<and> cnt c'' = n) \<and> cnt c' + m2 = n"
        by blast
      moreover have "take m (drop (cnt c) mem) @ take m2 (drop (cnt c') mem)
          = take (m + m2) (drop (cnt c) mem)"
        using c' take_add [of m m2 "drop (cnt c) mem"] by (simp add: add.commute)
      ultimately show ?thesis
        using run True c' by (intro exI [of _ "m + m2"] exI [of _ "1 + k2"]) (auto simp: add.assoc)
    next
      case False
      with run c' mn show ?thesis by (intro exI [of _ m] exI [of _ 1]) auto
    qed
  qed
qed

end

end
