(* ===== verification/Evolve.thy ===== *)
theory Evolve
  imports Write_All
begin

text \<open>
  What no system call of the model ever does: reopen an old descriptor, take back bytes
  that went out, add answers to a script, or change the files, the clock or the heap's
  unspecified bytes. The relation is the frame of every function of the programs.
\<close>

definition evolves :: "os \<Rightarrow> os \<Rightarrow> bool" where
  "evolves w w' \<longleftrightarrow>
     next_fd w \<le> next_fd w' \<and>
     (\<forall>f < next_fd w. rd_size (rds w' f) \<le> rd_size (rds w f)) \<and>
     (\<forall>f < next_fd w. prefix (outs w f) (outs w' f)) \<and>
     (\<forall>f < next_fd w. suffix (wrs w' f) (wrs w f)) \<and>
     suffix (accepts w') (accepts w) \<and> suffix (forks w') (forks w) \<and>
     prefix (evts w) (evts w') \<and> prefix (opened w) (opened w') \<and>
     prefix (stdout w) (stdout w') \<and>
     files w' = files w \<and> creats w' = creats w \<and> dirs w' = dirs w \<and> clock w' = clock w \<and>
     heap_pre w' = heap_pre w \<and> heap_junk w' = heap_junk w"

lemma evolves_refl [simp]: "evolves w w"
  by (simp add: evolves_def)

lemma evolves_trans: "evolves u v \<Longrightarrow> evolves v w \<Longrightarrow> evolves u w"
  unfolding evolves_def
  by (smt (verit, best) le_trans order_trans order.strict_trans2 prefix_order.trans suffix_order.trans)

lemma transp_evolves: "transp evolves"
  by (auto intro: transpI evolves_trans)

named_theorems evolve \<open>functions that keep the relation\<close>

lemma keeps_bind [evolve]:
  "keeps evolves m \<Longrightarrow> (\<And>x. keeps evolves (k x)) \<Longrightarrow> keeps evolves (bindIO m k)"
  by (rule keeps_bindIO [OF transp_evolves])

text \<open>The pointwise form, for the loops.\<close>

lemma evolves_bind:
  assumes "keeps evolves m" and "\<And>x w'. m w = (Ret x, w') \<Longrightarrow> evolves w' (snd (k x w'))"
  shows "evolves w (snd (bindIO m k w))"
proof -
  obtain r w' where m: "m w = (r, w')" by fastforce
  with assms(1) have "evolves w w'" by (rule keepsD)
  with m assms(2) show ?thesis by (cases r) (auto intro: evolves_trans)
qed

lemma keeps_ret [evolve]: "keeps evolves (retIO x)" "keeps evolves (crashIO f)" "keeps evolves (liftR r)"
    "keeps evolves (Pair r)"
  by (auto intro: keepsI)

lemma keeps_sys_read [evolve]: "keeps evolves (sys_read fd n)"
  by (rule keepsI) (auto simp: evolves_def sys_read_def split: list.split rd.split)

lemma keeps_sys_write [evolve]: "keeps evolves (sys_write fd mem off n)"
  by (rule keepsI) (auto simp: evolves_def sys_write_def suffix_ConsI split: list.split wr.split)

lemma keeps_sys_open_rd [evolve]: "keeps evolves (sys_open_rd p)"
  by (rule keepsI) (auto simp: evolves_def sys_open_rd_def split: option.split)

lemma keeps_sys_creat [evolve]: "keeps evolves (sys_creat p)"
  by (rule keepsI) (auto simp: evolves_def sys_creat_def split: option.split)

lemma keeps_sys_misc [evolve]:
  "keeps evolves (sys_fstat_size fd)" "keeps evolves (sys_close fd)" "keeps evolves (sys_opendir p)"
  "keeps evolves sys_gettimeofday" "keeps evolves (sys_printf s)" "keeps evolves (sys_malloc_str n)"
  by (rule keepsI; simp add: evolves_def sys_fstat_size_def sys_close_def sys_opendir_def
      sys_gettimeofday_def sys_printf_def sys_malloc_str_def)+

lemma keeps_sys_net [evolve]:
  "keeps evolves sys_socket" "keeps evolves (sys_bind fd a)" "keeps evolves (sys_listen fd q)"
  "keeps evolves (sys_connect fd a)" "keeps evolves (sys_accept fd)" "keeps evolves sys_fork"
  by (rule keepsI; auto simp: evolves_def sys_socket_def sys_bind_def sys_listen_def
      sys_connect_def sys_accept_def sys_fork_def suffix_ConsI split: list.split)+

lemma keeps_if [evolve]:
  "(b \<Longrightarrow> keeps evolves m) \<Longrightarrow> (\<not> b \<Longrightarrow> keeps evolves m') \<Longrightarrow> keeps evolves (if b then m else m')"
  by simp

lemma keeps_option [evolve]:
  "(x = None \<Longrightarrow> keeps evolves m) \<Longrightarrow> (\<And>y. x = Some y \<Longrightarrow> keeps evolves (k y)) \<Longrightarrow>
     keeps evolves (case x of None \<Rightarrow> m | Some y \<Rightarrow> k y)"
  by (cases x) auto

lemma evolves_wrote: "evolves w (wrote fd bs k w)"
  by (auto simp: evolves_def suffix_drop)

section \<open>Functions without a bound\<close>

definition fuelled :: "'a res \<Rightarrow> bool" where
  "fuelled r \<longleftrightarrow> r \<noteq> No_Fuel"

lemma fuelled_simps [simp]:
  "fuelled (Ret x)" "fuelled Blocked" "fuelled (Crash f)" "fuelled (Exit n)" "\<not> fuelled No_Fuel"
  by (simp_all add: fuelled_def)

definition unbounded :: "'a cio \<Rightarrow> bool" where
  "unbounded m \<longleftrightarrow> (\<forall>w. fuelled (fst (m w)))"

lemma unboundedD: "unbounded m \<Longrightarrow> fuelled (fst (m w))"
  by (simp add: unbounded_def)

named_theorems unbd \<open>functions that never run out of fuel\<close>

lemma unbounded_bind_at:
  assumes "fuelled (fst (m w))" and "\<And>x w'. m w = (Ret x, w') \<Longrightarrow> fuelled (fst (k x w'))"
  shows "fuelled (fst (bindIO m k w))"
  using assms by (cases "m w") (auto simp: bindIO_def split: res.splits)

lemma unbounded_bind [unbd]:
  "unbounded m \<Longrightarrow> (\<And>x. unbounded (k x)) \<Longrightarrow> unbounded (bindIO m k)"
  by (simp add: unbounded_def unbounded_bind_at)

lemma unbounded_pure [unbd]:
  "unbounded (retIO x)" "unbounded (crashIO f)" "unbounded (Pair (Ret x))"
  "unbounded (liftR (sprintf_to n s))"
  by (simp_all add: unbounded_def sprintf_to_def)

lemma unbounded_sys [unbd]:
  "unbounded (sys_read fd n)" "unbounded (sys_write fd mem off n)" "unbounded (sys_open_rd p)"
  "unbounded (sys_creat p)" "unbounded (sys_fstat_size fd)" "unbounded (sys_close fd)"
  "unbounded (sys_opendir p)" "unbounded (sys_printf s)" "unbounded sys_gettimeofday"
  "unbounded (sys_accept fd)" "unbounded sys_fork" "unbounded (sys_malloc_str n)"
  by (simp_all add: unbounded_def sys_read_def sys_write_def sys_open_rd_def sys_creat_def
      sys_fstat_size_def sys_close_def sys_opendir_def sys_printf_def sys_gettimeofday_def
      sys_accept_def sys_fork_def sys_malloc_str_def split: list.split rd.split wr.split option.split)

lemma unbounded_net [unbd]:
  "unbounded sys_socket" "unbounded (sys_bind fd a)" "unbounded (sys_listen fd q)" "unbounded (sys_connect fd a)"
  by (simp_all add: unbounded_def sys_socket_def sys_bind_def sys_listen_def sys_connect_def split: list.split)

section \<open>Delivering bytes to a descriptor\<close>

text \<open>
  \<open>delivers fd s x w m\<close>: run from \<open>w\<close> on a descriptor whose kernel keeps accepting bytes,
  \<open>m\<close> returns \<open>x\<close> and has appended exactly \<open>s\<close> to the descriptor's output, without
  touching its input.
\<close>

definition delivers :: "int \<Rightarrow> string \<Rightarrow> 'a \<Rightarrow> os \<Rightarrow> 'a cio \<Rightarrow> bool" where
  "delivers fd s x w m \<longleftrightarrow>
     (\<forall>N. accepting (wrs w fd) (length s + N) \<longrightarrow>
        (\<exists>w'. m w = (Ret x, w') \<and> outs w' fd = outs w fd @ s \<and> accepting (wrs w' fd) N \<and>
              rds w' fd = rds w fd \<and> evolves w w'))"

lemma deliversI:
  assumes "\<And>N. accepting (wrs w fd) (length s + N) \<Longrightarrow>
     \<exists>w'. m w = (Ret x, w') \<and> outs w' fd = outs w fd @ s \<and> accepting (wrs w' fd) N \<and>
          rds w' fd = rds w fd \<and> evolves w w'"
  shows "delivers fd s x w m"
  using assms by (auto simp: delivers_def)

lemma deliversE:
  assumes "delivers fd s x w m" and "accepting (wrs w fd) (length s + N)"
  obtains w' where "m w = (Ret x, w')" and "outs w' fd = outs w fd @ s"
    and "accepting (wrs w' fd) N" and "rds w' fd = rds w fd" and "evolves w w'"
  using assms by (auto simp: delivers_def)

lemma delivers_ret [simp]: "delivers fd [] x w (retIO x)" "delivers fd [] x w (Pair (Ret x))"
  by (auto intro: deliversI)

lemma delivers_close: "delivers fd [] () w (sys_close f)"
  using keeps_sys_misc(2) [of f] by (auto intro!: deliversI simp: sys_close_def keeps_def)

text \<open>Sequencing: the outputs are concatenated.\<close>

lemma delivers_bind:
  assumes "delivers fd s1 x w m"
    and "\<And>w'. m w = (Ret x, w') \<Longrightarrow> evolves w w' \<Longrightarrow> rds w' fd = rds w fd \<Longrightarrow> delivers fd s2 y w' (k x)"
  shows "delivers fd (s1 @ s2) y w (bindIO m k)"
proof (rule deliversI)
  fix N assume "accepting (wrs w fd) (length (s1 @ s2) + N)"
  then have "accepting (wrs w fd) (length s1 + (length s2 + N))" by (simp add: add.assoc)
  with assms(1) obtain w1 where w1: "m w = (Ret x, w1)" "outs w1 fd = outs w fd @ s1"
    "accepting (wrs w1 fd) (length s2 + N)" "rds w1 fd = rds w fd" "evolves w w1"
    by (rule deliversE)
  with assms(2) have "delivers fd s2 y w1 (k x)" by blast
  then obtain w2 where "k x w1 = (Ret y, w2)" "outs w2 fd = outs w1 fd @ s2"
    "accepting (wrs w2 fd) N" "rds w2 fd = rds w1 fd" "evolves w1 w2"
    using w1(3) by (rule deliversE)
  with w1 show "\<exists>w'. bindIO m k w = (Ret y, w') \<and> outs w' fd = outs w fd @ s1 @ s2 \<and>
      accepting (wrs w' fd) N \<and> rds w' fd = rds w fd \<and> evolves w w'"
    by (auto intro: evolves_trans)
qed

text \<open>A step that only computes or only looks at the state.\<close>

lemma delivers_bind_pure:
  assumes "m w = (Ret x, w)" and "delivers fd s y w (k x)"
  shows "delivers fd s y w (bindIO m k)"
  using assms by (simp add: delivers_def)

lemma delivers_liftR:
  "delivers fd s y w (k x) \<Longrightarrow> delivers fd s y w (bindIO (liftR (Ret x)) k)"
  by (rule delivers_bind_pure) simp_all

lemma evolves_next_fd: "evolves w w' \<Longrightarrow> f < next_fd w \<Longrightarrow> f < next_fd w'"
  by (auto simp: evolves_def)

lemma evolves_env:
  "evolves w w' \<Longrightarrow> files w' = files w" "evolves w w' \<Longrightarrow> creats w' = creats w"
  "evolves w w' \<Longrightarrow> dirs w' = dirs w" "evolves w w' \<Longrightarrow> heap_pre w' = heap_pre w"
  "evolves w w' \<Longrightarrow> heap_junk w' = heap_junk w" "evolves w w' \<Longrightarrow> clock w' = clock w"
  by (simp_all add: evolves_def)

end
