(* ===== verification/Netlib.thy ===== *)
theory Netlib
  imports Evolve
begin

text \<open>
  netlib/tcp.c of FileTransfer_Proyecto: creating, binding, connecting, accepting and
  closing TCP sockets. The copies under file_transfer and tcp_ping differ only in the
  debug level of one message.
\<close>

section \<open>Operations\<close>

definition AF_INET :: nat where
  "AF_INET = 2"

text \<open>
  \<open>bzero(addr, sizeof(addr))\<close> clears as many bytes as a pointer has, eight: the family,
  the port and the address, not the padding \<open>sin_zero\<close>. \<open>a0\<close> is the uninitialised local
  variable of the caller. The result -1 of \<open>inet_pton\<close> is for unknown address families
  only, so the branch at line 65 is never taken.
\<close>

definition bzero8 :: "sockaddr_in \<Rightarrow> sockaddr_in" where
  "bzero8 a = \<lparr>sin_family = 0, sin_port = 0, sin_addr = [0, 0, 0, 0], sin_zero = sin_zero a\<rparr>"

definition buildAddr4 :: "sockaddr_in \<Rightarrow> string \<Rightarrow> u16 \<Rightarrow> bool \<times> sockaddr_in" where
  "buildAddr4 a0 ip port =
     (let a = (bzero8 a0)\<lparr>sin_family := AF_INET\<rparr>
      in case inet_pton4 ip of
           None \<Rightarrow> (False, a)
         | Some os \<Rightarrow> (True, a\<lparr>sin_addr := os, sin_port := htons port\<rparr>))"

definition getNewTCPSocket :: "int cio" where
  "getNewTCPSocket = bindIO sys_socket (\<lambda>s. if s = -1 then retIO (-1) else retIO s)"

definition closeTCPSocket :: "int \<Rightarrow> unit cio" where
  "closeTCPSocket fd = sys_close fd"

text \<open>The C operator \<open>!\<close> on an int, and a comparison as an int.\<close>

definition c_not :: "int \<Rightarrow> int" where
  "c_not x = (if x = 0 then 1 else 0)"

text \<open>
  Line 33 reads \<open>if(!(socketFD = getNewTCPSocket(PF_INET))==-1) return -1;\<close> and compares
  the negation, 0 or 1, with -1.
\<close>

definition newTCPServerSocket4 :: "sockaddr_in \<Rightarrow> string \<Rightarrow> u16 \<Rightarrow> int \<Rightarrow> int cio" where
  "newTCPServerSocket4 a0 ip port q_size =
     (let (ok, addr) = buildAddr4 a0 ip port
      in if \<not> ok then retIO (-1)
         else bindIO getNewTCPSocket (\<lambda>socketFD.
           if c_not socketFD = -1 then retIO (-1)
           else bindIO (sys_bind socketFD addr) (\<lambda>status.
             if status \<noteq> 0 then retIO (-1)
             else bindIO (sys_listen socketFD q_size) (\<lambda>status.
               if status \<noteq> 0 then retIO (-1) else retIO socketFD))))"

definition newTCPClientSocket4 :: "sockaddr_in \<Rightarrow> string \<Rightarrow> u16 \<Rightarrow> int cio" where
  "newTCPClientSocket4 a0 ip port =
     (let (ok, addr) = buildAddr4 a0 ip port
      in if \<not> ok then retIO (-1)
         else bindIO getNewTCPSocket (\<lambda>clientSocket.
           if clientSocket = -1 then retIO (-1)
           else bindIO (sys_connect clientSocket addr) (\<lambda>status.
             if status = -1 then retIO (-1) else retIO clientSocket)))"

text \<open>
  \<open>waitConnection4(socket, clientIP, clientPort)\<close> returns the socket and stores the peer's
  address where the pointers are not NULL (\<open>None\<close>); on an error it stores nothing.
\<close>

definition waitConnection4 ::
  "int \<Rightarrow> string option \<Rightarrow> nat option \<Rightarrow> (int \<times> string option \<times> nat option) cio" where
  "waitConnection4 sock clientIP clientPort =
     bindIO (sys_accept sock) (\<lambda>a.
       case a of
         Acc_Err \<Rightarrow> retIO (-1, clientIP, clientPort)
       | Acc client addr \<Rightarrow>
           if client = -1 then retIO (-1, clientIP, clientPort)
           else retIO (client, map_option (\<lambda>_. inet_ntop4 (sin_addr addr)) clientIP,
                       map_option (\<lambda>_. unat (ntohs (sin_port addr))) clientPort))"

section \<open>Lemmas\<close>

lemma keeps_getNewTCPSocket [evolve]: "keeps evolves getNewTCPSocket"
  unfolding getNewTCPSocket_def by (intro evolve)

lemma keeps_closeTCPSocket [evolve]: "keeps evolves (closeTCPSocket fd)"
  unfolding closeTCPSocket_def by (intro evolve)

lemma keeps_newTCPServerSocket4 [evolve]: "keeps evolves (newTCPServerSocket4 a0 ip port q)"
  unfolding newTCPServerSocket4_def Let_def by (auto split: prod.split intro!: evolve)

lemma keeps_newTCPClientSocket4 [evolve]: "keeps evolves (newTCPClientSocket4 a0 ip port)"
  unfolding newTCPClientSocket4_def Let_def by (auto split: prod.split intro!: evolve)

lemma keeps_waitConnection4 [evolve]: "keeps evolves (waitConnection4 s ip port)"
  unfolding waitConnection4_def by (auto split: acc.split intro!: evolve)

text \<open>The address that is built: complete, and free of the caller's garbage but for padding.\<close>

lemma buildAddr4_ok:
  assumes "length os = 4" and "\<forall>v\<in>set os. v < 256"
  shows "buildAddr4 a0 (inet_ntop4 os) port =
    (True, \<lparr>sin_family = AF_INET, sin_port = htons port, sin_addr = os, sin_zero = sin_zero a0\<rparr>)"
  using assms by (simp add: buildAddr4_def bzero8_def inet_pton4_ntop4)

lemma getNewTCPSocket_run: "socks w = s # ss \<Longrightarrow> getNewTCPSocket w = (Ret s, w\<lparr>socks := ss\<rparr>)"
  by (simp add: getNewTCPSocket_def bindIO_def sys_socket_def)

lemma c_not_range: "c_not x \<noteq> -1"
  by (simp add: c_not_def)

text \<open>The test at line 33 never fires: the run goes on with whatever \<open>socket\<close> returned.\<close>

lemma newTCPServerSocket4_run:
  assumes "buildAddr4 a0 ip port = (True, addr)" and "socks w = s # ss"
  shows "newTCPServerSocket4 a0 ip port q w =
    bindIO (sys_bind s addr) (\<lambda>status.
      if status \<noteq> 0 then retIO (-1)
      else bindIO (sys_listen s q) (\<lambda>status. if status \<noteq> 0 then retIO (-1) else retIO s))
    (w\<lparr>socks := ss\<rparr>)"
  using assms by (simp add: newTCPServerSocket4_def getNewTCPSocket_run c_not_range)

lemma waitConnection4_run:
  "accepts w = [] \<Longrightarrow> waitConnection4 s ip port w = (Blocked, w)"
  "accepts w = a # r \<Longrightarrow> waitConnection4 s ip port w =
     (Ret (case a of
        Acc_Err \<Rightarrow> (-1, ip, port)
      | Acc c addr \<Rightarrow>
          if c = -1 then (-1, ip, port)
          else (c, map_option (\<lambda>_. inet_ntop4 (sin_addr addr)) ip,
                map_option (\<lambda>_. unat (ntohs (sin_port addr))) port)), w\<lparr>accepts := r\<rparr>)"
  by (simp_all add: waitConnection4_def bindIO_def sys_accept_def split: acc.split)

text \<open>The address of a peer, in network order; the padding is the caller's.\<close>

definition net_addr :: "sockaddr_in \<Rightarrow> nat list \<Rightarrow> u16 \<Rightarrow> sockaddr_in" where
  "net_addr a0 os port =
     \<lparr>sin_family = AF_INET, sin_port = htons port, sin_addr = os, sin_zero = sin_zero a0\<rparr>"

text \<open>The states of a client once it is connected and of a server once it listens.\<close>

definition connected :: "os \<Rightarrow> int list \<Rightarrow> int list \<Rightarrow> int \<Rightarrow> sockaddr_in \<Rightarrow> os" where
  "connected w ss cs sock addr =
     w\<lparr>socks := ss, connects := cs, evts := evts w @ [Ev_Connect sock addr]\<rparr>"

lemma connected_sel [simp]:
  "rds (connected w ss cs sock addr) = rds w" "wrs (connected w ss cs sock addr) = wrs w"
  "outs (connected w ss cs sock addr) = outs w" "next_fd (connected w ss cs sock addr) = next_fd w"
  "creats (connected w ss cs sock addr) = creats w" "created (connected w ss cs sock addr) = created w"
  "stdout (connected w ss cs sock addr) = stdout w" "clock (connected w ss cs sock addr) = clock w"
  "ticks (connected w ss cs sock addr) = ticks w"
  by (simp_all add: connected_def)

lemma newTCPClientSocket4_ok:
  assumes "length os = 4" and "\<forall>v\<in>set os. v < 256" and "socks w = sock # ss" and "connects w = 0 # cs"
    and "0 \<le> sock"
  shows "newTCPClientSocket4 a0 (inet_ntop4 os) port w =
    (Ret sock, connected w ss cs sock (net_addr a0 os port))"
  using assms(3-5) buildAddr4_ok [OF assms(1,2), of a0 port]
  by (simp add: newTCPClientSocket4_def getNewTCPSocket_def sys_socket_def sys_connect_def bindIO_def
      net_addr_def connected_def)

definition listening :: "os \<Rightarrow> int list \<Rightarrow> int list \<Rightarrow> int list \<Rightarrow> int \<Rightarrow> sockaddr_in \<Rightarrow> int \<Rightarrow> os" where
  "listening w ss bs ls sock addr q =
     w\<lparr>socks := ss, binds := bs, listens := ls, evts := evts w @ [Ev_Bind sock addr, Ev_Listen sock q]\<rparr>"

lemma listening_sel [simp]:
  "rds (listening w ss bs ls sock addr q) = rds w" "wrs (listening w ss bs ls sock addr q) = wrs w"
  "outs (listening w ss bs ls sock addr q) = outs w" "next_fd (listening w ss bs ls sock addr q) = next_fd w"
  "creats (listening w ss bs ls sock addr q) = creats w"
  "created (listening w ss bs ls sock addr q) = created w"
  "accepts (listening w ss bs ls sock addr q) = accepts w"
  by (simp_all add: listening_def)

lemma newTCPServerSocket4_ok:
  assumes "length os = 4" and "\<forall>v\<in>set os. v < 256" and "socks w = sock # ss" and "binds w = 0 # bs"
    and "listens w = 0 # ls"
  shows "newTCPServerSocket4 a0 (inet_ntop4 os) port q w =
    (Ret sock, listening w ss bs ls sock (net_addr a0 os port) q)"
proof -
  have "newTCPServerSocket4 a0 (inet_ntop4 os) port q w =
    bindIO (sys_bind sock (net_addr a0 os port)) (\<lambda>status.
      if status \<noteq> 0 then retIO (-1)
      else bindIO (sys_listen sock q) (\<lambda>status. if status \<noteq> 0 then retIO (-1) else retIO sock))
    (w\<lparr>socks := ss\<rparr>)"
    unfolding net_addr_def by (rule newTCPServerSocket4_run [OF buildAddr4_ok [OF assms(1,2)] assms(3)])
  then show ?thesis using assms(4,5) by (simp add: bindIO_def sys_bind_def sys_listen_def listening_def)
qed

section \<open>Properties\<close>

text \<open>A server socket is bound to exactly the address asked for and put to listen with
  the queue asked for; it is returned when both calls succeed and -1 otherwise. The
  descriptor is whatever \<open>socket\<close> answered, -1 included: the failure test compares the
  wrong value and the calls go on with the descriptor -1.\<close>

theorem server_socket_calls:
  assumes "length os = 4" and "\<forall>v\<in>set os. v < 256"
    and "socks w = s # ss" and "binds w = b # bs" and "listens w = l # ls"
  shows "\<exists>w'. newTCPServerSocket4 a0 (inet_ntop4 os) port q w =
      (Ret (if b = 0 \<and> l = 0 then s else -1), w') \<and>
      evts w' = evts w @ [Ev_Bind s (net_addr a0 os port)] @ (if b = 0 then [Ev_Listen s q] else [])"
proof -
  have "newTCPServerSocket4 a0 (inet_ntop4 os) port q w =
    bindIO (sys_bind s (net_addr a0 os port)) (\<lambda>status.
      if status \<noteq> 0 then retIO (-1)
      else bindIO (sys_listen s q) (\<lambda>status. if status \<noteq> 0 then retIO (-1) else retIO s))
    (w\<lparr>socks := ss\<rparr>)"
    unfolding net_addr_def by (rule newTCPServerSocket4_run [OF buildAddr4_ok [OF assms(1,2)] assms(3)])
  then show ?thesis using assms(4,5) by (simp add: bindIO_def sys_bind_def sys_listen_def)
qed

lemma server_socket_calls_witness:
  "\<exists>w'. newTCPServerSocket4 \<lparr>sin_family = 9, sin_port = 9, sin_addr = [], sin_zero = ''junk''\<rparr>
       (inet_ntop4 [0, 0, 0, 0]) 7000 5 (idle\<lparr>socks := [-1], binds := [0], listens := [0]\<rparr>) = (Ret (-1), w') \<and>
     evts w' = [Ev_Bind (-1) \<lparr>sin_family = AF_INET, sin_port = htons 7000, sin_addr = [0, 0, 0, 0], sin_zero = ''junk''\<rparr>,
                Ev_Listen (-1) 5]"
  using server_socket_calls [of "[0, 0, 0, 0]" "idle\<lparr>socks := [-1], binds := [0], listens := [0]\<rparr>"
      "-1" "[]" 0 "[]" 0 "[]" "\<lparr>sin_family = 9, sin_port = 9, sin_addr = [], sin_zero = ''junk''\<rparr>" 7000 5]
  by (simp add: net_addr_def)

text \<open>A client socket connects to exactly the address asked for, and no connection is
  attempted when the socket could not be created.\<close>

theorem client_socket_calls:
  assumes "length os = 4" and "\<forall>v\<in>set os. v < 256"
    and "socks w = s # ss" and "connects w = c # cs"
  shows "\<exists>w'. newTCPClientSocket4 a0 (inet_ntop4 os) port w =
      (Ret (if s = -1 \<or> c = -1 then -1 else s), w') \<and>
      evts w' = evts w @ (if s = -1 then [] else [Ev_Connect s (net_addr a0 os port)])"
  using assms(3,4) buildAddr4_ok [OF assms(1,2), of a0 port]
  by (simp add: newTCPClientSocket4_def getNewTCPSocket_def sys_socket_def sys_connect_def bindIO_def net_addr_def)

lemma client_socket_calls_witness:
  "\<exists>w'. newTCPClientSocket4 \<lparr>sin_family = 9, sin_port = 9, sin_addr = [], sin_zero = ''junk''\<rparr>
       (inet_ntop4 [127, 0, 0, 1]) 7000 (idle\<lparr>socks := [4], connects := [0]\<rparr>) = (Ret 4, w') \<and>
     evts w' = [Ev_Connect 4 \<lparr>sin_family = AF_INET, sin_port = htons 7000, sin_addr = [127, 0, 0, 1], sin_zero = ''junk''\<rparr>]"
  using client_socket_calls [of "[127, 0, 0, 1]" "idle\<lparr>socks := [4], connects := [0]\<rparr>"
      4 "[]" 0 "[]" "\<lparr>sin_family = 9, sin_port = 9, sin_addr = [], sin_zero = ''junk''\<rparr>" 7000]
  by (simp add: net_addr_def)

text \<open>The peer's address that an accepted connection reports is the text of the address
  the kernel gave, from which that address is read back, and fits with its NUL in the 16
  bytes the callers provide at least; the port is in host order.\<close>

theorem accepted_peer:
  assumes "accepts w = Acc c addr # r" and "c \<noteq> -1"
    and "length (sin_addr addr) = 4" and "\<forall>v\<in>set (sin_addr addr). v < 256"
  shows "\<exists>ip. waitConnection4 s (Some ip0) (Some p0) w =
      (Ret (c, Some ip, Some (unat (htons (sin_port addr)))), w\<lparr>accepts := r\<rparr>) \<and>
      inet_pton4 ip = Some (sin_addr addr) \<and> length ip + 1 \<le> 16"
  using waitConnection4_run(2) [OF assms(1), of s "Some ip0" "Some p0"] assms(2-4)
  by (simp add: inet_pton4_ntop4 length_inet_ntop4)

lemma accepted_peer_witness:
  "\<exists>ip. waitConnection4 3 (Some []) (Some 0)
      (idle\<lparr>accepts := [Acc 5 \<lparr>sin_family = 2, sin_port = 80, sin_addr = [10, 0, 0, 7], sin_zero = []\<rparr>]\<rparr>) =
      (Ret (5, Some ip, Some (unat (htons 80))), idle\<lparr>accepts := []\<rparr>) \<and>
      inet_pton4 ip = Some [10, 0, 0, 7] \<and> length ip + 1 \<le> 16"
  using accepted_peer [of "idle\<lparr>accepts := [Acc 5 \<lparr>sin_family = 2, sin_port = 80, sin_addr = [10, 0, 0, 7], sin_zero = []\<rparr>]\<rparr>"
      5 "\<lparr>sin_family = 2, sin_port = 80, sin_addr = [10, 0, 0, 7], sin_zero = []\<rparr>" "[]" 3 "[]" 0]
  by simp

end
