(* ===== verification/Causal.thy ===== *)
theory Causal
  imports Evolve
begin

text \<open>
  Causality: a program does not know what it has not read. More input at the end of a
  descriptor's script leaves every run that did not wait for input as it is, with the new
  input unread, and a run that blocked goes on from where it was: what it has sent stays
  sent.
\<close>

section \<open>More input\<close>

definition add_rds :: "int \<Rightarrow> rd list \<Rightarrow> os \<Rightarrow> os" where
  "add_rds fd q w = with_rds fd (rds w fd @ q) w"

lemma add_rds_sel [simp]:
  "rds (add_rds fd q w) = (rds w)(fd := rds w fd @ q)" "outs (add_rds fd q w) = outs w"
  "wrs (add_rds fd q w) = wrs w" "next_fd (add_rds fd q w) = next_fd w"
  "accepts (add_rds fd q w) = accepts w" "heap_pre (add_rds fd q w) = heap_pre w"
  by (simp_all add: add_rds_def)

lemma add_rds_with_rds: "add_rds fd q (with_rds fd p w) = with_rds fd (p @ q) w"
  by (simp add: add_rds_def)

section \<open>Later states\<close>

definition ahead :: "os \<Rightarrow> os \<Rightarrow> bool" where
  "ahead w w' \<longleftrightarrow> next_fd w \<le> next_fd w' \<and> (\<forall>f < next_fd w. prefix (outs w f) (outs w' f))"

lemma ahead_refl [simp]: "ahead w w"
  by (simp add: ahead_def)

lemma ahead_add_rds [simp]: "ahead w (add_rds fd q w)"
  by (simp add: ahead_def)

lemma ahead_trans: "ahead u v \<Longrightarrow> ahead v w \<Longrightarrow> ahead u w"
  unfolding ahead_def by (meson order_trans order_less_le_trans prefix_order.trans)

lemma evolves_ahead: "evolves w w' \<Longrightarrow> ahead w w'"
  by (simp add: evolves_def ahead_def)

lemma ahead_outs: "ahead w w' \<Longrightarrow> f < next_fd w \<Longrightarrow> prefix (outs w f) (outs w' f)"
  by (simp add: ahead_def)

section \<open>Causal programs\<close>

text \<open>
  The descriptor must be open: \<open>open\<close> gives out new descriptors together with their script.
\<close>

definition causal_at :: "int \<Rightarrow> os \<Rightarrow> 'a cio \<Rightarrow> bool" where
  "causal_at fd w m \<longleftrightarrow> (fd < next_fd w \<longrightarrow> (\<forall>q.
     if fst (m w) = Blocked then ahead (snd (m w)) (snd (m (add_rds fd q w)))
     else m (add_rds fd q w) = apsnd (add_rds fd q) (m w)))"

definition causal :: "int \<Rightarrow> 'a cio \<Rightarrow> bool" where
  "causal fd m \<longleftrightarrow> (\<forall>w. causal_at fd w m)"

named_theorems caus \<open>programs that do not look ahead\<close>

lemma causalD: "causal fd m \<Longrightarrow> causal_at fd w m"
  by (simp add: causal_def)

lemma keeps_at: "keeps R m \<Longrightarrow> R w (snd (m w))"
  by (simp add: keeps_def split: prod.splits)

lemma causalI: "(\<And>w. causal_at fd w m) \<Longrightarrow> causal fd m"
  by (simp add: causal_def)

lemma causal_at_cases:
  assumes "causal_at fd w m" and "fd < next_fd w" and "m w = (r, w')"
  shows "r = Blocked \<Longrightarrow> ahead w' (snd (m (add_rds fd q w)))"
    and "r \<noteq> Blocked \<Longrightarrow> m (add_rds fd q w) = (r, add_rds fd q w')"
  using assms by (auto simp: causal_at_def)

lemma causal_atI:
  assumes "\<And>r w' q. fd < next_fd w \<Longrightarrow> m w = (r, w') \<Longrightarrow>
      (r = Blocked \<longrightarrow> ahead w' (snd (m (add_rds fd q w)))) \<and>
      (r \<noteq> Blocked \<longrightarrow> m (add_rds fd q w) = (r, add_rds fd q w'))"
  shows "causal_at fd w m"
  using assms by (cases "m w") (auto simp: causal_at_def)

lemma causal_bind_at:
  assumes "causal_at fd w m" and "evolves w (snd (m w))"
    and "\<And>x w'. m w = (Ret x, w') \<Longrightarrow> causal_at fd w' (k x)"
    and "\<And>x w'. evolves w' (snd (k x w'))"
  shows "causal_at fd w (bindIO m k)"
proof (rule causal_atI)
  fix r w' q assume lt: "fd < next_fd w" and run: "bindIO m k w = (r, w')"
  obtain r1 w1 where m: "m w = (r1, w1)" by fastforce
  note c = causal_at_cases [OF assms(1) lt m, of q]
  show "(r = Blocked \<longrightarrow> ahead w' (snd (bindIO m k (add_rds fd q w)))) \<and>
      (r \<noteq> Blocked \<longrightarrow> bindIO m k (add_rds fd q w) = (r, add_rds fd q w'))"
  proof (cases r1)
    case (Ret x)
    with m run have k: "k x w1 = (r, w')" by simp
    have "fd < next_fd w1" using assms(2) m lt by (auto simp: evolves_def)
    from causal_at_cases [OF assms(3) this k, of q] m Ret c(2) show ?thesis by simp
  next
    case Blocked
    with m run have "r = Blocked" "w' = w1" by simp_all
    moreover obtain r2 w2 where m2: "m (add_rds fd q w) = (r2, w2)" by fastforce
    with c(1) Blocked have "ahead w1 w2" by simp
    moreover have "ahead w2 (snd (bindIO m k (add_rds fd q w)))"
      using m2 evolves_ahead [OF assms(4)] by (cases r2) simp_all
    ultimately show ?thesis by (auto intro: ahead_trans)
  qed (use m run c(2) in simp_all)
qed

lemma causal_bind [caus]:
  assumes "causal fd m" and "keeps evolves m" and "\<And>x. causal fd (k x)" and "\<And>x. keeps evolves (k x)"
  shows "causal fd (bindIO m k)"
proof (rule causalI)
  fix w show "causal_at fd w (bindIO m k)"
    by (rule causal_bind_at) (rule causalD [OF assms(1)] keeps_at [OF assms(2)] causalD [OF assms(3)] keeps_at [OF assms(4)])+
qed

lemma causal_pure [caus]:
  "causal fd (retIO x)" "causal fd (crashIO f)" "causal fd (liftR r)" "causal fd (Pair p)"
  by (auto intro!: causalI causal_atI)

lemma causal_if [caus]:
  "(b \<Longrightarrow> causal fd m) \<Longrightarrow> (\<not> b \<Longrightarrow> causal fd m') \<Longrightarrow> causal fd (if b then m else m')"
  by simp

lemma causal_option [caus]:
  "(x = None \<Longrightarrow> causal fd m) \<Longrightarrow> (\<And>y. x = Some y \<Longrightarrow> causal fd (k y)) \<Longrightarrow>
     causal fd (case x of None \<Rightarrow> m | Some y \<Rightarrow> k y)"
  by (cases x) auto

section \<open>System calls\<close>

lemma causal_sys_read [caus]: "causal fd (sys_read f n)"
proof (intro causalI causal_atI)
  fix w r w' q assume "sys_read f n w = (r, w')"
  then show "(r = Blocked \<longrightarrow> ahead w' (snd (sys_read f n (add_rds fd q w)))) \<and>
      (r \<noteq> Blocked \<longrightarrow> sys_read f n (add_rds fd q w) = (r, add_rds fd q w'))"
  proof (cases "rds w f")
    case Nil
    then have "r = Blocked" "w' = w" using \<open>sys_read f n w = (r, w')\<close> by (simp_all add: sys_read_Nil)
    moreover have "ahead w (snd (sys_read f n (add_rds fd q w)))"
      by (auto simp: sys_read_def ahead_def split: list.split rd.split)
    ultimately show ?thesis by simp
  next
    case (Cons a rest)
    with \<open>sys_read f n w = (r, w')\<close> show ?thesis
      by (cases a) (auto simp: sys_read_def add_rds_def with_rds_def fun_upd_twist split: if_splits)
  qed
qed

lemma causal_sys_open_rd [caus]: "causal fd (sys_open_rd p)"
  by (intro causalI causal_atI)
    (auto simp: sys_open_rd_def add_rds_def with_rds_def fun_upd_twist split: option.splits)

text \<open>The others do not look at the scripts of reads at all.\<close>

lemma causal_blind:
  assumes "\<And>w q. m (with_rds fd q w) = apsnd (with_rds fd q) (m w)" and "\<And>w. rds (snd (m w)) fd = rds w fd"
  shows "causal fd m"
proof (intro causalI causal_atI)
  fix w r w' q assume run: "m w = (r, w')"
  then have "m (add_rds fd q w) = (r, add_rds fd q w')"
    using assms(1) [of "rds w fd @ q" w] assms(2) [of w] by (simp add: add_rds_def)
  then show "(r = Blocked \<longrightarrow> ahead w' (snd (m (add_rds fd q w)))) \<and>
      (r \<noteq> Blocked \<longrightarrow> m (add_rds fd q w) = (r, add_rds fd q w'))"
    by (simp add: ahead_def)
qed

lemma causal_sys_write [caus]: "causal fd (sys_write f mem off n)"
  by (rule causal_blind) (auto simp: sys_write_def with_rds_def split: list.split wr.split)

lemma causal_sys_creat [caus]: "causal fd (sys_creat p)"
  by (rule causal_blind) (auto simp: sys_creat_def with_rds_def split: option.split)

lemma causal_sys_misc [caus]:
  "causal fd (sys_fstat_size f)" "causal fd (sys_close f)" "causal fd (sys_opendir p)"
  "causal fd sys_gettimeofday" "causal fd (sys_printf s)" "causal fd (sys_malloc_str n)"
  by (rule causal_blind; simp add: sys_fstat_size_def sys_close_def sys_opendir_def
      sys_gettimeofday_def sys_printf_def sys_malloc_str_def with_rds_def)+

lemma causal_sys_net [caus]:
  "causal fd sys_socket" "causal fd (sys_bind f a)" "causal fd (sys_listen f n)"
  "causal fd (sys_connect f a)" "causal fd (sys_accept f)" "causal fd sys_fork"
  by (rule causal_blind; auto simp: sys_socket_def sys_bind_def sys_listen_def
      sys_connect_def sys_accept_def sys_fork_def with_rds_def split: list.split)+

text \<open>What a causal program sends only grows with its input.\<close>

lemma causal_outs:
  assumes "causal fd m" and "keeps evolves m" and "fd < next_fd w" and "f < next_fd w"
  shows "prefix (outs (snd (m w)) f) (outs (snd (m (add_rds fd q w))) f)"
proof -
  obtain r w' where m: "m w = (r, w')" by fastforce
  have "f < next_fd w'" using keepsD [OF assms(2) m] assms(4) by (auto simp: evolves_def)
  with causal_at_cases [OF causalD [OF assms(1)] assms(3) m, of q] m show ?thesis
    by (cases "r = Blocked") (auto intro: ahead_outs)
qed

end
