(* ===== verification/Frame.thy ===== *)
theory Frame
  imports Causal
begin

text \<open>
  The framing of the file transfer protocol: a message is a sequence of lines, each ended
  by CR LF, closed by an empty line. Three loops of the program read such a message byte
  by byte up to CR LF CR LF (server.c 93-101, client.c 66-74 and 103-111); they share
  their body, \<open>append_check\<close>, and the contract \<open>frame_reader\<close>.
\<close>

section \<open>The body of the loops\<close>

text \<open>
  \<open>ptr = s + (strlen(s) - 4); strcmp(ptr, "\r\n\r\n") == 0\<close>. For a string of fewer than
  four characters the pointer lies before the block: the source then reads up to four bytes
  outside its block. This is the one read outside an object that the model does not turn into a
  fault: every run of the programs makes it, on the first byte of each message, so the state says
  what those bytes are (\<open>heap_pre\<close>) and they take part in the comparison. \<open>harmless_heap\<close>
  below is the exact condition under which nothing worse follows from it.
\<close>

definition tail4 :: "(nat \<Rightarrow> char) \<Rightarrow> string \<Rightarrow> string" where
  "tail4 pre s = drop (length s) ([pre 3, pre 2, pre 1, pre 0] @ s)"

definition ends_frame :: "(nat \<Rightarrow> char) \<Rightarrow> string \<Rightarrow> bool" where
  "ends_frame pre s \<longleftrightarrow> c_string (tail4 pre s) = crlf2"

text \<open>Append the bytes read, test for the end of the message, cut it off.\<close>

definition append_check :: "cbuf \<Rightarrow> string \<Rightarrow> (bool \<times> cbuf) cio" where
  "append_check b bs w =
     bindIO (liftR (realloc_buf b (length (chars b) + length bs + 1))) (\<lambda>b1.
     bindIO (liftR (strncat_buf b1 bs (length bs))) (\<lambda>b2.
       if ends_frame (heap_pre w (cap b2)) (chars b2) then
         if length (chars b2) < 4 then crashIO Out_Of_Bounds
         else retIO (True, b2\<lparr>chars := take (length (chars b2) - 4) (chars b2), slack := [LF, CR, LF]\<rparr>)
       else retIO (False, b2))) w"

section \<open>Messages as lines\<close>

definition frame_of :: "string list \<Rightarrow> string" where
  "frame_of ls = concat (map (\<lambda>l. l @ crlf) ls) @ crlf"

fun body_of :: "string list \<Rightarrow> string" where
  "body_of [] = []"
| "body_of [l] = l"
| "body_of (l # ls) = l @ crlf @ body_of ls"

definition line_ok :: "string \<Rightarrow> bool" where
  "line_ok l \<longleftrightarrow> l \<noteq> [] \<and> LF \<notin> set l \<and> NUL \<notin> set l"

definition lines_ok :: "string list \<Rightarrow> bool" where
  "lines_ok ls \<longleftrightarrow> ls \<noteq> [] \<and> list_all line_ok ls"

lemma lines_ok_Cons: "lines_ok (l # ls) \<longleftrightarrow> line_ok l \<and> (ls = [] \<or> lines_ok ls)"
  by (auto simp: lines_ok_def)

lemma body_of_crlf: "ls \<noteq> [] \<Longrightarrow> body_of ls @ crlf = concat (map (\<lambda>l. l @ crlf) ls)"
  by (induction ls rule: body_of.induct) auto

text \<open>
  The byte before a heap block is NUL: the top byte of the size word that the allocator of
  glibc stores there.
\<close>

definition quiet_heap :: "os \<Rightarrow> bool" where
  "quiet_heap w \<longleftrightarrow> (\<forall>n. heap_pre w n 0 = NUL)"

lemma quiet_heap_with_rds [simp]: "quiet_heap (with_rds fd q w) = quiet_heap w"
  by (simp add: quiet_heap_def)

lemma length_tail4: "length (tail4 pre s) = 4"
  by (simp add: tail4_def)

lemma ends_frame_iff: "ends_frame pre s \<longleftrightarrow> tail4 pre s = crlf2"
  by (simp add: ends_frame_def c_string_crlf2 length_tail4)

lemma suffix_crlf2_iff: "suffix crlf2 s \<longleftrightarrow> 4 \<le> length s \<and> drop (length s - 4) s = crlf2"
proof
  assume "suffix crlf2 s"
  then show "4 \<le> length s \<and> drop (length s - 4) s = crlf2"
    by (auto simp: suffix_def)
next
  assume "4 \<le> length s \<and> drop (length s - 4) s = crlf2"
  then show "suffix crlf2 s" by (metis suffix_drop)
qed

lemma ends_frame_quiet:
  assumes "pre 0 = NUL"
  shows "ends_frame pre s \<longleftrightarrow> suffix crlf2 s"
proof (cases "4 \<le> length s")
  case True
  have "tail4 pre s = drop (length s) [pre 3, pre 2, pre 1, pre 0] @ drop (length s - 4) s"
    by (simp only: tail4_def drop_append) (simp add: numeral_eq_Suc)
  with True have "tail4 pre s = drop (length s - 4) s" by simp
  with True show ?thesis by (simp add: ends_frame_iff suffix_crlf2_iff)
next
  case False
  then have "tail4 pre s ! (3 - length s) = NUL" and "3 - length s < 4"
    using assms by (auto simp: tail4_def nth_append nth_Cons')
  moreover have "crlf2 ! i \<noteq> NUL" if "i < 4" for i
    using that by (auto simp: nth_Cons' less_Suc_eq numeral_eq_Suc)
  ultimately have "tail4 pre s \<noteq> crlf2" by metis
  with False show ?thesis by (simp add: ends_frame_iff suffix_crlf2_iff)
qed

section \<open>The bytes before the block\<close>

text \<open>The bytes before a block and a string of \<open>m\<close> characters in it make up the terminator together.\<close>

definition completes_end :: "(nat \<Rightarrow> char) \<Rightarrow> nat \<Rightarrow> bool" where
  "completes_end pre m \<longleftrightarrow> drop m [pre 3, pre 2, pre 1, pre 0] = take (4 - m) crlf2"

text \<open>
  When the string has \<open>m\<close> characters its block has \<open>m + 1\<close> bytes after a character was appended
  and \<open>m + 2\<close> after a NUL was read, which appends nothing. In no such block the bytes
  before it complete the terminator.
\<close>

definition harmless_heap :: "os \<Rightarrow> bool" where
  "harmless_heap w \<longleftrightarrow> (\<forall>m<4. (0 < m \<longrightarrow> \<not> completes_end (heap_pre w (m + 1)) m) \<and>
     \<not> completes_end (heap_pre w (m + 2)) m)"

lemma ends_frame_short:
  assumes "length s < 4"
  shows "ends_frame pre s \<longleftrightarrow> completes_end pre (length s) \<and> s = drop (4 - length s) crlf2"
proof -
  let ?a = "drop (length s) [pre 3, pre 2, pre 1, pre 0]" and ?t = "take (4 - length s) crlf2" and ?d = "drop (4 - length s) crlf2"
  have "tail4 pre s = ?a @ s"
    unfolding tail4_def using assms by (subst drop_append) (simp only: list.size, simp)
  moreover have "?a @ s = ?t @ ?d \<longleftrightarrow> ?a = ?t \<and> s = ?d"
    using assms by (intro append_eq_append_conv) simp
  ultimately show ?thesis by (simp only: ends_frame_iff completes_end_def append_take_drop_id)
qed

lemma quiet_heap_harmless: "quiet_heap w \<Longrightarrow> harmless_heap w"
proof -
  assume "quiet_heap w"
  then have "\<not> completes_end (heap_pre w n) m" if "m < 4" for n m
  proof -
    have "last (drop m [heap_pre w n 3, heap_pre w n 2, heap_pre w n 1, heap_pre w n 0]) = NUL"
      using that \<open>quiet_heap w\<close> by (simp add: last_drop quiet_heap_def)
    moreover have "last (take (4 - m) crlf2) \<noteq> NUL"
      using that by (auto simp: less_Suc_eq numeral_eq_Suc)
    ultimately show ?thesis unfolding completes_end_def by metis
  qed
  then show "harmless_heap w" by (simp add: harmless_heap_def)
qed

section \<open>One round\<close>

text \<open>The buffer always has room: \<open>realloc\<close> makes it one byte larger than the string.\<close>

lemma append_check_run:
  "append_check b bs w =
     (let s = chars b @ c_string bs; n = length (chars b) + length bs + 1
      in if ends_frame (heap_pre w n) s then
           if length s < 4 then (Crash Out_Of_Bounds, w)
           else (Ret (True, \<lparr>cap = n, chars = take (length s - 4) s, slack = [LF, CR, LF]\<rparr>), w)
         else (Ret (False, \<lparr>cap = n, chars = s, slack = []\<rparr>), w))"
proof -
  have "length (c_string bs) \<le> length bs"
    by (simp add: c_string_def length_takeWhile_le)
  then show ?thesis
    by (cases b) (simp add: append_check_def realloc_buf_def strncat_buf_def Let_def)
qed

lemma append_check_state: "append_check b bs w = (r, w') \<Longrightarrow> w' = w"
  by (auto simp: append_check_run Let_def split: if_splits)

lemma keeps_append_check [evolve]: "keeps evolves (append_check b bs)"
  by (rule keepsI) (metis append_check_state evolves_refl prod.collapse)

lemma causal_append_check [caus]: "causal g (append_check b bs)"
  by (rule causal_blind) (simp_all add: append_check_run Let_def with_rds_def)

lemma append_check_quiet:
  assumes "quiet_heap w"
  shows "append_check b bs w =
     (let s = chars b @ c_string bs; n = length (chars b) + length bs + 1
      in if suffix crlf2 s then (Ret (True, \<lparr>cap = n, chars = take (length s - 4) s, slack = [LF, CR, LF]\<rparr>), w)
         else (Ret (False, \<lparr>cap = n, chars = s, slack = []\<rparr>), w))"
proof -
  have "ends_frame (heap_pre w n) s \<longleftrightarrow> suffix crlf2 s" for n s
    using assms by (simp add: quiet_heap_def ends_frame_quiet)
  then show ?thesis
    by (auto simp: append_check_run Let_def suffix_crlf2_iff)
qed

lemma append_check_wf:
  assumes "append_check b bs w = (Ret (stop, b'), w')" and "wf_cbuf b"
  shows "wf_cbuf b'"
proof -
  have "length (c_string bs) \<le> length bs" by (simp add: c_string_def length_takeWhile_le)
  with assms no_NUL_c_string [of bs] show ?thesis
    by (auto simp: append_check_run Let_def wf_cbuf_def dest: in_set_takeD split: if_splits)
qed

text \<open>The terminator is found in a string of fewer than four characters only where the bytes before
  the block make it up; it is then cut off at a place before the block.\<close>

lemma append_check_harmless:
  assumes "harmless_heap w" and "length bs = 1"
  shows "\<exists>p. append_check b bs w = (Ret p, w)"
proof -
  let ?s = "chars b @ c_string bs" and ?n = "length (chars b) + length bs + 1"
  have "\<not> ends_frame (heap_pre w ?n) ?s" if m: "length ?s < 4"
  proof -
    obtain c where bs: "bs = [c]" using assms(2) by (metis One_nat_def length_0_conv length_Suc_conv)
    show ?thesis
    proof (cases "c = NUL")
      case True
      with bs have "c_string bs = []" by (simp add: c_string_def)
      with assms m bs show ?thesis by (simp add: ends_frame_short harmless_heap_def)
    next
      case False
      with bs have "c_string bs = [c]" by (simp add: c_string_def)
      moreover have "\<not> completes_end (heap_pre w (Suc (length (chars b)) + 1)) (Suc (length (chars b)))"
        using assms(1) m \<open>c_string bs = [c]\<close> unfolding harmless_heap_def
        by (elim allE [of _ "Suc (length (chars b))"]) simp
      ultimately show ?thesis using m bs by (simp add: ends_frame_short)
    qed
  qed
  then show ?thesis by (auto simp: append_check_run Let_def)
qed

lemma append_check_char:
  assumes "quiet_heap w" and "c \<noteq> NUL"
  shows "append_check b [c] w =
     (if suffix crlf2 (chars b @ [c])
      then (Ret (True, \<lparr>cap = length (chars b) + 2, chars = take (length (chars b) - 3) (chars b), slack = [LF, CR, LF]\<rparr>), w)
      else (Ret (False, \<lparr>cap = length (chars b) + 2, chars = chars b @ [c], slack = []\<rparr>), w))"
proof -
  have "c_string [c] = [c]" using assms(2) by (simp add: c_string_def)
  then show ?thesis
    using append_check_quiet [OF assms(1), of b "[c]"] by (auto simp: Let_def)
qed

section \<open>The contract of the loops\<close>

locale frame_reader =
  fixes rl :: "int \<Rightarrow> cbuf \<Rightarrow> cbuf cio"
  assumes rl_round:
    "rl fd b w =
       bindIO (sys_read fd 1) (\<lambda>r.
         case r of
           None \<Rightarrow> retIO b
         | Some bs \<Rightarrow>
             if bs = [] then retIO b
             else bindIO (append_check b bs) (\<lambda>p.
                    if fst p then retIO (snd p) else rl fd (snd p))) w"
begin

text \<open>Only the input of the descriptor changes, and a return has consumed an answer.\<close>

lemma rl_state:
  "\<exists>q. snd (rl fd b w) = with_rds fd q w \<and> rd_size q \<le> rd_size (rds w fd) \<and>
       (\<forall>b'. fst (rl fd b w) = Ret b' \<longrightarrow> rd_size q < rd_size (rds w fd))"
proof (induction "rd_size (rds w fd)" arbitrary: b w rule: less_induct)
  case less
  show ?case
  proof (cases "rds w fd = []")
    case True
    then have "rl fd b w = (Blocked, w)" by (subst rl_round) (simp add: sys_read_Nil)
    then show ?thesis by (intro exI [of _ "rds w fd"]) simp
  next
    case False
    then obtain x q1 where rd: "sys_read fd 1 w = (Ret x, with_rds fd q1 w)"
      and lt: "rd_size q1 < rd_size (rds w fd)"
      using sys_read_Ret [of w fd 1] by (metis zero_less_one)
    show ?thesis
    proof (cases "x = None \<or> x = Some []")
      case True
      with rd have "rl fd b w = (Ret b, with_rds fd q1 w)" by (subst rl_round) auto
      with lt show ?thesis by (intro exI [of _ q1]) simp
    next
      case False
      then obtain bs where x: "x = Some bs" "bs \<noteq> []" by (cases x) auto
      let ?w = "with_rds fd q1 w"
      obtain r2 where ac: "append_check b bs ?w = (r2, ?w)"
        using append_check_state by (metis surj_pair)
      have run: "rl fd b w = bindIO (append_check b bs) (\<lambda>p.
                    if fst p then retIO (snd p) else rl fd (snd p)) ?w"
        using rd x by (subst rl_round) simp
      show ?thesis
      proof (cases "\<exists>p. r2 = Ret p \<and> \<not> fst p")
        case True
        then obtain p where "r2 = Ret p" "\<not> fst p" by blast
        with run ac have eq: "rl fd b w = rl fd (snd p) ?w" by simp
        have "rd_size (rds ?w fd) < rd_size (rds w fd)" using lt by simp
        from less.hyps [OF this, of "snd p"] obtain q where
          "snd (rl fd (snd p) ?w) = with_rds fd q ?w" "rd_size q \<le> rd_size q1" by auto
        with eq lt show ?thesis by (intro exI [of _ q]) simp
      next
        case False
        then have "snd (rl fd b w) = ?w"
          using run ac by (cases r2) auto
        with lt show ?thesis by (intro exI [of _ q1]) simp
      qed
    qed
  qed
qed

lemma keeps_rl [evolve]: "keeps evolves (rl fd b)"
proof (rule keepsI)
  fix w
  from rl_state [of fd b w] obtain q where
    "snd (rl fd b w) = with_rds fd q w" "rd_size q \<le> rd_size (rds w fd)" by blast
  then show "evolves w (snd (rl fd b w))" by (auto simp: evolves_def)
qed

lemma causal_rl [caus]: "causal g (rl fd b)"
proof (rule causalI)
  have eq: "rl fd b = bindIO (sys_read fd 1) (\<lambda>r.
      case r of None \<Rightarrow> retIO b
      | Some bs \<Rightarrow> if bs = [] then retIO b
          else bindIO (append_check b bs) (\<lambda>p. if fst p then retIO (snd p) else rl fd (snd p)))" for b
    by (rule ext) (rule rl_round)
  fix w show "causal_at g w (rl fd b)"
  proof (induction "rd_size (rds w fd)" arbitrary: b w rule: less_induct)
    case less
    have "causal_at g w1 (bindIO (append_check b bs) (\<lambda>p. if fst p then retIO (snd p) else rl fd (snd p)))"
      if rd: "sys_read fd 1 w = (Ret (Some bs), w1)" for bs w1
    proof (intro causal_bind_at)
      fix p w2 assume "append_check b bs w1 = (Ret p, w2)"
      then have "w2 = w1" by (rule append_check_state)
      with less [of w1 "snd p"] sys_read_decreases [OF rd]
      show "causal_at g w2 (if fst p then retIO (snd p) else rl fd (snd p))"
        by (auto intro: causalD caus)
    qed (auto intro: causalD keeps_at evolve causal_append_check keeps_append_check)
    moreover have "evolves w1 (snd ((case r of None \<Rightarrow> retIO b
      | Some bs \<Rightarrow> if bs = [] then retIO b
          else bindIO (append_check b bs) (\<lambda>p. if fst p then retIO (snd p) else rl fd (snd p))) w1))" for r w1
      by (rule keeps_at) (auto split: option.split intro!: evolve)
    ultimately show ?case
      by (subst eq, intro causal_bind_at) (auto intro: causalD caus keeps_at evolve split: option.split)
  qed
qed

text \<open>On a harmless heap no string operation of the loop faults, on any input whatever.\<close>

lemma rl_safe:
  assumes "harmless_heap w" and "wf_cbuf b"
  shows "fst (rl fd b w) = Blocked \<or> (\<exists>b'. fst (rl fd b w) = Ret b' \<and> wf_cbuf b')"
  using assms
proof (induction "rd_size (rds w fd)" arbitrary: b w rule: less_induct)
  case less
  show ?case
  proof (cases "rds w fd")
    case Nil
    then show ?thesis by (subst rl_round) (simp add: sys_read_def)
  next
    case (Cons a r)
    then have "\<exists>x w1. sys_read fd 1 w = (Ret x, w1)"
      by (auto simp: sys_read_def split: rd.split)
    then obtain x w1 where rd: "sys_read fd 1 w = (Ret x, w1)" by blast
    then have lt: "rd_size (rds w1 fd) < rd_size (rds w fd)"
      using sys_read_decreases [of fd 1 w x w1] by simp
    have q: "harmless_heap w1"
      using rd less.prems(1)
      by (auto simp: harmless_heap_def sys_read_def split: list.splits rd.splits if_splits)
    show ?thesis
    proof (cases "x = None \<or> x = Some []")
      case True
      with rd have "rl fd b w = (Ret b, w1)" by (subst rl_round) auto
      with less.prems(2) show ?thesis by simp
    next
      case False
      then obtain bs where x: "x = Some bs" "bs \<noteq> []" by (cases x) auto
      with rd have "length bs = 1"
        by (auto simp: sys_read_def min_def le_Suc_eq Suc_le_eq split: list.splits rd.splits if_splits)
      then obtain stop b' where ac: "append_check b bs w1 = (Ret (stop, b'), w1)"
        using append_check_harmless [OF q, of bs b] by auto
      have "rl fd b w = (if stop then (Ret b', w1) else rl fd b' w1)"
        using rd x ac by (subst rl_round) simp
      moreover have "wf_cbuf b'" using ac less.prems(2) by (rule append_check_wf)
      ultimately show ?thesis using less.hyps [OF lt q, of b'] by simp
    qed
  qed
qed

text \<open>On any other heap some input makes it fault: the bytes that are missing from the terminator.\<close>

lemma rl_short:
  assumes "rds w fd = Rd_Data [c] # q" and "length (chars b @ c_string [c]) < 4"
  shows "rl fd b w =
     (if ends_frame (heap_pre w (length (chars b) + 2)) (chars b @ c_string [c])
      then (Crash Out_Of_Bounds, with_rds fd q w)
      else rl fd \<lparr>cap = length (chars b) + 2, chars = chars b @ c_string [c], slack = []\<rparr> (with_rds fd q w))"
proof -
  have "sys_read fd 1 w = (Ret (Some [c]), with_rds fd q w)" using assms(1) by (simp add: sys_read_def with_rds_def)
  then have "rl fd b w = bindIO (append_check b [c]) (\<lambda>p. if fst p then retIO (snd p) else rl fd (snd p)) (with_rds fd q w)"
    by (subst rl_round) simp
  with assms(2) show ?thesis by (simp add: append_check_run)
qed

lemma rl_feed:
  assumes "NUL \<notin> set s" and "length (chars b @ s) < 4" and "rds w fd = map (\<lambda>c. Rd_Data [c]) s @ q"
  shows "(\<exists>v. rl fd b w = (Crash Out_Of_Bounds, v)) \<or>
    (\<exists>n t. rl fd b w = rl fd \<lparr>cap = n, chars = chars b @ s, slack = t\<rparr> (with_rds fd q w))"
  using assms
proof (induction s arbitrary: b w)
  case Nil
  then show ?case by (cases b) auto
next
  case (Cons c s)
  have c: "c_string [c] = [c]" using Cons.prems(1) by (auto simp: c_string_def)
  let ?b = "\<lparr>cap = length (chars b) + 2, chars = chars b @ [c], slack = []\<rparr>" and ?w = "with_rds fd (map (\<lambda>c. Rd_Data [c]) s @ q) w"
  have step: "rl fd b w = (Crash Out_Of_Bounds, ?w) \<or> rl fd b w = rl fd ?b ?w"
    using rl_short [of w fd c "map (\<lambda>c. Rd_Data [c]) s @ q" b] Cons.prems c by (auto split: if_splits)
  have "(\<exists>v. rl fd ?b ?w = (Crash Out_Of_Bounds, v)) \<or>
    (\<exists>n t. rl fd ?b ?w = rl fd \<lparr>cap = n, chars = chars ?b @ s, slack = t\<rparr> (with_rds fd q ?w))"
    by (rule Cons.IH) (use Cons.prems in simp_all)
  then have rest: "(\<exists>v. rl fd ?b ?w = (Crash Out_Of_Bounds, v)) \<or>
    (\<exists>n t. rl fd ?b ?w = rl fd \<lparr>cap = n, chars = chars b @ c # s, slack = t\<rparr> (with_rds fd q w))" by simp
  from step show ?case
  proof
    assume "rl fd b w = rl fd ?b ?w"
    with rest show ?thesis by (simp only:)
  qed blast
qed

lemma rl_hit:
  assumes "NUL \<notin> set s" and "length (s @ c_string [c]) < 4" and "chars b = []"
    and "ends_frame (heap_pre w (length s + 2)) (s @ c_string [c])"
  shows "\<exists>q v. rl fd b (with_rds fd q w) = (Crash Out_Of_Bounds, v)"
proof -
  let ?w = "with_rds fd (map (\<lambda>c. Rd_Data [c]) s @ [Rd_Data [c]]) w"
  have "(\<exists>v. rl fd b ?w = (Crash Out_Of_Bounds, v)) \<or>
    (\<exists>n t. rl fd b ?w = rl fd \<lparr>cap = n, chars = chars b @ s, slack = t\<rparr> (with_rds fd [Rd_Data [c]] ?w))"
    by (rule rl_feed) (use assms in simp_all)
  moreover have "rl fd \<lparr>cap = n, chars = s, slack = t\<rparr> (with_rds fd [Rd_Data [c]] w) =
      (Crash Out_Of_Bounds, with_rds fd [] w)" for n t
    using rl_short [of "with_rds fd [Rd_Data [c]] w" fd c "[]" "\<lparr>cap = n, chars = s, slack = t\<rparr>"] assms(2,4) by simp
  ultimately show ?thesis using assms(3) by auto
qed

lemma rl_fault:
  assumes "\<not> harmless_heap w" and "chars b = []"
  shows "\<exists>q v. rl fd b (with_rds fd q w) = (Crash Out_Of_Bounds, v)"
proof -
  obtain m where m: "m < 4" "0 < m \<and> completes_end (heap_pre w (m + 1)) m \<or> completes_end (heap_pre w (m + 2)) m"
    using assms(1) by (auto simp: harmless_heap_def)
  let ?s = "drop (4 - m) crlf2"
  have len: "length ?s = m" and nul: "NUL \<notin> set ?s"
    using m(1) by (auto dest: in_set_dropD)
  have ends: "ends_frame pre ?s \<longleftrightarrow> completes_end pre m" for pre
    using ends_frame_short [of ?s pre] len m(1) by simp
  show ?thesis
  proof (cases "completes_end (heap_pre w (m + 2)) m")
    case True
    have "c_string [NUL] = []" by (simp add: c_string_def)
    with True ends len nul m(1) assms(2) show ?thesis by (intro rl_hit [of ?s NUL]) simp_all
  next
    case False
    with m(2) have h: "0 < m" "completes_end (heap_pre w (m + 1)) m" by simp_all
    with len obtain t c where s: "?s = t @ [c]" by (metis length_greater_0_conv rev_exhaust)
    have c: "c_string [c] = [c]" using nul s by (auto simp: c_string_def)
    have lt: "length t + 1 = m" using len s by simp
    with c s ends [of "heap_pre w (m + 1)"] h(2) nul m(1) assms(2) show ?thesis
      by (intro rl_hit [of t c]) auto
  qed
qed

text \<open>One byte of a stream in good order.\<close>

lemma rl_byte:
  assumes "quiet_heap w" and "rds w fd = r @ q" and "flowing r" and "stream r = c # s"
    and "c \<noteq> NUL"
  obtains r' where "flowing r'" and "stream r' = s"
    and "suffix crlf2 (chars b @ [c]) \<Longrightarrow>
      rl fd b w = (Ret \<lparr>cap = length (chars b) + 2, chars = take (length (chars b) - 3) (chars b), slack = [LF, CR, LF]\<rparr>,
                   with_rds fd (r' @ q) w)"
    and "\<not> suffix crlf2 (chars b @ [c]) \<Longrightarrow>
      rl fd b w = rl fd \<lparr>cap = length (chars b) + 2, chars = chars b @ [c], slack = []\<rparr>
                   (with_rds fd (r' @ q) w)"
proof -
  from assms(3,4) have "r \<noteq> []" by auto
  then obtain bs r' where rd: "sys_read fd 1 w = (Ret (Some bs), with_rds fd (r' @ q) w)"
    and fl: "flowing r'" and st: "stream r = bs @ stream r'" and bs: "bs \<noteq> []" "length bs \<le> 1"
    using sys_read_flowing [OF assms(2,3), of 1] by (metis One_nat_def zero_less_Suc)
  from st bs assms(4) have c: "bs = [c]" and s: "stream r' = s" by (cases bs; auto)+
  let ?w = "with_rds fd (r' @ q) w"
  have run: "rl fd b w = bindIO (append_check b [c]) (\<lambda>p.
                    if fst p then retIO (snd p) else rl fd (snd p)) ?w"
    using rd c by (subst rl_round) simp
  have ac: "quiet_heap ?w" using assms(1) by (simp add: quiet_heap_def)
  note ac = append_check_char [OF this assms(5), of b]
  show ?thesis
  proof (rule that [OF fl s])
    assume "suffix crlf2 (chars b @ [c])"
    with run ac show "rl fd b w = (Ret \<lparr>cap = length (chars b) + 2,
        chars = take (length (chars b) - 3) (chars b), slack = [LF, CR, LF]\<rparr>, ?w)"
      by (simp only: if_True) simp
  next
    assume "\<not> suffix crlf2 (chars b @ [c])"
    with run ac show "rl fd b w = rl fd \<lparr>cap = length (chars b) + 2, chars = chars b @ [c], slack = []\<rparr> ?w"
      by (simp only: if_False) simp
  qed
qed

text \<open>Bytes that complete no end of message are appended and the loop goes on.\<close>

lemma rl_bytes:
  assumes "quiet_heap w" and "rds w fd = r @ q" and "flowing r" and "stream r = s @ t"
    and "NUL \<notin> set s" and "\<forall>p. prefix p s \<and> p \<noteq> [] \<longrightarrow> \<not> suffix crlf2 (chars b @ p)"
  shows "\<exists>r' n. flowing r' \<and> stream r' = t \<and>
           (s \<noteq> [] \<longrightarrow> rl fd b w = rl fd \<lparr>cap = n, chars = chars b @ s, slack = []\<rparr> (with_rds fd (r' @ q) w))"
  using assms
proof (induction s arbitrary: b w r)
  case Nil
  then show ?case by auto
next
  case (Cons c s)
  from Cons.prems(4) have st: "stream r = c # (s @ t)" by simp
  from Cons.prems(5) have c: "c \<noteq> NUL" and s: "NUL \<notin> set s" by auto
  have no: "\<not> suffix crlf2 (chars b @ [c])"
    using Cons.prems(6) [rule_format, of "[c]"] by simp
  from rl_byte [OF Cons.prems(1-3) st c, of b] no
  obtain r1 where r1: "flowing r1" "stream r1 = s @ t" and
    run: "rl fd b w = rl fd \<lparr>cap = length (chars b) + 2, chars = chars b @ [c], slack = []\<rparr>
            (with_rds fd (r1 @ q) w)"
    by blast
  let ?b = "\<lparr>cap = length (chars b) + 2, chars = chars b @ [c], slack = []\<rparr>"
  let ?w = "with_rds fd (r1 @ q) w"
  have "\<forall>p. prefix p s \<and> p \<noteq> [] \<longrightarrow> \<not> suffix crlf2 (chars ?b @ p)"
    using Cons.prems(6) by (metis Cons_prefix_Cons append.assoc append_Cons append_Nil
        cbuf.select_convs list.distinct(1))
  moreover have "quiet_heap ?w" using Cons.prems(1) by (simp add: quiet_heap_def)
  ultimately obtain r' n where "flowing r'" "stream r' = t" and
    "s \<noteq> [] \<longrightarrow> rl fd ?b ?w = rl fd \<lparr>cap = n, chars = chars ?b @ s, slack = []\<rparr> (with_rds fd (r' @ q) ?w)"
    using Cons.IH [of ?w r1 ?b] r1 s by auto
  then show ?case
    using run r1 by (cases "s = []") auto
qed

text \<open>End of file or an error ends the loop with what has arrived so far.\<close>

lemma rl_end:
  "rds w fd = Rd_Data [] # q \<Longrightarrow> rl fd b w = (Ret b, with_rds fd q w)"
  "rds w fd = Rd_Err # q \<Longrightarrow> rl fd b w = (Ret b, with_rds fd q w)"
  by (subst rl_round, simp add: sys_read_def with_rds_def)+

lemma rl_blocked: "rds w fd = [] \<Longrightarrow> rl fd b w = (Blocked, w)"
  by (subst rl_round) (simp add: sys_read_Nil)

text \<open>A non-empty line never looks like the end of the message.\<close>

lemma line_no_end:
  assumes "line_ok l" and "prefix p (l @ crlf)" and "p \<noteq> []"
  shows "\<not> suffix crlf2 (s @ p)"
proof
  assume suf: "suffix crlf2 (s @ p)"
  then obtain u where "s @ p = u @ crlf2" by (auto simp: suffix_def)
  then have "last (s @ p) = LF" by simp
  with \<open>p \<noteq> []\<close> have "last p = LF" by simp
  from assms(2) consider "prefix p l" | "p = l @ [CR]" | "p = l @ crlf"
    by (auto simp: prefix_append prefix_Cons)
  then show False
  proof cases
    case 1
    with \<open>p \<noteq> []\<close> \<open>last p = LF\<close> have "LF \<in> set l"
      by (metis last_in_set set_mono_prefix subsetD)
    with assms(1) show False by (simp add: line_ok_def)
  next
    case 2
    with \<open>last p = LF\<close> show False by simp
  next
    case 3
    from assms(1) obtain l' c where l: "l = l' @ [c]" by (cases l rule: rev_cases) (auto simp: line_ok_def)
    from suf 3 l have "c = LF" by (auto simp: suffix_def)
    with l assms(1) show False by (simp add: line_ok_def)
  qed
qed

lemma rl_line:
  assumes "quiet_heap w" and "rds w fd = r @ q" and "flowing r" and "stream r = l @ crlf @ t"
    and "line_ok l"
  shows "\<exists>r' n. flowing r' \<and> stream r' = t \<and>
           rl fd b w = rl fd \<lparr>cap = n, chars = chars b @ l @ crlf, slack = []\<rparr> (with_rds fd (r' @ q) w)"
proof -
  have "stream r = (l @ crlf) @ t" using assms(4) by simp
  moreover have "NUL \<notin> set (l @ crlf)" using assms(5) by (simp add: line_ok_def)
  moreover have "\<forall>p. prefix p (l @ crlf) \<and> p \<noteq> [] \<longrightarrow> \<not> suffix crlf2 (chars b @ p)"
    using line_no_end [OF assms(5)] by blast
  ultimately have "\<exists>r' n. flowing r' \<and> stream r' = t \<and> (l @ crlf \<noteq> [] \<longrightarrow>
      rl fd b w = rl fd \<lparr>cap = n, chars = chars b @ (l @ crlf), slack = []\<rparr> (with_rds fd (r' @ q) w))"
    by (rule rl_bytes [OF assms(1-3)])
  then show ?thesis by simp
qed

lemma rl_lines:
  assumes "list_all line_ok ls" and "ls \<noteq> []"
    and "quiet_heap w" and "rds w fd = r @ q" and "flowing r"
    and "stream r = concat (map (\<lambda>l. l @ crlf) ls) @ t"
  shows "\<exists>r' n. flowing r' \<and> stream r' = t \<and>
           rl fd b w = rl fd \<lparr>cap = n, chars = chars b @ concat (map (\<lambda>l. l @ crlf) ls), slack = []\<rparr>
                         (with_rds fd (r' @ q) w)"
  using assms
proof (induction ls arbitrary: b w r)
  case (Cons l ls)
  from Cons.prems(6) have "stream r = l @ crlf @ (concat (map (\<lambda>l. l @ crlf) ls) @ t)" by simp
  moreover from Cons.prems(1) have "line_ok l" by simp
  ultimately obtain r1 n1 where
    r1: "flowing r1" "stream r1 = concat (map (\<lambda>l. l @ crlf) ls) @ t" and
    run: "rl fd b w = rl fd \<lparr>cap = n1, chars = chars b @ l @ crlf, slack = []\<rparr> (with_rds fd (r1 @ q) w)"
    using rl_line [OF Cons.prems(3-5)] by blast
  show ?case
  proof (cases "ls = []")
    case True
    with r1 run show ?thesis by auto
  next
    case False
    let ?b = "\<lparr>cap = n1, chars = chars b @ l @ crlf, slack = []\<rparr>" and ?w = "with_rds fd (r1 @ q) w"
    from Cons.IH [of ?w r1 ?b] False r1 Cons.prems obtain r' n where
      "flowing r'" "stream r' = t" and
      "rl fd ?b ?w = rl fd \<lparr>cap = n, chars = chars ?b @ concat (map (\<lambda>l. l @ crlf) ls), slack = []\<rparr>
                       (with_rds fd (r' @ q) ?w)"
      by auto
    with run show ?thesis by auto
  qed
qed simp

text \<open>
  A whole message: the loop returns its body, and what follows the message stays in the
  stream, however the bytes were cut into segments.
\<close>

lemma rl_frame:
  assumes "lines_ok ls" and "quiet_heap w" and "rds w fd = r @ q" and "flowing r"
    and "stream r = frame_of ls @ t"
  obtains r' n where "flowing r'" and "stream r' = t"
    and "rl fd b w = (Ret \<lparr>cap = n, chars = chars b @ body_of ls, slack = [LF, CR, LF]\<rparr>, with_rds fd (r' @ q) w)"
proof -
  from assms(1) have ls: "list_all line_ok ls" "ls \<noteq> []" by (auto simp: lines_ok_def)
  let ?L = "concat (map (\<lambda>l. l @ crlf) ls)"
  have "stream r = ?L @ crlf @ t" using assms(5) by (simp add: frame_of_def)
  from rl_lines [OF ls assms(2-4) this, of b] obtain r1 n1 where
    r1: "flowing r1" "stream r1 = CR # LF # t" and
    run: "rl fd b w = rl fd \<lparr>cap = n1, chars = chars b @ ?L, slack = []\<rparr> (with_rds fd (r1 @ q) w)"
    by auto
  let ?b1 = "\<lparr>cap = n1, chars = chars b @ ?L, slack = []\<rparr>" and ?w1 = "with_rds fd (r1 @ q) w"
  have "\<not> suffix crlf2 (chars ?b1 @ [CR])" by (auto simp: suffix_def)
  with rl_byte [of ?w1 fd r1 q CR "LF # t" ?b1] r1 assms(2) obtain r2 where
    r2: "flowing r2" "stream r2 = LF # t" and
    run2: "rl fd ?b1 ?w1 = rl fd \<lparr>cap = length (chars ?b1) + 2, chars = chars ?b1 @ [CR], slack = []\<rparr>
             (with_rds fd (r2 @ q) w)"
    by auto
  let ?b2 = "\<lparr>cap = length (chars ?b1) + 2, chars = chars ?b1 @ [CR], slack = []\<rparr>"
  let ?w2 = "with_rds fd (r2 @ q) w"
  have body: "chars ?b2 @ [LF] = (chars b @ body_of ls) @ crlf2"
    using body_of_crlf [OF ls(2)] by simp
  then have suf: "suffix crlf2 (chars ?b2 @ [LF])" by (simp only: suffix_def) blast
  have "length (chars ?b2) - 3 = length (chars b @ body_of ls)"
    using arg_cong [OF body, of length] by simp
  moreover have "take (length (chars b @ body_of ls)) (chars ?b2 @ [LF]) = chars b @ body_of ls"
    by (subst body) simp
  moreover have "length (chars b @ body_of ls) \<le> length (chars ?b2)"
    using arg_cong [OF body, of length] by simp
  ultimately have cut: "take (length (chars ?b2) - 3) (chars ?b2) = chars b @ body_of ls"
    by (metis append_Nil2 take_0 take_append diff_is_0_eq)
  from rl_byte [of ?w2 fd r2 q LF t ?b2] r2 assms(2) suf obtain r3 where
    r3: "flowing r3" "stream r3 = t" and
    run3: "rl fd ?b2 ?w2 = (Ret \<lparr>cap = length (chars ?b2) + 2,
              chars = take (length (chars ?b2) - 3) (chars ?b2), slack = [LF, CR, LF]\<rparr>, with_rds fd (r3 @ q) w)"
    by auto
  show ?thesis
    by (rule that [OF r3]) (use run run2 run3 cut in simp)
qed

end

end
