(* ===== verification/Sender.thy ===== *)
theory Sender
  imports Evolve
begin

text \<open>
  The contract of \<open>sendLine\<close>, which server.c and client.c each define for themselves:
  on a descriptor that accepts, the whole line goes out and its length is returned. The
  lemmas derive what a sequence of such calls delivers.
\<close>

locale line_sender =
  fixes sl :: "int \<Rightarrow> string \<Rightarrow> int cio"
  assumes sl_all:
      "s \<noteq> [] \<Longrightarrow> length s < 2 ^ 31 \<Longrightarrow> accepting (wrs w fd) (length s) \<Longrightarrow>
         \<exists>k \<le> length s. sl fd s w = (Ret (int (length s)), wrote fd s k w)"
begin

lemma delivers_send:
  assumes "s \<noteq> []" and "length s < 2 ^ 31" and "fd < next_fd w"
  shows "delivers fd s (int (length s)) w (sl fd s)"
proof (rule deliversI)
  fix N assume acc: "accepting (wrs w fd) (length s + N)"
  then have "accepting (wrs w fd) (length s)" by (rule accepting_mono) simp
  with assms sl_all obtain k where
    run: "sl fd s w = (Ret (int (length s)), wrote fd s k w)" and k: "k \<le> length s" by blast
  have "accepting (drop k (wrs w fd)) N"
    using accepting_drop [OF acc, of k] k by (auto elim: accepting_mono)
  with run assms(3) show "\<exists>w'. sl fd s w = (Ret (int (length s)), w') \<and> outs w' fd = outs w fd @ s \<and>
      accepting (wrs w' fd) N \<and> rds w' fd = rds w fd \<and> evolves w w'"
    by (intro exI [of _ "wrote fd s k w"]) (simp add: evolves_wrote)
qed

lemma delivers_send_then:
  assumes "s \<noteq> []" and "length s < 2 ^ 31" and "fd < next_fd w"
    and "\<And>w'. evolves w w' \<Longrightarrow> rds w' fd = rds w fd \<Longrightarrow> sl fd s w = (Ret (int (length s)), w') \<Longrightarrow>
           delivers fd t y w' (k (int (length s)))"
  shows "delivers fd (s @ t) y w (bindIO (sl fd s) k)"
  by (rule delivers_bind [OF delivers_send]) (use assms in auto)

lemma delivers_send_ret:
  assumes "s \<noteq> []" and "length s < 2 ^ 31" and "fd < next_fd w"
  shows "delivers fd s x w (bindIO (sl fd s) (\<lambda>_. retIO x))"
  using delivers_send_then [OF assms, of "[]" x "\<lambda>_. retIO x"] by simp

end

end
