(* ===== verification/U32_Loops.thy ===== *)
theory U32_Loops
  imports Sender Causal
begin

text \<open>
  The two shapes in which the programs write a buffer with an unsigned 32-bit counter: the
  \<open>do\<close> loop of \<open>sendLine\<close> and the \<open>while\<close> loop that sends the bytes of one \<open>read\<close>. Each
  locale assumes the loop's own equation, so a program interprets it by the equation of
  its recursive function; both give the contract \<open>write_all\<close>.
\<close>

lemma sys_write_wrote:
  assumes "sys_write fd mem off n w = (r, w')"
  shows "\<exists>bs k. w' = wrote fd bs k w"
proof (cases "off < 0 \<or> int (length mem) < off + int n \<or> wrs w fd = []")
  case True
  with assms have "w' = wrote fd [] 0 w" by (auto simp: sys_write_def split: if_splits)
  then show ?thesis by blast
next
  case False
  then obtain a rest where a: "wrs w fd = a # rest" by (cases "wrs w fd") auto
  have "w' = wrote fd (case a of Wr_Err \<Rightarrow> [] | Wr_Acc k \<Rightarrow> take (min k n) (drop (nat off) mem)) 1 w"
    using assms False a by (auto simp: sys_write_def wrote_def split: wr.splits)
  then show ?thesis by blast
qed

locale do_write32 =
  fixes lp :: "int \<Rightarrow> string \<Rightarrow> nat \<Rightarrow> u32 \<Rightarrow> u32 cio"
  assumes lp_eq:
    "lp fd mem n c w =
       bindIO (sys_write fd mem (int (unat c)) (n - unat c)) (\<lambda>r w'.
         let c' = c + word_of_int r
         in if unat c' < n then lp fd mem n c' w' else (Ret c', w')) w"
begin

lemma lp_acc:
  assumes c: "unat c < n" "n \<le> length mem" "n < 2 ^ 32" and wr: "wrs w fd = Wr_Acc k # r"
  shows "\<exists>c'. unat c' = unat c + min k (n - unat c) \<and>
      lp fd mem n c w =
        (let w' = wrote fd (take (min k (n - unat c)) (drop (unat c) mem)) 1 w
         in if unat c' < n then lp fd mem n c' w' else (Ret c', w'))"
proof -
  define m where "m = min k (n - unat c)"
  let ?w = "wrote fd (take m (drop (unat c) mem)) 1 w"
  have "sys_write fd mem (int (unat c)) (n - unat c) w = (Ret (int m), ?w)"
    using sys_write_acc [OF wr, of "unat c" "n - unat c" mem] c by (simp add: m_def)
  moreover have c': "unat (c + of_nat m) = unat c + m"
    using c by (intro unat_add_of_nat) (simp add: m_def)
  ultimately have "lp fd mem n c w =
      (if unat (c + of_nat m) < n then lp fd mem n (c + of_nat m) ?w else (Ret (c + of_nat m), ?w))"
    by (simp add: lp_eq [of fd mem n c w] Let_def)
  with c' show ?thesis
    unfolding m_def [symmetric] Let_def by (intro exI [of _ "c + of_nat m"]) simp
qed

lemma lp_wait:
  assumes "unat c < n" "n \<le> length mem" "wrs w fd = []"
  shows "lp fd mem n c w = (Blocked, w)"
  using sys_write_blocked [OF assms(3), of "unat c" "n - unat c" mem] assms(1,2)
  by (simp add: lp_eq [of fd mem n c w])

text \<open>Whatever the kernel answers, the loop only writes to its descriptor.\<close>

lemma lp_wrote: "\<exists>bs k. snd (lp fd mem n c w) = wrote fd bs k w"
proof (induction "length (wrs w fd)" arbitrary: c w rule: less_induct)
  case less
  obtain r w1 where wr: "sys_write fd mem (int (unat c)) (n - unat c) w = (r, w1)" by fastforce
  then obtain bs k where w1: "w1 = wrote fd bs k w" using sys_write_wrote by blast
  show ?case
  proof (cases "\<exists>x. r = Ret x \<and> unat (c + word_of_int x) < n")
    case True
    then obtain x where x: "r = Ret x" "unat (c + word_of_int x) < n" by blast
    have "length (wrs w1 fd) < length (wrs w fd)"
      using wr x by (auto dest: sys_write_decreases)
    from less.hyps [OF this, of "c + word_of_int x"] obtain bs2 k2 where
      "snd (lp fd mem n (c + word_of_int x) w1) = wrote fd bs2 k2 w1" by blast
    moreover have "lp fd mem n c w = lp fd mem n (c + word_of_int x) w1"
      using wr x by (simp add: lp_eq [of fd mem n c w] Let_def)
    ultimately show ?thesis using w1 by auto
  next
    case False
    then have "snd (lp fd mem n c w) = w1"
      using wr by (cases r) (auto simp: lp_eq [of fd mem n c w] Let_def)
    with w1 show ?thesis by blast
  qed
qed

text \<open>The pointer never leaves the string, even when the counter steps back.\<close>

lemma lp_safe:
  assumes "unat c \<le> n" and "n \<le> length mem"
  shows "fst (lp fd mem n c w) = Blocked \<or> (\<exists>c'. fst (lp fd mem n c w) = Ret c')"
  using assms
proof (induction "length (wrs w fd)" arbitrary: c w rule: less_induct)
  case less
  obtain r w1 where wr: "sys_write fd mem (int (unat c)) (n - unat c) w = (r, w1)" by fastforce
  from less.prems have "\<not> int (length mem) < int (unat c) + int (n - unat c)" by linarith
  with wr have r: "r = Blocked \<or> (\<exists>x. r = Ret x)"
    unfolding sys_write_def by (auto split: if_splits list.splits wr.splits)
  show ?case
  proof (cases "\<exists>x. r = Ret x \<and> unat (c + word_of_int x) < n")
    case True
    then obtain x where x: "r = Ret x" "unat (c + word_of_int x) < n" by blast
    have "length (wrs w1 fd) < length (wrs w fd)"
      using wr x by (auto dest: sys_write_decreases)
    from less.hyps [OF this, of "c + word_of_int x"] x less.prems(2) show ?thesis
      using wr by (simp add: lp_eq [of fd mem n c w] Let_def)
  next
    case False
    with r wr show ?thesis by (cases r) (auto simp: lp_eq [of fd mem n c w] Let_def)
  qed
qed

lemma lp_fuelled: "fuelled (fst (lp fd mem n c w))"
proof (induction "length (wrs w fd)" arbitrary: c w rule: less_induct)
  case less
  show ?case
    by (subst lp_eq, intro unbounded_bind_at)
      (auto simp: Let_def intro!: unboundedD unbd less.hyps dest: sys_write_decreases)
qed

lemma keeps_lp [evolve]: "keeps evolves (lp fd mem n c)"
  by (rule keepsI) (metis lp_wrote evolves_wrote)

lemma causal_lp [caus]: "causal g (lp fd mem n c)"
proof (rule causalI)
  have eq: "lp fd mem n c = bindIO (sys_write fd mem (int (unat c)) (n - unat c)) (\<lambda>r w'.
      (if unat (c + word_of_int r) < n then lp fd mem n (c + word_of_int r) else retIO (c + word_of_int r)) w')" for c
    by (rule ext, subst lp_eq) (auto simp: Let_def intro!: bindIO_cong)
  fix w show "causal_at g w (lp fd mem n c)"
  proof (induction "length (wrs w fd)" arbitrary: c w rule: less_induct)
    case less
    show ?case
      by (subst eq, rule causal_bind_at)
        (auto intro: causalD caus keeps_at evolve less dest: sys_write_decreases)
  qed
qed

end

sublocale do_write32 \<subseteq> write_all lp unat "2 ^ 32"
  by unfold_locales (rule lp_wait lp_acc; assumption)+

text \<open>\<open>sendLine\<close> starts the loop at 0 and returns its counter as an \<open>int\<close>.\<close>

locale sender32 = do_write32 +
  fixes line :: "int \<Rightarrow> string \<Rightarrow> int cio"
  assumes line_eq: "line fd s = bindIO (lp fd (s @ [NUL]) (length s) 0) (\<lambda>c. retIO (sint c))"
begin

lemma line_wrote: "\<exists>bs k. snd (line fd s w) = wrote fd bs k w"
  using lp_wrote [of fd "s @ [NUL]" "length s" 0 w]
  by (cases "lp fd (s @ [NUL]) (length s) 0 w") (auto simp: line_eq bindIO_def split: res.splits)

lemma keeps_line [evolve]: "keeps evolves (line fd s)"
  by (rule keepsI) (metis line_wrote evolves_wrote)

lemma causal_line [caus]: "causal g (line fd s)"
  unfolding line_eq by (intro caus evolve)

lemma unbounded_line [unbd]: "unbounded (line fd s)"
  unfolding line_eq by (intro unbd) (simp add: unbounded_def lp_fuelled)

lemma line_frame:
  assumes "line fd s w = (r, w')"
  shows "rds w' = rds w" and "stats w' = stats w"
  using line_wrote [of fd s w] assms by auto

lemma line_safe: "fst (line fd s w) = Blocked \<or> (\<exists>x. fst (line fd s w) = Ret x)"
  using lp_safe [of 0 "length s" "s @ [NUL]" fd w]
  by (cases "lp fd (s @ [NUL]) (length s) 0 w") (auto simp: line_eq)

lemma line_all:
  assumes "s \<noteq> []" and "length s < 2 ^ 31" and "accepting (wrs w fd) (length s)"
  shows "\<exists>k \<le> length s. line fd s w = (Ret (int (length s)), wrote fd s k w)"
proof -
  from assms have "unat (0 :: u32) < length s" "length s \<le> length (s @ [NUL])" "length s < 2 ^ 32"
    "accepting (wrs w fd) (length s - unat (0 :: u32))"
    by auto
  from lp_total [OF this] obtain c k where
    run: "lp fd (s @ [NUL]) (length s) 0 w = (Ret c, wrote fd s k w)"
    and c: "unat c = length s" and k: "k \<le> length s"
    by auto
  from c have "of_nat (unat c) = (of_nat (length s) :: u32)" by simp
  then have "c = of_nat (length s)" by simp
  with run k assms(2) show ?thesis by (auto simp: line_eq sint_of_small)
qed

text \<open>Without errors: a prefix goes out, and all of it when the call returns.\<close>

lemma line_prefix:
  assumes "s \<noteq> []" and "length s < 2 ^ 31" and "no_wr_err (wrs w fd)"
  shows "\<exists>m. outs (snd (line fd s w)) fd = outs w fd @ take m s \<and> m \<le> length s \<and>
    (fst (line fd s w) = Blocked \<or> fst (line fd s w) = Ret (int (length s)) \<and> m = length s)"
proof -
  let ?n = "length s" and ?m = "s @ [NUL]"
  from assms have "unat (0 :: u32) < ?n" "?n \<le> length ?m" "?n < 2 ^ 32" by auto
  from lp_prefix [OF this assms(3)] obtain m k where
    sn: "snd (lp fd ?m ?n 0 w) = wrote fd (take m ?m) k w" and m: "m \<le> ?n" and
    fs: "fst (lp fd ?m ?n 0 w) = Blocked \<or>
      (\<exists>c'. fst (lp fd ?m ?n 0 w) = Ret c' \<and> unat c' = ?n) \<and> m = ?n" by auto
  from sn m have out: "outs (snd (line fd s w)) fd = outs w fd @ take m s"
    using fs by (cases "lp fd ?m ?n 0 w") (auto simp: line_eq)
  have "sint c' = int ?n" if "unat c' = ?n" for c' :: u32
    using that assms(2) by (rule sint_of_unat)
  then have "fst (line fd s w) = Blocked \<or> fst (line fd s w) = Ret (int ?n) \<and> m = ?n"
    using fs by (cases "lp fd ?m ?n 0 w") (auto simp: line_eq)
  with out m show ?thesis by blast
qed

text \<open>
  The first write fails: the counter wraps to 2^32 - 1, the loop ends, nothing was sent
  and the result is -1.
\<close>

lemma line_first_error:
  assumes "wrs w fd = Wr_Err # r" and "length s < 2 ^ 31"
  shows "line fd s w = (Ret (-1), wrote fd [] 1 w)"
proof -
  have "sys_write fd (s @ [NUL]) (int (unat (0 :: u32))) (length s - unat (0 :: u32)) w
      = (Ret (-1), wrote fd [] 1 w)"
    using sys_write_err [OF assms(1), of 0 "length s" "s @ [NUL]"] by simp
  then have "lp fd (s @ [NUL]) (length s) 0 w = (Ret (-1), wrote fd [] 1 w)"
    using assms(2) by (subst lp_eq) (simp add: Let_def unat_minus1_32)
  then show ?thesis by (simp add: line_eq)
qed

text \<open>
  A later write fails after \<open>k\<close> bytes: the counter steps back to \<open>k - 1\<close> and the loop
  sends byte \<open>k - 1\<close> a second time.
\<close>

lemma line_resend:
  assumes "wrs w fd = Wr_Acc k # Wr_Err # r" and "0 < k" and "k < length s"
    and "length s < 2 ^ 31" and "accepting r (length s)"
  shows "\<exists>w'. line fd s w = (Ret (int (length s)), w') \<and>
           outs w' fd = outs w fd @ take k s @ drop (k - 1) s"
proof -
  let ?m = "s @ [NUL]" and ?n = "length s"
  let ?w1 = "wrote fd (take k s) 1 w" and ?w2 = "wrote fd (take k s) 2 w"
  from assms(2) obtain j where k: "k = Suc j" by (cases k) auto
  define cj :: u32 where "cj = of_nat j"
  have uk: "unat (cj + 1) = k" and uj: "unat cj = j"
    using assms(3,4) unat_of_nat32 [of k] unat_of_nat32 [of j] by (simp_all add: cj_def k add.commute)
  have "lp fd ?m ?n 0 w = lp fd ?m ?n (cj + 1) ?w1"
  proof -
    have "sys_write fd ?m (int (unat (0 :: u32))) (?n - unat (0 :: u32)) w = (Ret (int k), ?w1)"
      using sys_write_acc [OF assms(1), of 0 ?n ?m] assms(3) by simp
    moreover have "(0 :: u32) + word_of_int (int k) = cj + 1" by (simp add: cj_def k)
    ultimately show ?thesis using assms(3) uk
      by (subst lp_eq) (simp only: bindIO_Ret Let_def if_True)
  qed
  also have "\<dots> = lp fd ?m ?n cj ?w2"
  proof -
    have "wrs ?w1 fd = Wr_Err # r" using assms(1) by simp
    from sys_write_err [OF this, of k "?n - k" ?m] assms(3)
    have "sys_write fd ?m (int (unat (cj + 1))) (?n - unat (cj + 1)) ?w1 = (Ret (-1), ?w2)"
      by (simp only: uk) (simp add: numeral_2_eq_2)
    moreover have "cj + 1 + word_of_int (-1) = cj" by simp
    moreover have "j < ?n" using assms(3) k by simp
    ultimately show ?thesis using uj
      by (subst lp_eq) (simp only: bindIO_Ret Let_def if_True)
  qed
  finally have run: "lp fd ?m ?n 0 w = lp fd ?m ?n cj ?w2" .
  have acc: "accepting (wrs ?w2 fd) (?n - unat cj)"
    using assms(1,5) by (auto simp: numeral_2_eq_2 elim: accepting_mono)
  have "unat cj < ?n" "?n \<le> length ?m" "?n < 2 ^ 32" using uj assms(3,4) k by auto
  from lp_total [OF this acc] obtain c m where
    tot: "lp fd ?m ?n cj ?w2 = (Ret c, wrote fd (take (?n - j) (drop j ?m)) m ?w2)"
    and c: "unat c = ?n" unfolding uj by blast
  from c have "of_nat (unat c) = (of_nat ?n :: u32)" by simp
  then have c': "c = of_nat ?n" by simp
  have dr: "take (?n - j) (drop j ?m) = drop (k - 1) s" using assms(3) k by simp
  from run tot have "lp fd ?m ?n 0 w = (Ret (of_nat ?n), wrote fd (drop (k - 1) s) m ?w2)"
    by (simp only: dr c')
  then have "line fd s w = (Ret (int ?n), wrote fd (drop (k - 1) s) m ?w2)"
    using assms(4) by (simp add: line_eq sint_of_small)
  then show ?thesis by simp
qed

end

sublocale sender32 \<subseteq> line_sender line
  by unfold_locales (rule line_all)

locale while_write32 =
  fixes wl :: "int \<Rightarrow> string \<Rightarrow> u32 \<Rightarrow> u32 \<Rightarrow> u32 cio"
  assumes wl_eq:
    "wl fd mem n c w =
       (if c < n then
          bindIO (sys_write fd mem (int (unat c)) (unat (n - c))) (\<lambda>r w'.
            wl fd mem n (c + word_of_int r) w') w
        else (Ret c, w))"
begin

lemma wl_acc:
  assumes c: "unat c < n" "n \<le> length mem" "n < 2 ^ 32" and wr: "wrs w fd = Wr_Acc k # r"
  shows "\<exists>c'. unat c' = unat c + min k (n - unat c) \<and>
      wl fd mem (of_nat n) c w =
        (let w' = wrote fd (take (min k (n - unat c)) (drop (unat c) mem)) 1 w
         in if unat c' < n then wl fd mem (of_nat n) c' w' else (Ret c', w'))"
proof -
  from c have lt: "c < of_nat n" and sub: "unat (of_nat n - c) = n - unat c"
    by (auto simp: less_of_nat32 unat_sub word_le_nat_alt unat_of_nat32)
  define m where "m = min k (n - unat c)"
  let ?w = "wrote fd (take m (drop (unat c) mem)) 1 w"
  have "sys_write fd mem (int (unat c)) (n - unat c) w = (Ret (int m), ?w)"
    using sys_write_acc [OF wr, of "unat c" "n - unat c" mem] c by (simp add: m_def)
  then have run: "wl fd mem (of_nat n) c w = wl fd mem (of_nat n) (c + of_nat m) ?w"
    using lt sub by (simp add: wl_eq [of fd mem _ c w])
  have c': "unat (c + of_nat m) = unat c + m"
    using c by (intro unat_add_of_nat) (simp add: m_def)
  have "wl fd mem (of_nat n) (c + of_nat m) ?w = (Ret (c + of_nat m), ?w)"
    if "\<not> unat (c + of_nat m) < n"
    using that c by (simp add: wl_eq [of fd mem _ "c + of_nat m"] less_of_nat32)
  with run c' show ?thesis
    unfolding m_def [symmetric] Let_def by (intro exI [of _ "c + of_nat m"]) simp
qed

lemma wl_wait:
  assumes "unat c < n" "n \<le> length mem" "n < 2 ^ 32" "wrs w fd = []"
  shows "wl fd mem (of_nat n) c w = (Blocked, w)"
proof -
  from assms have "c < of_nat n" and "unat (of_nat n - c) = n - unat c"
    by (auto simp: less_of_nat32 unat_sub word_le_nat_alt unat_of_nat32)
  then show ?thesis
    using sys_write_blocked [OF assms(4), of "unat c" "n - unat c" mem] assms(1,2)
    by (simp add: wl_eq [of fd mem _ c w])
qed

lemma wl_wrote: "\<exists>bs k. snd (wl fd mem n c w) = wrote fd bs k w"
proof (induction "length (wrs w fd)" arbitrary: c w rule: less_induct)
  case less
  show ?case
  proof (cases "c < n")
    case True
    obtain r w1 where wr: "sys_write fd mem (int (unat c)) (unat (n - c)) w = (r, w1)" by fastforce
    then obtain bs k where w1: "w1 = wrote fd bs k w" using sys_write_wrote by blast
    show ?thesis
    proof (cases r)
      case (Ret x)
      with wr have "length (wrs w1 fd) < length (wrs w fd)" by (auto dest: sys_write_decreases)
      from less.hyps [OF this, of "c + word_of_int x"] obtain bs2 k2 where
        "snd (wl fd mem n (c + word_of_int x) w1) = wrote fd bs2 k2 w1" by blast
      moreover have "wl fd mem n c w = wl fd mem n (c + word_of_int x) w1"
        using True wr Ret by (simp add: wl_eq [of fd mem n c w])
      ultimately show ?thesis using w1 by auto
    qed (use True wr w1 in \<open>auto simp: wl_eq [of fd mem n c w]\<close>)
  next
    case False
    then show ?thesis by (intro exI [of _ "[]"] exI [of _ 0]) (simp add: wl_eq [of fd mem n c w])
  qed
qed

lemma wl_fuelled: "fuelled (fst (wl fd mem n c w))"
proof (induction "length (wrs w fd)" arbitrary: c w rule: less_induct)
  case less
  show ?case
    by (cases "c < n"; subst wl_eq)
      (auto intro!: unbounded_bind_at unboundedD [OF unbounded_sys(2)] less.hyps
        dest: sys_write_decreases)
qed

lemma keeps_wl [evolve]: "keeps evolves (wl fd mem n c)"
  by (rule keepsI) (metis wl_wrote evolves_wrote)

lemma causal_wl [caus]: "causal g (wl fd mem n c)"
proof (rule causalI)
  have eq: "wl fd mem n c = (if c < n then
      bindIO (sys_write fd mem (int (unat c)) (unat (n - c))) (\<lambda>r. wl fd mem n (c + word_of_int r)) else retIO c)" for c
    by (rule ext) (simp add: wl_eq [of fd mem n c])
  fix w show "causal_at g w (wl fd mem n c)"
  proof (induction "length (wrs w fd)" arbitrary: c w rule: less_induct)
    case less
    show ?case
      by (subst eq) (auto intro!: causal_bind_at intro: causalD caus keeps_at evolve less dest: sys_write_decreases)
  qed
qed

lemma unbounded_wl [unbd]: "unbounded (wl fd mem n c)"
  by (simp add: unbounded_def wl_fuelled)

text \<open>A count beyond the bytes at hand, such as the one a failed \<open>read\<close> leaves.\<close>

lemma wl_overrun:
  assumes "length mem < unat n" and "0 < n"
  shows "wl fd mem n 0 w = (Crash Out_Of_Bounds, w)"
proof -
  have "sys_write fd mem (int (unat (0 :: u32))) (unat (n - 0)) w = (Crash Out_Of_Bounds, w)"
  proof -
    have "int (length mem) < uint n" using assms(1) by (simp only: uint_nat of_nat_less_iff)
    then show ?thesis by (simp add: sys_write_def)
  qed
  with assms(2) show ?thesis by (simp add: wl_eq [of fd mem n 0 w])
qed

end

sublocale while_write32 \<subseteq> write_all "\<lambda>fd mem n. wl fd mem (of_nat n)" unat "2 ^ 32"
  by unfold_locales (rule wl_wait wl_acc; assumption)+

context while_write32
begin

text \<open>All the bytes of one \<open>read\<close> go out.\<close>

lemma wl_all:
  assumes "bs \<noteq> []" and "length bs < 2 ^ 32" and "accepting (wrs w fd) (length bs)"
  shows "\<exists>c k. wl fd bs (of_nat (length bs)) 0 w = (Ret c, wrote fd bs k w) \<and> k \<le> length bs"
proof -
  from assms have "unat (0 :: u32) < length bs" "length bs \<le> length bs" "length bs < 2 ^ 32"
    "accepting (wrs w fd) (length bs - unat (0 :: u32))"
    by auto
  from lp_total [OF this] show ?thesis by auto
qed

end

end
