(* ===== verification/FtServer.thy ===== *)
theory FtServer
  imports Netlib Frame U32_Loops
begin

text \<open>
  FileTransfer_Proyecto/server.c: the file server. One function per function of the
  source, one recursive function per loop. \<open>start_protocol\<close> serves the commands of one
  connection, \<open>start_server\<close> accepts connections and forks.
\<close>

section \<open>Sending\<close>

text \<open>
  The \<open>do\<close> loop of \<open>sendLine\<close>: \<open>mem\<close> is the string with its NUL, \<open>n\<close> its length,
  \<open>wb\<close> the unsigned counter \<open>writeBytes\<close>, to which the result of \<open>write\<close> (possibly -1)
  is added modulo 2^32.
\<close>

function send_loop :: "int \<Rightarrow> string \<Rightarrow> nat \<Rightarrow> u32 \<Rightarrow> u32 cio" where
  "send_loop fd mem n wb w =
     bindIO (sys_write fd mem (int (unat wb)) (n - unat wb)) (\<lambda>r w'.
       let wb' = wb + word_of_int r
       in if unat wb' < n then send_loop fd mem n wb' w' else (Ret wb', w')) w"
  by pat_completeness auto
termination
  by (relation "measure (\<lambda>(fd, mem, n, wb, w). length (wrs w fd))")
    (auto dest: sys_write_decreases)

declare send_loop.simps [simp del]

definition sendLine :: "int \<Rightarrow> string \<Rightarrow> int cio" where
  "sendLine clientSocket writeBuffer =
     bindIO (send_loop clientSocket (writeBuffer @ [NUL]) (length writeBuffer) 0)
       (\<lambda>wb. retIO (sint wb))"

interpretation ln: sender32 send_loop sendLine
  by unfold_locales (rule send_loop.simps sendLine_def)+

section \<open>LIST\<close>

fun list_loop :: "int \<Rightarrow> string list \<Rightarrow> unit cio" where
  "list_loop sock [] = retIO ()"
| "list_loop sock (d_name # ents) =
     (if d_name = ''.'' then list_loop sock ents
      else if d_name = ''..'' then list_loop sock ents
      else bindIO (liftR (sprintf_to 1024 (d_name @ crlf))) (\<lambda>writeBuffer.
           bindIO (sendLine sock writeBuffer) (\<lambda>_. list_loop sock ents)))"

definition doList :: "int \<Rightarrow> string \<Rightarrow> unit cio" where
  "doList clientSocket baseDir =
     bindIO (sys_opendir baseDir) (\<lambda>dir.
       case dir of
         Some ents \<Rightarrow>
           bindIO (list_loop clientSocket ents) (\<lambda>_.
           bindIO (sendLine clientSocket crlf) (\<lambda>_. retIO ()))
       | None \<Rightarrow>
           bindIO (sendLine clientSocket (''INTENRAL ERROR ( Can'' @ [CHR 0x27] @
               ''t open directory)'' @ crlf2)) (\<lambda>_. retIO ()))"

section \<open>GET\<close>

text \<open>
  The loops at lines 182 to 187. \<open>readBytes\<close> is unsigned, so the result -1 of \<open>read\<close>
  counts as 2^32 - 1 bytes. \<open>buf\<close> is the part of \<open>readBuffer\<close> that the read filled.
\<close>

function chunk_loop :: "int \<Rightarrow> string \<Rightarrow> u32 \<Rightarrow> u32 \<Rightarrow> u32 cio" where
  "chunk_loop sock buf readBytes wb w =
     (if wb < readBytes then
        bindIO (sys_write sock buf (int (unat wb)) (unat (readBytes - wb))) (\<lambda>r w'.
          chunk_loop sock buf readBytes (wb + word_of_int r) w') w
      else (Ret wb, w))"
  by pat_completeness auto
termination
  by (relation "measure (\<lambda>(sock, buf, rb, wb, w). length (wrs w sock))")
    (auto dest: sys_write_decreases)

declare chunk_loop.simps [simp del]

interpretation chunk: while_write32 chunk_loop
  by unfold_locales (rule chunk_loop.simps)

function copy_loop :: "int \<Rightarrow> int \<Rightarrow> unit cio" where
  "copy_loop sock fd w =
     bindIO (sys_read fd 102400) (\<lambda>r w1.
       let readBytes = (case r of None \<Rightarrow> -1 | Some bs \<Rightarrow> of_nat (length bs)) :: u32;
           readBuffer = (case r of None \<Rightarrow> [] | Some bs \<Rightarrow> bs)
       in if 0 < readBytes then
            bindIO (chunk_loop sock readBuffer readBytes 0) (\<lambda>_ w2. copy_loop sock fd w2) w1
          else (Ret (), w1)) w"
  by pat_completeness auto
termination
proof (relation "measure (\<lambda>(sock, fd, w). rd_size (rds w fd))")
  fix sock fd w r w1 rb buf x w2
  assume rd: "sys_read fd 102400 w = (Ret r, w1)"
    and ch: "chunk_loop sock buf rb 0 w1 = (Ret x, w2)"
  have "rds w2 = rds w1" using chunk.wl_wrote [of sock buf rb 0 w1] ch by auto
  with sys_read_decreases [OF rd] show "((sock, fd, w2), sock, fd, w) \<in> measure (\<lambda>(sock, fd, w). rd_size (rds w fd))"
    by simp
qed simp

declare copy_loop.simps [simp del]

text \<open>Lines 175 to 178: the header. Lines 180 to 191: the file.\<close>

definition send_header :: "int \<Rightarrow> int \<Rightarrow> unit cio" where
  "send_header clientSocket fd =
     bindIO (sendLine clientSocket (''OK'' @ crlf)) (\<lambda>_.
     bindIO (sys_fstat_size fd) (\<lambda>st_size.
     bindIO (liftR (sprintf_to 256 (''Size: '' @ dec (unat (of_nat st_size :: u32)) @ crlf))) (\<lambda>writeBuffer.
     bindIO (sendLine clientSocket writeBuffer) (\<lambda>_.
     bindIO (sendLine clientSocket crlf) (\<lambda>_. retIO ())))))"

definition send_file :: "int \<Rightarrow> int \<Rightarrow> unit cio" where
  "send_file clientSocket fd =
     bindIO (send_header clientSocket fd) (\<lambda>_.
     bindIO (copy_loop clientSocket fd) (\<lambda>_.
     sys_close fd))"

definition doGet :: "int \<Rightarrow> string \<Rightarrow> string \<Rightarrow> unit cio" where
  "doGet clientSocket baseDir fileName =
     bindIO (sys_open_rd (baseDir @ fileName)) (\<lambda>fd.
       if fd = -1 then
         bindIO (liftR (sprintf_to 256 (''NOT_FOUND '' @ fileName @ crlf2))) (\<lambda>writeBuffer.
         bindIO (sendLine clientSocket writeBuffer) (\<lambda>_. retIO ()))
       else send_file clientSocket fd)"

section \<open>The protocol\<close>

abbreviation delims :: string where "delims \<equiv> [SPC, TAB, BSP]"

function read_cmd :: "int \<Rightarrow> cbuf \<Rightarrow> cbuf cio" where
  "read_cmd sock b w =
     bindIO (sys_read sock 1) (\<lambda>r w1.
       case r of
         None \<Rightarrow> (Ret b, w1)
       | Some bs \<Rightarrow>
           if bs = [] then (Ret b, w1)
           else bindIO (append_check b bs) (\<lambda>p w2.
                  if fst p then (Ret (snd p), w2) else read_cmd sock (snd p) w2) w1) w"
  by pat_completeness auto
termination
proof (relation "measure (\<lambda>(sock, b, w). rd_size (rds w sock))")
  fix sock b w r w1 bs p w2
  assume rd: "sys_read sock 1 w = (Ret r, w1)" and "append_check b bs w1 = (Ret p, w2)"
  then have "w2 = w1" by (auto dest: append_check_state)
  with sys_read_decreases [OF rd]
  show "((sock, snd p, w2), sock, b, w) \<in> measure (\<lambda>(sock, b, w). rd_size (rds w sock))"
    by simp
qed simp

declare read_cmd.simps [simp del]

text \<open>Lines 105 to 119: one command; the result says whether it was QUIT.\<close>

definition handle_cmd :: "int \<Rightarrow> string \<Rightarrow> string \<Rightarrow> bool cio" where
  "handle_cmd clientSocket baseDir cmdString =
     (case strtok delims cmdString of
        None \<Rightarrow> crashIO Null_Deref
      | Some (token, rest) \<Rightarrow>
          if token = ''GET'' then
            (case strtok delims rest of
               None \<Rightarrow> bindIO (sendLine clientSocket (''ERROR ( Missing FileName )'' @ crlf2)) (\<lambda>_. retIO False)
             | Some (name, _) \<Rightarrow> bindIO (doGet clientSocket baseDir name) (\<lambda>_. retIO False))
          else if token = ''LIST'' then bindIO (doList clientSocket baseDir) (\<lambda>_. retIO False)
          else if token = ''QUIT'' then retIO True
          else bindIO (sendLine clientSocket (''UNKOWN METHOD'' @ crlf2)) (\<lambda>_. retIO False))"

text \<open>
  The outer loop. Every round reads at least one answer of the socket, so the size of its
  script bounds the number of rounds (\<open>start_protocol_fuel\<close> below).
\<close>

fun serve :: "nat \<Rightarrow> int \<Rightarrow> string \<Rightarrow> unit cio" where
  "serve 0 sock base w = (No_Fuel, w)"
| "serve (Suc n) sock base w =
     bindIO (read_cmd sock \<lparr>cap = 255, chars = [], slack = []\<rparr>) (\<lambda>b.
     bindIO (handle_cmd sock base (chars b)) (\<lambda>quit.
       if quit then retIO () else serve n sock base)) w"

definition start_protocol :: "int \<Rightarrow> string \<Rightarrow> unit cio" where
  "start_protocol clientSocket baseDir w =
     serve (Suc (rd_size (rds w clientSocket))) clientSocket baseDir w"

section \<open>Accepting connections\<close>

text \<open>
  The endless loop of \<open>start_server\<close>, as one process runs it: after a \<open>fork\<close> the child
  (answer 0) serves the client and then stays in the loop, as the source has no exit there.
\<close>

fun accept_loop :: "nat \<Rightarrow> int \<Rightarrow> string \<Rightarrow> int cio" where
  "accept_loop 0 ss base w = (No_Fuel, w)"
| "accept_loop (Suc n) ss base w =
     bindIO (waitConnection4 ss (Some []) (Some 0)) (\<lambda>(clientSocket, clientIP, clientPort).
       if clientSocket = -1 then accept_loop n ss base
       else bindIO sys_fork (\<lambda>forkID.
         if forkID = 0 then
           bindIO (start_protocol clientSocket base) (\<lambda>_.
           bindIO (closeTCPSocket clientSocket) (\<lambda>_.
           accept_loop n ss base))
         else if 0 < forkID then
           bindIO (closeTCPSocket clientSocket) (\<lambda>_. accept_loop n ss base)
         else retIO 1)) w"

definition start_server :: "sockaddr_in \<Rightarrow> u16 \<Rightarrow> string \<Rightarrow> int cio" where
  "start_server a0 port baseDir w =
     bindIO (newTCPServerSocket4 a0 ''0.0.0.0'' port 5) (\<lambda>serverSocket w'.
       if serverSocket = -1 then (Ret 1, w')
       else accept_loop (Suc (length (accepts w'))) serverSocket baseDir w') w"

section \<open>The frame of the functions\<close>

lemma keeps_copy_loop: "evolves w (snd (copy_loop sock fd w))"
proof (induction sock fd w rule: copy_loop.induct)
  case (1 sock fd w)
  then show ?case
    by (subst copy_loop.simps, intro evolves_bind)
      (auto simp: Let_def intro!: evolves_bind evolve)
qed

lemma keeps_list_loop [evolve]: "keeps evolves (list_loop sock ents)"
  by (induction ents) (auto intro!: evolve)

lemma keeps_doList [evolve]: "keeps evolves (doList sock base)"
  unfolding doList_def by (auto split: option.split intro!: evolve)

lemma keeps_send_header [evolve]: "keeps evolves (send_header sock f)"
  unfolding send_header_def by (intro evolve)

lemma keeps_send_file [evolve]: "keeps evolves (send_file sock f)"
  unfolding send_file_def by (intro evolve keepsI keeps_copy_loop)

lemma keeps_doGet [evolve]: "keeps evolves (doGet sock base name)"
  unfolding doGet_def by (intro evolve keepsI keeps_copy_loop)

lemma keeps_handle_cmd [evolve]: "keeps evolves (handle_cmd sock base cmd)"
  unfolding handle_cmd_def by (auto split: option.split prod.split intro!: evolve)

interpretation cmd: frame_reader read_cmd
proof
  fix fd b w
  show "read_cmd fd b w = bindIO (sys_read fd 1) (\<lambda>r.
         case r of None \<Rightarrow> retIO b
         | Some bs \<Rightarrow> if bs = [] then retIO b
             else bindIO (append_check b bs) (\<lambda>p. if fst p then retIO (snd p) else read_cmd fd (snd p))) w"
    by (subst read_cmd.simps)
      (auto intro!: bindIO_cong split: option.split)
qed

section \<open>What the functions deliver\<close>

definition listed :: "string list \<Rightarrow> string list" where
  "listed ents = filter (\<lambda>n. n \<noteq> ''.'' \<and> n \<noteq> ''..'') ents"

lemma delivers_list_loop:
  assumes "\<forall>n\<in>set ents. length n \<le> 255" and "fd < next_fd w"
  shows "delivers fd (concat (map (\<lambda>n. n @ crlf) (listed ents))) () w (list_loop fd ents)"
  using assms
proof (induction ents arbitrary: w)
  case Nil
  then show ?case by (simp add: listed_def)
next
  case (Cons n ents)
  show ?case
  proof (cases "n = ''.'' \<or> n = ''..''")
    case True
    with Cons show ?thesis by (auto simp: listed_def)
  next
    case False
    have "delivers fd ((n @ crlf) @ concat (map (\<lambda>n. n @ crlf) (listed ents))) () w
        (bindIO (sendLine fd (n @ crlf)) (\<lambda>_. list_loop fd ents))"
      using Cons by (intro ln.delivers_send_then) (auto intro: evolves_next_fd)
    then have "delivers fd ((n @ crlf) @ concat (map (\<lambda>n. n @ crlf) (listed ents))) () w
        (list_loop fd (n # ents))"
      using False Cons.prems by (auto simp: sprintf_to_def delivers_def)
    with False show ?thesis by (simp add: listed_def)
  qed
qed

lemma delivers_doList:
  assumes "fd < next_fd w" and "\<forall>es n. dirs w base = Some es \<longrightarrow> n \<in> set es \<longrightarrow> length n \<le> 255"
  shows "delivers fd (case dirs w base of
           None \<Rightarrow> ''INTENRAL ERROR ( Can'' @ [CHR 0x27] @ ''t open directory)'' @ crlf2
         | Some es \<Rightarrow> frame_of (listed es)) () w (doList fd base)"
proof (cases "dirs w base")
  case None
  then have "doList fd base w = bindIO (sendLine fd (''INTENRAL ERROR ( Can'' @ [CHR 0x27] @
      ''t open directory)'' @ crlf2)) (\<lambda>_. retIO ()) w"
    by (simp add: doList_def sys_opendir_def)
  with ln.delivers_send_ret [of "''INTENRAL ERROR ( Can'' @ [CHR 0x27] @
      ''t open directory)'' @ crlf2" fd w "()"] None assms(1)
  show ?thesis by (simp add: delivers_def)
next
  case (Some es)
  have "delivers fd (concat (map (\<lambda>n. n @ crlf) (listed es))) () w (list_loop fd es)"
    using assms Some by (intro delivers_list_loop) auto
  then have "delivers fd (concat (map (\<lambda>n. n @ crlf) (listed es)) @ crlf) () w
     (bindIO (list_loop fd es) (\<lambda>_. bindIO (sendLine fd crlf) (\<lambda>_. retIO ())))"
    by (rule delivers_bind, intro ln.delivers_send_ret)
      (use assms(1) in \<open>auto intro: evolves_next_fd\<close>)
  moreover have "doList fd base w =
      bindIO (list_loop fd es) (\<lambda>_. bindIO (sendLine fd crlf) (\<lambda>_. retIO ())) w"
    using Some by (simp add: doList_def sys_opendir_def)
  ultimately show ?thesis using Some by (simp add: delivers_def frame_of_def)
qed

text \<open>The copy of a file to the socket.\<close>

lemma delivers_copy_loop:
  assumes "rds w f = r @ Rd_Data [] # q" and "flowing r" and "f \<noteq> sock"
  shows "delivers sock (stream r) () w (copy_loop sock f)"
proof (rule deliversI)
  fix N assume "accepting (wrs w sock) (length (stream r) + N)"
  with assms(1,2) have "\<exists>w'. copy_loop sock f w = (Ret (), w') \<and> outs w' sock = outs w sock @ stream r \<and>
      accepting (wrs w' sock) N \<and> rds w' sock = rds w sock"
  proof (induction "rd_size r" arbitrary: w r rule: less_induct)
    case less
    show ?case
    proof (cases "r = []")
      case True
      with less.prems assms(3) show ?thesis
        by (subst copy_loop.simps) (simp add: sys_read_def with_rds_def)
    next
      case False
      obtain bs r' where rd: "sys_read f 102400 w = (Ret (Some bs), with_rds f (r' @ Rd_Data [] # q) w)"
        and r': "flowing r'" "stream r = bs @ stream r'" "rd_size r' < rd_size r"
        and bs: "bs \<noteq> []" "length bs \<le> 102400"
        using sys_read_flowing [OF less.prems(1,2) False, of 102400] by (metis zero_less_numeral)
      let ?w1 = "with_rds f (r' @ Rd_Data [] # q) w"
      have "accepting (wrs ?w1 sock) (length bs)"
        using less.prems(3) r'(2) by (auto elim: accepting_mono)
      with bs chunk.wl_all [of bs ?w1 sock] obtain c k where
        ch: "chunk_loop sock bs (of_nat (length bs)) 0 ?w1 = (Ret c, wrote sock bs k ?w1)"
        and k: "k \<le> length bs" by auto
      let ?w2 = "wrote sock bs k ?w1"
      have "(0 :: u32) < of_nat (length bs)" using bs by (simp add: less_of_nat32)
      then have run: "copy_loop sock f w = copy_loop sock f ?w2"
        using rd ch by (subst copy_loop.simps) simp
      have "accepting (wrs ?w2 sock) (length (stream r') + N)"
        using accepting_drop [OF less.prems(3), of k] k r'(2) by (auto elim: accepting_mono)
      moreover have "rds ?w2 f = r' @ Rd_Data [] # q" by simp
      ultimately obtain w' where "copy_loop sock f ?w2 = (Ret (), w')"
        "outs w' sock = outs ?w2 sock @ stream r'" "accepting (wrs w' sock) N" "rds w' sock = rds ?w2 sock"
        using less.hyps [OF r'(3) _ r'(1)] by blast
      with run r'(2) assms(3) show ?thesis by auto
    qed
  qed
  with keeps_copy_loop [of w sock f] show "\<exists>w'. copy_loop sock f w = (Ret (), w') \<and>
      outs w' sock = outs w sock @ stream r \<and> accepting (wrs w' sock) N \<and> rds w' sock = rds w sock \<and> evolves w w'"
    by auto
qed

section \<open>Requests and replies\<close>

text \<open>
  What the server promises: a request is a message of one line, and its reply depends on
  the file system only.
\<close>

datatype request = Get string | Get_No_Name | List_Dir | Other string

fun request_line :: "request \<Rightarrow> string" where
  "request_line (Get n) = ''GET '' @ n"
| "request_line Get_No_Name = ''GET''"
| "request_line List_Dir = ''LIST''"
| "request_line (Other l) = l"

fun reply :: "os \<Rightarrow> string \<Rightarrow> request \<Rightarrow> string" where
  "reply w base (Get n) =
     (case files w (base @ n) of
        None \<Rightarrow> frame_of [''NOT_FOUND '' @ n]
      | Some f \<Rightarrow> frame_of [''OK'', ''Size: '' @ dec (fsize f mod 2 ^ 32)] @ content (fdata f))"
| "reply w base Get_No_Name = frame_of [''ERROR ( Missing FileName )'']"
| "reply w base List_Dir =
     (case dirs w base of
        None \<Rightarrow> frame_of [''INTENRAL ERROR ( Can'' @ [CHR 0x27] @ ''t open directory)'']
      | Some es \<Rightarrow> frame_of (listed es))"
| "reply w base (Other l) = frame_of [''UNKOWN METHOD'']"

text \<open>
  The requests the server can answer: a name without delimiters, of a file that reads
  without error or of no file (and then short enough for the error message), directory
  entries of at most 255 bytes.
\<close>

fun request_ok :: "os \<Rightarrow> string \<Rightarrow> request \<Rightarrow> bool" where
  "request_ok w base (Get n) \<longleftrightarrow>
     line_ok n \<and> set n \<inter> set delims = {} \<and>
     (case files w (base @ n) of None \<Rightarrow> length n < 242 | Some f \<Rightarrow> reads_ok (fdata f))"
| "request_ok w base Get_No_Name \<longleftrightarrow> True"
| "request_ok w base List_Dir \<longleftrightarrow>
     (case dirs w base of None \<Rightarrow> True | Some es \<Rightarrow> list_all (\<lambda>n. length n \<le> 255) es)"
| "request_ok w base (Other l) \<longleftrightarrow>
     line_ok l \<and> (case strtok delims l of None \<Rightarrow> False
                  | Some (t, _) \<Rightarrow> t \<notin> {''GET'', ''LIST'', ''QUIT''})"

lemma request_line_ok: "request_ok w base x \<Longrightarrow> line_ok (request_line x)"
  by (cases x) (auto simp: line_ok_def)

lemma evolves_reply: "evolves w w' \<Longrightarrow> reply w' base x = reply w base x"
  by (cases x) (auto simp: evolves_env split: option.split)

lemma evolves_request_ok: "evolves w w' \<Longrightarrow> request_ok w' base x = request_ok w base x"
  by (cases x) (auto simp: evolves_env split: option.split)

text \<open>The reply to GET, on the two branches of \<open>doGet\<close>.\<close>

lemma delivers_doGet_missing:
  assumes "files w (base @ n) = None" and "length n < 242" and "fd < next_fd w"
  shows "delivers fd (frame_of [''NOT_FOUND '' @ n]) () w (doGet fd base n)"
proof -
  have "delivers fd (''NOT_FOUND '' @ n @ crlf2) () w
      (bindIO (sendLine fd (''NOT_FOUND '' @ n @ crlf2)) (\<lambda>_. retIO ()))"
    using assms(2,3) by (intro ln.delivers_send_ret) auto
  moreover have "doGet fd base n w =
      bindIO (sendLine fd (''NOT_FOUND '' @ n @ crlf2)) (\<lambda>_. retIO ()) w"
    using assms by (simp add: doGet_def sys_open_rd_def sprintf_to_def)
  ultimately show ?thesis by (simp add: delivers_def frame_of_def)
qed

lemma sprintf_size: "sprintf_to 256 (''Size: '' @ dec (unat (of_nat n :: u32)) @ crlf)
    = Ret (''Size: '' @ dec (n mod 2 ^ 32) @ crlf)"
proof -
  have "length (dec (n mod 2 ^ 32)) \<le> 10"
    by (rule length_dec) (use mod_less_divisor [of "2 ^ 32" n] in simp_all)
  then show ?thesis by (simp add: sprintf_to_def unat_of_nat take_bit_eq_mod)
qed

lemma length_dec_mod: "length (dec (n mod 2 ^ 32)) \<le> 10"
  by (rule length_dec) (use mod_less_divisor [of "2 ^ 32" n] in simp_all)

lemma delivers_send_header:
  assumes "sock < next_fd w"
  shows "delivers sock (frame_of [''OK'', ''Size: '' @ dec (stats w f mod 2 ^ 32)]) () w (send_header sock f)"
proof -
  let ?size = "''Size: '' @ dec (stats w f mod 2 ^ 32) @ crlf"
  have size: "delivers sock (?size @ crlf) () v
      (bindIO (sendLine sock ?size) (\<lambda>_. bindIO (sendLine sock crlf) (\<lambda>_. retIO ())))"
    if "sock < next_fd v" for v
    using that length_dec_mod [of "stats w f"]
    by (intro ln.delivers_send_then ln.delivers_send_ret) (auto intro: evolves_next_fd)
  have "delivers sock ((''OK'' @ crlf) @ ?size @ crlf) () w (send_header sock f)"
    unfolding send_header_def
  proof (rule ln.delivers_send_then)
    fix v assume v: "evolves w v" "sendLine sock (''OK'' @ crlf) w = (Ret (int (length (''OK'' @ crlf))), v)"
    from v(2) have "stats v = stats w" by (rule ln.line_frame)
    then have st: "sys_fstat_size f v = (Ret (stats w f), v)" by (simp add: sys_fstat_size_def)
    from v(1) assms have "sock < next_fd v" by (rule evolves_next_fd)
    then show "delivers sock (?size @ crlf) () v
      (bindIO (sys_fstat_size f) (\<lambda>st_size.
       bindIO (liftR (sprintf_to 256 (''Size: '' @ dec (unat (of_nat st_size :: u32)) @ crlf))) (\<lambda>writeBuffer.
       bindIO (sendLine sock writeBuffer) (\<lambda>_.
       bindIO (sendLine sock crlf) (\<lambda>_. retIO ())))))"
      unfolding sprintf_size
      by (intro delivers_bind_pure [where m = "sys_fstat_size f", OF st] delivers_liftR size)
  qed (use assms in auto)
  then show ?thesis by (simp add: frame_of_def)
qed

lemma send_header_frame:
  assumes "send_header sock f w = (Ret x, w')"
  shows "rds w' = rds w"
  using assms by (auto simp: send_header_def sys_fstat_size_def dest!: ln.line_frame(1) elim!: bindIO_RetE)

lemma delivers_send_file:
  assumes "rds w f = r @ Rd_Data [] # q" and "flowing r" and "f \<noteq> sock" and "sock < next_fd w"
  shows "delivers sock (frame_of [''OK'', ''Size: '' @ dec (stats w f mod 2 ^ 32)] @ stream r) () w
    (send_file sock f)"
  unfolding send_file_def
proof (rule delivers_bind [OF delivers_send_header [OF assms(4)]])
  fix v assume "send_header sock f w = (Ret (), v)"
  then have "rds v = rds w" by (rule send_header_frame)
  with assms(1-3) have "delivers sock (stream r) () v (copy_loop sock f)"
    by (intro delivers_copy_loop) auto
  from delivers_bind [OF this delivers_close] show
    "delivers sock (stream r) () v (bindIO (copy_loop sock f) (\<lambda>_. sys_close f))" by simp
qed

lemma delivers_doGet_found:
  assumes "files w (base @ n) = Some f" and "reads_ok (fdata f)" and "0 \<le> sock" and "sock < next_fd w"
  shows "delivers sock (frame_of [''OK'', ''Size: '' @ dec (fsize f mod 2 ^ 32)] @ content (fdata f)) () w
           (doGet sock base n)"
proof (rule deliversI)
  let ?reply = "frame_of [''OK'', ''Size: '' @ dec (fsize f mod 2 ^ 32)] @ content (fdata f)"
  fix N assume acc: "accepting (wrs w sock) (length ?reply + N)"
  obtain r q where r: "fdata f = r @ Rd_Data [] # q" "flowing r" "stream r = content (fdata f)"
    using assms(2) by (rule reads_okE)
  obtain w1 where op: "sys_open_rd (base @ n) w = (Ret (next_fd w), w1)"
    and w1: "rds w1 = (rds w)(next_fd w := fdata f)" "stats w1 = (stats w)(next_fd w := fsize f)"
      "next_fd w1 = next_fd w + 1" "wrs w1 = wrs w" "outs w1 = outs w"
    using assms(1) by (simp add: sys_open_rd_def)
  from keeps_sys_open_rd [of "base @ n"] op have ev: "evolves w w1" by (rule keepsD)
  have "delivers sock ?reply () w1 (send_file sock (next_fd w))"
    using delivers_send_file [of w1 "next_fd w" r q sock] r w1 assms(3,4) by simp
  moreover have "accepting (wrs w1 sock) (length ?reply + N)" using acc w1 by simp
  ultimately obtain w2 where "send_file sock (next_fd w) w1 = (Ret (), w2)"
    and w2: "outs w2 sock = outs w1 sock @ ?reply"
    "accepting (wrs w2 sock) N" "rds w2 sock = rds w1 sock" "evolves w1 w2"
    by (rule deliversE)
  moreover have "next_fd w \<noteq> -1" using assms(3,4) by simp
  ultimately have "doGet sock base n w = (Ret (), w2)"
    using op by (simp add: doGet_def)
  with w2 w1 ev assms(4) show "\<exists>w'. doGet sock base n w = (Ret (), w') \<and>
      outs w' sock = outs w sock @ ?reply \<and>
      accepting (wrs w' sock) N \<and> rds w' sock = rds w sock \<and> evolves w w'"
    by (intro exI [of _ w2]) (auto intro: evolves_trans)
qed

lemma strtok_GET: "strtok delims (''GET'' @ SPC # n) = Some (''GET'', n)"
  by (rule strtok_word(2)) auto

lemma handle_get: "strtok delims n = Some (n, []) \<Longrightarrow>
    handle_cmd sock base (''GET'' @ SPC # n) = bindIO (doGet sock base n) (\<lambda>_. retIO False)"
  by (simp only: handle_cmd_def strtok_GET option.case prod.case if_True simp_thms)

lemma delivers_then_ret:
  "delivers fd s u w m \<Longrightarrow> delivers fd s y w (bindIO m (\<lambda>_. retIO y))"
  using delivers_bind [of fd s u w m "[]" y "\<lambda>_. retIO y"] by simp

lemma delivers_handle_cmd:
  assumes "request_ok w base x" and "0 \<le> sock" and "sock < next_fd w"
  shows "delivers sock (reply w base x) False w (handle_cmd sock base (request_line x))"
proof (cases x)
  case (Get n)
  with assms(1) have n: "line_ok n" "set n \<inter> set delims = {}" by auto
  from n have "strtok delims n = Some (n, [])"
    by (intro strtok_word(1)) (auto simp: line_ok_def)
  moreover have "delivers sock (reply w base x) () w (doGet sock base n)"
    using assms Get delivers_doGet_missing [of w base n sock] delivers_doGet_found [of w base n _ sock]
    by (cases "files w (base @ n)") simp_all
  ultimately show ?thesis
    using Get delivers_then_ret handle_get [of n sock base] by simp
next
  case Get_No_Name
  have tok: "strtok delims ''GET'' = Some (''GET'', [])" "strtok delims [] = None"
    by (simp_all add: strtok_def)
  have "delivers sock (''ERROR ( Missing FileName )'' @ crlf2) False w
      (bindIO (sendLine sock (''ERROR ( Missing FileName )'' @ crlf2)) (\<lambda>_. retIO False))"
    using assms(3) by (intro ln.delivers_send_ret) auto
  with Get_No_Name show ?thesis by (simp add: handle_cmd_def tok frame_of_def)
next
  case List_Dir
  have tok: "strtok delims ''LIST'' = Some (''LIST'', [])" by (simp add: strtok_def)
  have "delivers sock (case dirs w base of
           None \<Rightarrow> ''INTENRAL ERROR ( Can'' @ [CHR 0x27] @ ''t open directory)'' @ crlf2
         | Some es \<Rightarrow> frame_of (listed es)) () w (doList sock base)"
    using assms List_Dir by (intro delivers_doList) (auto simp: list_all_iff)
  from delivers_then_ret [OF this, of False] List_Dir show ?thesis
    by (simp add: handle_cmd_def tok frame_of_def split: option.splits)
next
  case (Other l)
  with assms(1) obtain t r where "strtok delims l = Some (t, r)" "t \<notin> {''GET'', ''LIST'', ''QUIT''}"
    by (auto split: option.splits)
  moreover have "delivers sock (''UNKOWN METHOD'' @ crlf2) False w
      (bindIO (sendLine sock (''UNKOWN METHOD'' @ crlf2)) (\<lambda>_. retIO False))"
    using assms(3) by (intro ln.delivers_send_ret) auto
  ultimately show ?thesis using Other by (simp add: handle_cmd_def frame_of_def)
qed

section \<open>A whole session\<close>

lemma evolves_quiet_heap: "evolves w w' \<Longrightarrow> quiet_heap w' = quiet_heap w"
  by (simp add: quiet_heap_def evolves_env)

lemma keeps_read_cmd [evolve]: "keeps evolves (read_cmd sock b)"
proof (rule keepsI)
  fix w
  from cmd.rl_state [of sock b w] obtain q where
    "snd (read_cmd sock b w) = with_rds sock q w" "rd_size q \<le> rd_size (rds w sock)" by blast
  then show "evolves w (snd (read_cmd sock b w))" by (auto simp: evolves_def)
qed

lemma keeps_serve [evolve]: "keeps evolves (serve n sock base)"
proof (induction n)
  case (Suc n)
  have "keeps evolves (bindIO (read_cmd sock \<lparr>cap = 255, chars = [], slack = []\<rparr>) (\<lambda>b.
     bindIO (handle_cmd sock base (chars b)) (\<lambda>quit. if quit then retIO () else serve n sock base)))"
    by (intro evolve Suc.IH)
  then show ?case by (simp add: keeps_def)
qed (simp add: keeps_def)

text \<open>One round of the loop that reads the message of the lines \<open>ls\<close>.\<close>

lemma serve_round:
  assumes "lines_ok ls" and "quiet_heap w" and "rds w sock = r @ q" and "flowing r"
    and "stream r = frame_of ls @ t"
  obtains r' where "flowing r'" and "stream r' = t"
    and "serve (Suc n) sock base w =
      bindIO (handle_cmd sock base (body_of ls)) (\<lambda>quit.
        if quit then retIO () else serve n sock base) (with_rds sock (r' @ q) w)"
proof -
  from cmd.rl_frame [OF assms, of "\<lparr>cap = 255, chars = [], slack = []\<rparr>"] obtain r' k where
    "flowing r'" "stream r' = t" and
    "read_cmd sock \<lparr>cap = 255, chars = [], slack = []\<rparr> w = (Ret \<lparr>cap = k, chars = body_of ls, slack = [LF, CR, LF]\<rparr>, with_rds sock (r' @ q) w)"
    by auto
  with that show ?thesis by simp
qed

lemma handle_quit: "handle_cmd sock base ''QUIT'' w = (Ret True, w)"
proof -
  have "strtok delims ''QUIT'' = Some (''QUIT'', [])" by (simp add: strtok_def)
  then show ?thesis by (simp add: handle_cmd_def)
qed

lemma with_rds_spec:
  "reply (with_rds fd q w) base x = reply w base x"
  "request_ok (with_rds fd q w) base x = request_ok w base x"
  by (cases x; simp split: option.split)+

text \<open>
  The requests of a session are answered one after the other, and the rest of the input
  is left to the next rounds.
\<close>

lemma serve_requests:
  assumes "list_all (request_ok w base) xs" and "0 \<le> sock" and "sock < next_fd w"
    and "quiet_heap w" and "rds w sock = r @ q" and "flowing r"
    and "stream r = concat (map (\<lambda>x. frame_of [request_line x]) xs) @ t"
    and "accepting (wrs w sock) (length (concat (map (reply w base) xs)))"
  shows "\<exists>w' r'. serve (length xs + n) sock base w = serve n sock base w' \<and>
           outs w' sock = outs w sock @ concat (map (reply w base) xs) \<and>
           rds w' sock = r' @ q \<and> flowing r' \<and> stream r' = t \<and> quiet_heap w' \<and> sock < next_fd w'"
  using assms
proof (induction xs arbitrary: w r)
  case Nil
  then show ?case by (intro exI [of _ w] exI [of _ r]) simp
next
  case (Cons x xs)
  let ?rest = "concat (map (\<lambda>x. frame_of [request_line x]) xs) @ t" and ?m = "length xs + n"
  from Cons.prems(1) have x: "request_ok w base x" and xs: "list_all (request_ok w base) xs" by auto
  from request_line_ok [OF x] have "lines_ok [request_line x]" by (simp add: lines_ok_def)
  moreover have "stream r = frame_of [request_line x] @ ?rest" using Cons.prems(7) by simp
  ultimately obtain r' where r': "flowing r'" "stream r' = ?rest" and
    run: "serve (Suc ?m) sock base w = bindIO (handle_cmd sock base (body_of [request_line x])) (\<lambda>quit.
        if quit then retIO () else serve ?m sock base) (with_rds sock (r' @ q) w)"
    using serve_round [OF _ Cons.prems(4-6)] by blast
  let ?w = "with_rds sock (r' @ q) w"
  have "delivers sock (reply w base x) False ?w (handle_cmd sock base (request_line x))"
    using delivers_handle_cmd [of ?w base x sock] x Cons.prems(2,3) by (simp add: with_rds_spec)
  moreover have "accepting (wrs ?w sock)
      (length (reply w base x) + length (concat (map (reply w base) xs)))"
    using Cons.prems(8) by simp
  ultimately obtain w1 where
    h: "handle_cmd sock base (request_line x) ?w = (Ret False, w1)" and
    w1: "outs w1 sock = outs ?w sock @ reply w base x"
      "accepting (wrs w1 sock) (length (concat (map (reply w base) xs)))"
      "rds w1 sock = rds ?w sock" "evolves ?w w1"
    by (rule deliversE)
  have same: "reply w1 base = reply w base" "request_ok w1 base = request_ok w base"
    using evolves_reply [OF w1(4)] evolves_request_ok [OF w1(4)]
    by (simp_all add: with_rds_spec fun_eq_iff)
  obtain w' r2 where "serve ?m sock base w1 = serve n sock base w'"
      "outs w' sock = outs w1 sock @ concat (map (reply w1 base) xs)"
      "rds w' sock = r2 @ q" "flowing r2" "stream r2 = t" "quiet_heap w'" "sock < next_fd w'"
    using Cons.prems(2-4) r' w1 xs
      Cons.IH [of w1 r'] by (auto simp: same evolves_quiet_heap evolves_next_fd)
  moreover have "serve (Suc ?m) sock base w = serve ?m sock base w1"
    using run h by (simp add: bindIO_def)
  ultimately show ?case using w1(1) by (intro exI [of _ w'] exI [of _ r2]) (simp add: same)
qed

lemma serve_quit:
  assumes "quiet_heap w" and "rds w sock = r @ q" and "flowing r" and "stream r = frame_of [''QUIT'']"
  shows "serve (Suc n) sock base w = (Ret (), with_rds sock q w)"
proof -
  have "lines_ok [''QUIT'']" by (simp add: lines_ok_def line_ok_def)
  moreover have "stream r = frame_of [''QUIT''] @ []" using assms(4) by simp
  ultimately obtain r' where "flowing r'" "stream r' = []" and
    run: "serve (Suc n) sock base w = bindIO (handle_cmd sock base (body_of [''QUIT''])) (\<lambda>quit.
        if quit then retIO () else serve n sock base) (with_rds sock (r' @ q) w)"
    using serve_round [OF _ assms(1-3)] by blast
  then have "r' = []" by (simp add: flowing_stream_Nil)
  with run show ?thesis by (simp add: handle_quit)
qed

text \<open>End of file where a command should start: \<open>strtok\<close> finds no token in the empty string.\<close>

lemma serve_eof:
  assumes "rds w sock = Rd_Data [] # q"
  shows "serve (Suc n) sock base w = (Crash Null_Deref, with_rds sock q w)"
proof -
  have "read_cmd sock \<lparr>cap = 255, chars = [], slack = []\<rparr> w =
      (Ret \<lparr>cap = 255, chars = [], slack = []\<rparr>, with_rds sock q w)"
    using assms by (rule cmd.rl_end(1))
  moreover have "strtok delims [] = None" by (simp add: strtok_None_iff)
  ultimately show ?thesis by (simp add: handle_cmd_def)
qed

lemma serve_waits:
  "rds w sock = [] \<Longrightarrow> serve (Suc n) sock base w = (Blocked, w)"
  by (simp add: cmd.rl_blocked)

text \<open>The number of rounds: each one consumes an answer of the socket.\<close>

lemma unbounded_copy_loop: "fuelled (fst (copy_loop sock fd w))"
proof (induction sock fd w rule: copy_loop.induct)
  case (1 sock fd w)
  then show ?case
    by (subst copy_loop.simps, intro unbounded_bind_at)
      (auto simp: Let_def intro!: unbounded_bind_at unboundedD [OF unbounded_sys(1)] chunk.wl_fuelled)
qed

lemma unbounded_list_loop [unbd]: "unbounded (list_loop sock ents)"
  by (induction ents) (auto intro!: unbd)

lemma unbounded_handle_cmd [unbd]: "unbounded (handle_cmd sock base s)"
proof -
  have "unbounded (copy_loop sock f)" for f
    by (simp add: unbounded_def unbounded_copy_loop)
  then have send: "unbounded (send_file sock f)" for f
    unfolding send_file_def send_header_def by (intro unbd)
  have "unbounded (doGet sock base n)" for n
    unfolding doGet_def using send by (auto intro!: unbd)
  moreover have "unbounded (doList sock base)"
    unfolding doList_def by (auto intro!: unbd split: option.split)
  ultimately show ?thesis
    unfolding handle_cmd_def by (auto intro!: unbd split: option.split prod.split)
qed

lemma unbounded_read_cmd: "fuelled (fst (read_cmd sock b w))"
proof (induction sock b w rule: read_cmd.induct)
  case (1 sock b w)
  have "fuelled (fst (append_check b bs w'))" for bs and w' :: os
    by (simp add: append_check_run Let_def)
  with 1 show ?case
    by (subst read_cmd.simps, intro unbounded_bind_at)
      (auto split: option.split intro!: unbounded_bind_at unboundedD [OF unbounded_sys(1)])
qed

lemma serve_fuel:
  "rd_size (rds w sock) < n \<Longrightarrow> sock < next_fd w \<Longrightarrow> fuelled (fst (serve n sock base w))"
proof (induction n arbitrary: w)
  case (Suc n)
  have "fuelled (fst (bindIO (handle_cmd sock base (chars b)) (\<lambda>quit. if quit then retIO () else serve n sock base) w1))"
    if rd: "read_cmd sock \<lparr>cap = 255, chars = [], slack = []\<rparr> w = (Ret b, w1)" for b w1
  proof (rule unbounded_bind_at)
    show "fuelled (fst (handle_cmd sock base (chars b) w1))"
      by (rule unboundedD [OF unbounded_handle_cmd])
    fix quit w2 assume h: "handle_cmd sock base (chars b) w1 = (Ret quit, w2)"
    have lt: "rd_size (rds w1 sock) < rd_size (rds w sock)"
      using cmd.rl_state [of sock "\<lparr>cap = 255, chars = [], slack = []\<rparr>" w] rd by auto
    have ev: "evolves w w1" "evolves w1 w2"
      using keepsD [OF keeps_read_cmd rd] keepsD [OF keeps_handle_cmd h] .
    then have "sock < next_fd w1" using Suc.prems(2) by (auto intro: evolves_next_fd)
    then have "rd_size (rds w2 sock) \<le> rd_size (rds w1 sock)" "sock < next_fd w2"
      using ev(2) by (auto simp: evolves_def)
    with lt Suc.prems Suc.IH [of w2] show "fuelled (fst ((if quit then retIO () else serve n sock base) w2))"
      by auto
  qed
  then show ?case
    by (simp only: serve.simps) (rule unbounded_bind_at [OF unbounded_read_cmd])
qed simp

section \<open>Properties\<close>

text \<open>The rounds that \<open>start_protocol\<close> allows for cover the requests of any session.\<close>

lemma length_frames: "length xs \<le> length (concat (map (\<lambda>x. frame_of [request_line x]) xs))"
  by (induction xs) (auto simp: frame_of_def)

lemma start_protocol_requests:
  assumes "list_all (request_ok w base) xs" and "0 \<le> sock" and "sock < next_fd w"
    and "quiet_heap w" and "rds w sock = r @ q" and "flowing r"
    and "stream r = concat (map (\<lambda>x. frame_of [request_line x]) xs) @ t"
    and "accepting (wrs w sock) (length (concat (map (reply w base) xs)))"
  shows "\<exists>w' r' n. start_protocol sock base w = serve (Suc n) sock base w' \<and>
           outs w' sock = outs w sock @ concat (map (reply w base) xs) \<and>
           rds w' sock = r' @ q \<and> flowing r' \<and> stream r' = t \<and> quiet_heap w'"
proof -
  have "length xs \<le> length (stream r)" using length_frames [of xs] assms(7) by simp
  also have "\<dots> \<le> rd_size (rds w sock)" using length_stream_le [of r] assms(5) by simp
  finally obtain n where "Suc (rd_size (rds w sock)) = length xs + Suc n"
    by (metis add_Suc_right le_iff_add)
  then show ?thesis
    unfolding start_protocol_def using serve_requests [OF assms, of "Suc n"] by auto
qed

text \<open>A server with one file, and a client that fetches it, lists the directory and quits.\<close>

definition demo_srv :: os where
  "demo_srv = idle\<lparr>
     files := (\<lambda>_. None)(''/srv/a'' := Some \<lparr>fsize = 3, fdata = [Rd_Data ''x'', Rd_Data ''yz'', Rd_Data []]\<rparr>),
     dirs := (\<lambda>_. None)(''/srv/'' := Some [''.'', ''..'', ''a'']),
     rds := (\<lambda>_. [])(7 := [Rd_Data (''GET a'' @ crlf2 @ ''LI''), Rd_Data (''ST'' @ crlf2), Rd_Data (''QUIT'' @ crlf2)]),
     wrs := (\<lambda>_. [])(7 := replicate 64 (Wr_Acc 2))\<rparr>"

lemma demo_srv_sel [simp]:
  "files demo_srv ''/srv/a'' = Some \<lparr>fsize = 3, fdata = [Rd_Data ''x'', Rd_Data ''yz'', Rd_Data []]\<rparr>"
  "dirs demo_srv ''/srv/'' = Some [''.'', ''..'', ''a'']" "next_fd demo_srv = 8"
  "rds demo_srv 7 = [Rd_Data (''GET a'' @ crlf2 @ ''LI''), Rd_Data (''ST'' @ crlf2), Rd_Data (''QUIT'' @ crlf2)]"
  "outs demo_srv 7 = []" "quiet_heap demo_srv" "wrs demo_srv 7 = replicate 64 (Wr_Acc 2)"
  by (simp_all add: demo_srv_def quiet_heap_def)

lemma dec_3: "dec 3 = ''3''"
  by code_simp

lemma demo_srv_out:
  "concat (map (reply demo_srv ''/srv/'') [Get ''a'', List_Dir]) =
     ''OK'' @ crlf @ ''Size: 3'' @ crlf2 @ ''xyz'' @ ''a'' @ crlf2"
  "concat (map (reply demo_srv ''/srv/'') [List_Dir]) = ''a'' @ crlf2"
  by (simp_all add: frame_of_def listed_def dec_3)

lemma demo_srv_ok: "list_all (request_ok demo_srv ''/srv/'') [Get ''a'', List_Dir]"
  by (simp add: line_ok_def)

text \<open>C4: The server answers a session of requests completely and in order: whatever the
  segmentation of the input and however little each write accepts, the bytes it sends are
  the concatenation of the replies the file system determines, and it returns at QUIT.\<close>

theorem server_session:
  assumes "list_all (request_ok w base) xs" and "0 \<le> sock" and "sock < next_fd w"
    and "quiet_heap w" and "rds w sock = r @ q" and "flowing r"
    and "stream r = concat (map (\<lambda>x. frame_of [request_line x]) xs) @ frame_of [''QUIT'']"
    and "accepting (wrs w sock) (length (concat (map (reply w base) xs)))"
  shows "\<exists>w'. start_protocol sock base w = (Ret (), w') \<and>
           outs w' sock = outs w sock @ concat (map (reply w base) xs) \<and> rds w' sock = q"
proof -
  from start_protocol_requests [OF assms] obtain w' r' n where
    "start_protocol sock base w = serve (Suc n) sock base w'"
    "outs w' sock = outs w sock @ concat (map (reply w base) xs)"
    "rds w' sock = r' @ q" "flowing r'" "stream r' = frame_of [''QUIT'']" "quiet_heap w'" by blast
  with serve_quit [of w' sock r' q n base] show ?thesis by auto
qed

lemma server_session_witness:
  "\<exists>w'. start_protocol 7 ''/srv/'' demo_srv = (Ret (), w') \<and>
     outs w' 7 = ''OK'' @ crlf @ ''Size: 3'' @ crlf2 @ ''xyz'' @ ''a'' @ crlf2"
proof -
  have "\<exists>w'. start_protocol 7 ''/srv/'' demo_srv = (Ret (), w') \<and> outs w' 7 = outs demo_srv 7 @
      concat (map (reply demo_srv ''/srv/'') [Get ''a'', List_Dir]) \<and> rds w' 7 = []"
    by (rule server_session [OF demo_srv_ok, of 7 "rds demo_srv 7"], unfold demo_srv_out)
      (simp_all add: frame_of_def accepting_replicate)
  then show ?thesis unfolding demo_srv_out by auto
qed

text \<open>C36: A client that closes the connection without QUIT, as \<open>get_list\<close> does, gets its
  replies and then kills the serving process: \<open>strtok\<close> finds no token in the empty
  command and \<open>strcmp\<close> reads the null pointer.\<close>

theorem server_crashes_at_eof:
  assumes "list_all (request_ok w base) xs" and "0 \<le> sock" and "sock < next_fd w"
    and "quiet_heap w" and "rds w sock = r @ Rd_Data [] # q" and "flowing r"
    and "stream r = concat (map (\<lambda>x. frame_of [request_line x]) xs)"
    and "accepting (wrs w sock) (length (concat (map (reply w base) xs)))"
  shows "\<exists>w'. start_protocol sock base w = (Crash Null_Deref, w') \<and>
           outs w' sock = outs w sock @ concat (map (reply w base) xs)"
proof -
  have "stream r = concat (map (\<lambda>x. frame_of [request_line x]) xs) @ []" using assms(7) by simp
  from start_protocol_requests [OF assms(1-6) this assms(8)] obtain w' r' n where
    "start_protocol sock base w = serve (Suc n) sock base w'"
    "outs w' sock = outs w sock @ concat (map (reply w base) xs)"
    "rds w' sock = r' @ Rd_Data [] # q" "flowing r'" "stream r' = []" by blast
  with serve_eof [of w' sock q n base] show ?thesis by (auto simp: flowing_stream_Nil)
qed

lemma server_crashes_at_eof_witness:
  "\<exists>w'. start_protocol 7 ''/srv/'' (with_rds 7 [Rd_Data (''LIST'' @ crlf2), Rd_Data []] demo_srv) =
     (Crash Null_Deref, w') \<and> outs w' 7 = ''a'' @ crlf2"
proof -
  let ?w = "with_rds 7 [Rd_Data (''LIST'' @ crlf2), Rd_Data []] demo_srv"
  have out: "concat (map (reply ?w ''/srv/'') [List_Dir]) = ''a'' @ crlf2"
    using demo_srv_out(2) by (simp only: with_rds_spec list.map)
  have "list_all (request_ok ?w ''/srv/'') [List_Dir]"
    using demo_srv_ok by (simp add: with_rds_spec)
  then have "\<exists>w'. start_protocol 7 ''/srv/'' ?w = (Crash Null_Deref, w') \<and> outs w' 7 = outs ?w 7 @
      concat (map (reply ?w ''/srv/'') [List_Dir])"
    by (rule server_crashes_at_eof [of _ _ _ _ "[Rd_Data (''LIST'' @ crlf2)]" "[]"], unfold out)
      (simp_all add: frame_of_def accepting_replicate)
  then show ?thesis unfolding out by simp
qed

text \<open>Serving one connection always ends for want of input, by a return or by a crash:
  the rounds of the protocol loop are bounded by the input.\<close>

theorem start_protocol_ends:
  assumes "sock < next_fd w"
  shows "fst (start_protocol sock base w) \<noteq> No_Fuel"
  using serve_fuel [of w sock "Suc (rd_size (rds w sock))" base] assms
  by (simp add: start_protocol_def fuelled_def)

lemma start_protocol_ends_witness: "fst (start_protocol 7 ''/srv/'' demo_srv) \<noteq> No_Fuel"
  by (rule start_protocol_ends) simp

text \<open>
  C14: When reading a command is safe. The test for the end of a command looks at up to four bytes
  before its heap block while the command has fewer than four characters (server.c 96 to 98), and
  cuts the command off there when it finds the terminator. Exactly when those bytes never complete
  CR LF CR LF, no input at all can make the reading fault: it waits for more or returns a
  well-formed string within its block. With other bytes before a block some input makes it
  fault.
\<close>

theorem read_cmd_safe:
  "(\<forall>q. fst (read_cmd sock \<lparr>cap = 255, chars = [], slack = []\<rparr> (with_rds sock q w)) = Blocked \<or>
     (\<exists>b. fst (read_cmd sock \<lparr>cap = 255, chars = [], slack = []\<rparr> (with_rds sock q w)) = Ret b \<and> wf_cbuf b)) \<longleftrightarrow>
   harmless_heap w"
proof
  assume "harmless_heap w"
  then have "harmless_heap (with_rds sock q w)" for q by (simp add: harmless_heap_def)
  from cmd.rl_safe [OF this] show "\<forall>q. fst (read_cmd sock \<lparr>cap = 255, chars = [], slack = []\<rparr> (with_rds sock q w)) = Blocked \<or>
     (\<exists>b. fst (read_cmd sock \<lparr>cap = 255, chars = [], slack = []\<rparr> (with_rds sock q w)) = Ret b \<and> wf_cbuf b)"
    by (simp add: wf_cbuf_def)
next
  assume ok: "\<forall>q. fst (read_cmd sock \<lparr>cap = 255, chars = [], slack = []\<rparr> (with_rds sock q w)) = Blocked \<or>
     (\<exists>b. fst (read_cmd sock \<lparr>cap = 255, chars = [], slack = []\<rparr> (with_rds sock q w)) = Ret b \<and> wf_cbuf b)"
  show "harmless_heap w"
  proof (rule ccontr)
    assume "\<not> harmless_heap w"
    from cmd.rl_fault [OF this, of "\<lparr>cap = 255, chars = [], slack = []\<rparr>" sock] obtain q v where
      "read_cmd sock \<lparr>cap = 255, chars = [], slack = []\<rparr> (with_rds sock q w) = (Crash Out_Of_Bounds, v)" by auto
    with ok [rule_format, of q] show False by simp
  qed
qed

text \<open>A heap on which the byte before each block is a CR: LF, CR, LF from a client is enough.\<close>

lemma read_cmd_safe_witness:
  "\<exists>q. \<not> (fst (read_cmd 7 \<lparr>cap = 255, chars = [], slack = []\<rparr> (with_rds 7 q (idle\<lparr>heap_pre := \<lambda>_ _. CR\<rparr>))) = Blocked \<or>
     (\<exists>b. fst (read_cmd 7 \<lparr>cap = 255, chars = [], slack = []\<rparr> (with_rds 7 q (idle\<lparr>heap_pre := \<lambda>_ _. CR\<rparr>))) = Ret b \<and> wf_cbuf b))"
proof -
  have "\<not> harmless_heap (idle\<lparr>heap_pre := \<lambda>_ _. CR\<rparr>)"
    unfolding harmless_heap_def by (intro notI, drule spec [of _ 3]) (simp add: completes_end_def)
  with read_cmd_safe [of 7 "idle\<lparr>heap_pre := \<lambda>_ _. CR\<rparr>"] show ?thesis by blast
qed

text \<open>C15: The command that is read does not depend on how the network cut the bytes: from any
  segmentation of a message followed by more input, the loop returns the text of the
  message and leaves exactly the rest.\<close>

theorem read_cmd_segmentation:
  assumes "lines_ok ls" and "quiet_heap w" and "rds w sock = r @ q" and "flowing r"
    and "stream r = frame_of ls @ t"
  shows "\<exists>b' r'. read_cmd sock \<lparr>cap = 255, chars = [], slack = []\<rparr> w = (Ret b', with_rds sock (r' @ q) w) \<and>
           chars b' = body_of ls \<and> flowing r' \<and> stream r' = t"
proof -
  from cmd.rl_frame [OF assms, of "\<lparr>cap = 255, chars = [], slack = []\<rparr>"] obtain r' n where
    "flowing r'" "stream r' = t" "read_cmd sock \<lparr>cap = 255, chars = [], slack = []\<rparr> w =
      (Ret \<lparr>cap = n, chars = body_of ls, slack = [LF, CR, LF]\<rparr>, with_rds sock (r' @ q) w)" by auto
  then show ?thesis by auto
qed

lemma read_cmd_segmentation_witness:
  "\<exists>b' r'. read_cmd 7 \<lparr>cap = 255, chars = [], slack = []\<rparr> demo_srv = (Ret b', with_rds 7 (r' @ []) demo_srv) \<and>
     chars b' = ''GET a'' \<and> flowing r' \<and> stream r' = ''LIST'' @ crlf2 @ ''QUIT'' @ crlf2"
  using read_cmd_segmentation [of "[''GET a'']" demo_srv 7 "rds demo_srv 7" "[]"
      "''LIST'' @ crlf2 @ ''QUIT'' @ crlf2"]
  by (simp add: lines_ok_def line_ok_def frame_of_def)

text \<open>Without write errors \<open>sendLine\<close> puts a prefix of its line on the wire, and when it
  returns it has put the whole line there, once, and reports its length.\<close>

theorem sendLine_prefix:
  assumes "s \<noteq> []" and "length s < 2 ^ 31" and "no_wr_err (wrs w fd)"
  shows "\<exists>m. outs (snd (sendLine fd s w)) fd = outs w fd @ take m s \<and> m \<le> length s \<and>
    (fst (sendLine fd s w) = Blocked \<or> fst (sendLine fd s w) = Ret (int (length s)) \<and> m = length s)"
  using assms by (rule ln.line_prefix)

lemma sendLine_prefix_witness:
  "\<exists>m. outs (snd (sendLine 7 ''OK'' demo_srv)) 7 = outs demo_srv 7 @ take m ''OK'' \<and> m \<le> length ''OK'' \<and>
    (fst (sendLine 7 ''OK'' demo_srv) = Blocked \<or>
     fst (sendLine 7 ''OK'' demo_srv) = Ret (int (length ''OK'')) \<and> m = length ''OK'')"
  by (rule sendLine_prefix) (simp_all add: no_wr_err_def)

text \<open>C39: A write error after \<open>k\<close> bytes is not noticed: the unsigned counter steps back by
  one, byte \<open>k - 1\<close> is sent twice, and the function reports success.\<close>

theorem sendLine_resends:
  assumes "wrs w fd = Wr_Acc k # Wr_Err # r" and "0 < k" and "k < length s"
    and "length s < 2 ^ 31" and "accepting r (length s)"
  shows "\<exists>w'. sendLine fd s w = (Ret (int (length s)), w') \<and>
           outs w' fd = outs w fd @ take k s @ drop (k - 1) s"
  using assms by (rule ln.line_resend)

lemma sendLine_resends_witness:
  "\<exists>w'. sendLine 7 ''LIST'' (idle\<lparr>wrs := (\<lambda>_. [])(7 := Wr_Acc 2 # Wr_Err # replicate 4 (Wr_Acc 4))\<rparr>) =
     (Ret 4, w') \<and> outs w' 7 = ''LIIST''"
  using sendLine_resends [of "idle\<lparr>wrs := (\<lambda>_. [])(7 := Wr_Acc 2 # Wr_Err # replicate 4 (Wr_Acc 4))\<rparr>"
      7 2 "replicate 4 (Wr_Acc 4)" "''LIST''"]
  by (simp add: accepting_replicate)

text \<open>C37: A request for a missing file overflows the 256-byte reply buffer exactly when its
  name has 242 characters or more.\<close>

theorem not_found_overflow:
  assumes "files w (base @ name) = None"
  shows "fst (doGet sock base name w) = Crash Buffer_Overflow \<longleftrightarrow> 242 \<le> length name"
proof -
  have run: "doGet sock base name w = bindIO (liftR (sprintf_to 256 (''NOT_FOUND '' @ name @ crlf2)))
      (\<lambda>b. bindIO (sendLine sock b) (\<lambda>_. retIO ())) w"
    using assms by (simp add: doGet_def sys_open_rd_def bindIO_def)
  show ?thesis
  proof (cases "242 \<le> length name")
    case True
    then show ?thesis unfolding run by (simp add: sprintf_to_def)
  next
    case False
    then show ?thesis
      using ln.line_safe [of sock "''NOT_FOUND '' @ name @ crlf2" w]
      unfolding run by (cases "sendLine sock (''NOT_FOUND '' @ name @ crlf2) w") (auto simp: sprintf_to_def)
  qed
qed

lemma not_found_overflow_witness:
  "fst (doGet 7 ''/srv/'' (replicate 242 (CHR ''x'')) idle) = Crash Buffer_Overflow"
  using not_found_overflow [of idle "''/srv/''" "replicate 242 (CHR ''x'')" 7] by simp

text \<open>A read error on the file counts as 2^32 - 1 bytes read: after the header the server
  writes from beyond its buffer.\<close>

theorem get_read_error:
  assumes "files w (base @ name) = Some f" and "fdata f = Rd_Err # q"
    and "0 \<le> sock" and "sock < next_fd w"
    and "accepting (wrs w sock) (length (frame_of [''OK'', ''Size: '' @ dec (fsize f mod 2 ^ 32)]))"
  shows "\<exists>w'. doGet sock base name w = (Crash Out_Of_Bounds, w') \<and>
    outs w' sock = outs w sock @ frame_of [''OK'', ''Size: '' @ dec (fsize f mod 2 ^ 32)]"
proof -
  let ?h = "frame_of [''OK'', ''Size: '' @ dec (fsize f mod 2 ^ 32)]" and ?fd = "next_fd w"
  obtain w1 where op: "sys_open_rd (base @ name) w = (Ret ?fd, w1)"
    and w1: "rds w1 ?fd = fdata f" "stats w1 ?fd = fsize f" "next_fd w1 = ?fd + 1" "wrs w1 = wrs w" "outs w1 = outs w"
    using assms(1) by (simp add: sys_open_rd_def)
  have "delivers sock ?h () w1 (send_header sock ?fd)"
    using delivers_send_header [of sock w1 ?fd] w1 assms(4) by simp
  moreover have "accepting (wrs w1 sock) (length ?h + 0)" using assms(5) w1 by simp
  ultimately obtain w2 where h: "send_header sock ?fd w1 = (Ret (), w2)" and o2: "outs w2 sock = outs w1 sock @ ?h"
    by (rule deliversE)
  have "rds w2 ?fd = Rd_Err # q" using send_header_frame [OF h] w1(1) assms(2) by simp
  then have rd: "sys_read ?fd 102400 w2 = (Ret None, with_rds ?fd q w2)"
    by (simp add: sys_read_def with_rds_def)
  have "chunk_loop sock [] (- 1) 0 (with_rds ?fd q w2) = (Crash Out_Of_Bounds, with_rds ?fd q w2)"
    by (rule chunk.wl_overrun) (simp_all add: unat_minus1_32 word_gt_0)
  then have "copy_loop sock ?fd w2 = (Crash Out_Of_Bounds, with_rds ?fd q w2)"
    using rd by (subst copy_loop.simps) (simp add: word_gt_0)
  with h have "send_file sock ?fd w1 = (Crash Out_Of_Bounds, with_rds ?fd q w2)"
    by (simp add: send_file_def bindIO_def)
  moreover have "?fd \<noteq> -1" using assms(3,4) by simp
  ultimately have "doGet sock base name w = (Crash Out_Of_Bounds, with_rds ?fd q w2)"
    using op by (simp add: doGet_def)
  with o2 w1 show ?thesis by simp
qed

lemma get_read_error_witness:
  "\<exists>w'. doGet 7 ''/srv/'' ''b'' (demo_srv\<lparr>files := (\<lambda>_. None)(''/srv/b'' := Some \<lparr>fsize = 3, fdata = [Rd_Err]\<rparr>)\<rparr>) =
     (Crash Out_Of_Bounds, w') \<and> outs w' 7 = ''OK'' @ crlf @ ''Size: 3'' @ crlf2"
  using get_read_error [of "demo_srv\<lparr>files := (\<lambda>_. None)(''/srv/b'' := Some \<lparr>fsize = 3, fdata = [Rd_Err]\<rparr>)\<rparr>"
      "''/srv/''" "''b''" "\<lparr>fsize = 3, fdata = [Rd_Err]\<rparr>" "[]" 7]
  by (simp add: frame_of_def dec_3 accepting_replicate)

text \<open>The path the server opens is the base directory followed by the name as it came
  from the network, so a name with \<open>..\<close> in it reaches files outside the directory.\<close>

theorem get_opens_any_path:
  assumes "line_ok n" and "set n \<inter> set delims = {}" and "files w (base @ n) = Some f"
  shows "prefix (opened w @ [base @ n]) (opened (snd (handle_cmd sock base (''GET '' @ n) w)))"
proof -
  from assms(1,2) have "strtok delims n = Some (n, [])"
    by (intro strtok_word(1)) (auto simp: line_ok_def)
  then have run: "handle_cmd sock base (''GET '' @ n) w = bindIO (doGet sock base n) (\<lambda>_. retIO False) w"
    using handle_get [of n sock base] by simp
  obtain w1 where op: "sys_open_rd (base @ n) w = (Ret (next_fd w), w1)"
    and w1: "opened w1 = opened w @ [base @ n]"
    using assms(3) by (simp add: sys_open_rd_def)
  have "keeps evolves (if next_fd w = -1 then
         bindIO (liftR (sprintf_to 256 (''NOT_FOUND '' @ n @ crlf2))) (\<lambda>writeBuffer.
         bindIO (sendLine sock writeBuffer) (\<lambda>_. retIO ()))
       else send_file sock (next_fd w))" (is "keeps _ ?then")
    by (intro evolve)
  then have "evolves w1 (snd (?then w1))" by (simp only: keeps_def)
  moreover have "snd (handle_cmd sock base (''GET '' @ n) w) = snd (doGet sock base n w)"
    unfolding run by (cases "doGet sock base n w") (auto simp: bindIO_def split: res.splits)
  ultimately have "evolves w1 (snd (handle_cmd sock base (''GET '' @ n) w))"
    using op by (simp add: doGet_def)
  with w1 show ?thesis by (simp add: evolves_def)
qed

lemma get_opens_any_path_witness:
  "prefix [''/srv/../etc/passwd'']
     (opened (snd (handle_cmd 7 ''/srv/'' ''GET ../etc/passwd''
       (idle\<lparr>files := (\<lambda>_. None)(''/srv/../etc/passwd'' := Some \<lparr>fsize = 9, fdata = []\<rparr>)\<rparr>))))"
  using get_opens_any_path [of "''../etc/passwd''"
      "idle\<lparr>files := (\<lambda>_. None)(''/srv/../etc/passwd'' := Some \<lparr>fsize = 9, fdata = []\<rparr>)\<rparr>"
      "''/srv/''" "\<lparr>fsize = 9, fdata = []\<rparr>" 7]
  by (simp add: line_ok_def)

text \<open>One round of the accept loop uses up an answer of \<open>accept\<close> and never gives one back.\<close>

lemma keeps_start_protocol [evolve]: "keeps evolves (start_protocol sock base)"
  by (rule keepsI) (unfold start_protocol_def, rule keeps_serve [unfolded keeps_def, rule_format])

definition clients_known :: "os \<Rightarrow> bool" where
  "clients_known w \<longleftrightarrow> (\<forall>a\<in>set (accepts w). case a of Acc_Err \<Rightarrow> True | Acc c _ \<Rightarrow> c < next_fd w)"

lemma clients_known_evolves:
  assumes "evolves w w'" and "clients_known w"
  shows "clients_known w'" and "length (accepts w') \<le> length (accepts w)"
proof -
  from assms(1) have "suffix (accepts w') (accepts w)" "next_fd w \<le> next_fd w'"
    by (simp_all add: evolves_def)
  then have "set (accepts w') \<subseteq> set (accepts w)" "length (accepts w') \<le> length (accepts w)"
    by (auto dest: set_mono_suffix suffix_length_le)
  with assms(2) \<open>next_fd w \<le> next_fd w'\<close> show "clients_known w'" "length (accepts w') \<le> length (accepts w)"
    by (fastforce simp: clients_known_def split: acc.splits)+
qed

lemma clients_known_step:
  assumes "accepts w = a # r" and "clients_known w"
  shows "clients_known (w\<lparr>accepts := r\<rparr>)"
proof -
  have "next_fd (w\<lparr>accepts := r\<rparr>) = next_fd w" by simp
  with assms show ?thesis unfolding clients_known_def by (simp only:) simp
qed

definition only_one :: "int res \<Rightarrow> bool" where
  "only_one r \<longleftrightarrow> fuelled r \<and> (\<forall>x. r = Ret x \<longrightarrow> x = 1)"

lemma only_one_simps [simp]:
  "only_one (Ret x) \<longleftrightarrow> x = 1" "only_one Blocked" "only_one (Crash f)" "only_one (Exit n)" "\<not> only_one No_Fuel"
  by (simp_all add: only_one_def)

lemma only_one_bind:
  assumes "fuelled (fst (m w))" and "\<And>x w'. m w = (Ret x, w') \<Longrightarrow> only_one (fst (k x w'))"
  shows "only_one (fst (bindIO m k w))"
  using assms by (cases "m w") (auto simp: bindIO_def split: res.splits)

lemma accept_loop_only_one:
  "length (accepts w) < n \<Longrightarrow> clients_known w \<Longrightarrow> only_one (fst (accept_loop n ss base w))"
proof (induction n arbitrary: w)
  case (Suc n)
  have next_round: "only_one (fst (accept_loop n ss base v))"
    if "evolves u v" "length (accepts u) < n" "clients_known u" for u v
    using that clients_known_evolves [of u v] by (intro Suc.IH) auto
  show ?case
  proof (cases "accepts w")
    case Nil
    then show ?thesis by (simp add: waitConnection4_run)
  next
    case (Cons a r)
    let ?u = "w\<lparr>accepts := r\<rparr>"
    have u: "length (accepts ?u) < n" "clients_known ?u"
      using Suc.prems Cons clients_known_step by auto
    show ?thesis
    proof (cases "\<exists>c addr. a = Acc c addr \<and> c \<noteq> -1")
      case False
      then show ?thesis using Cons next_round [OF evolves_refl u]
        by (auto simp: waitConnection4_run split: acc.splits)
    next
      case True
      then obtain c addr where a: "a = Acc c addr" "c \<noteq> -1" by blast
      with Cons Suc.prems(2) have "c < next_fd ?u" by (simp add: clients_known_def)
      have "only_one (fst (bindIO sys_fork (\<lambda>forkID.
         if forkID = 0 then
           bindIO (start_protocol c base) (\<lambda>_.
           bindIO (closeTCPSocket c) (\<lambda>_. accept_loop n ss base))
         else if 0 < forkID then
           bindIO (closeTCPSocket c) (\<lambda>_. accept_loop n ss base)
         else retIO 1) ?u))"
      proof (rule only_one_bind)
        show "fuelled (fst (sys_fork ?u))" by (rule unboundedD) (rule unbd)
        fix p v assume "sys_fork ?u = (Ret p, v)"
        then have v: "evolves ?u v" by (rule keepsD [OF keeps_sys_net(6)])
        have close: "only_one (fst (bindIO (closeTCPSocket c) (\<lambda>_. accept_loop n ss base) x))"
          if "evolves ?u x" for x
        proof (rule only_one_bind)
          show "fuelled (fst (closeTCPSocket c x))"
            unfolding closeTCPSocket_def by (rule unboundedD) (rule unbd)
          fix y z assume "closeTCPSocket c x = (Ret y, z)"
          then have "evolves x z" by (rule keepsD [OF keeps_closeTCPSocket])
          with that u show "only_one (fst (accept_loop n ss base z))"
            by (intro next_round [of ?u]) (auto intro: evolves_trans)
        qed
        have "only_one (fst (bindIO (start_protocol c base) (\<lambda>_.
           bindIO (closeTCPSocket c) (\<lambda>_. accept_loop n ss base)) v))"
        proof (rule only_one_bind)
          have "c < next_fd v" using v \<open>c < next_fd ?u\<close> by (rule evolves_next_fd)
          then show "fuelled (fst (start_protocol c base v))"
            unfolding start_protocol_def by (intro serve_fuel) simp_all
          fix y z assume "start_protocol c base v = (Ret y, z)"
          then have "evolves v z" by (rule keepsD [OF keeps_start_protocol])
          with v show "only_one (fst (bindIO (closeTCPSocket c) (\<lambda>_. accept_loop n ss base) z))"
            by (intro close) (rule evolves_trans)
        qed
        with close [OF v] show "only_one (fst ((if p = 0 then
           bindIO (start_protocol c base) (\<lambda>_.
           bindIO (closeTCPSocket c) (\<lambda>_. accept_loop n ss base))
         else if 0 < p then
           bindIO (closeTCPSocket c) (\<lambda>_. accept_loop n ss base)
         else retIO 1) v))" by simp
      qed
      with Cons a show ?thesis by (simp add: waitConnection4_run)
    qed
  qed
qed simp

text \<open>C32: Whatever clients connect, \<open>start_server\<close> never runs out of the bound its input
  gives, and the only value it ever returns is 1, for a failed socket or a failed fork:
  the normal return at its end is not reached, in the parent or in a child.\<close>

theorem start_server_result:
  assumes "clients_known w"
  shows "fst (start_server a0 port base w) \<noteq> No_Fuel \<and>
    (\<forall>x. fst (start_server a0 port base w) = Ret x \<longrightarrow> x = 1)"
proof -
  have "only_one (fst (start_server a0 port base w))"
    unfolding start_server_def
  proof (rule only_one_bind)
    show "fuelled (fst (newTCPServerSocket4 a0 ''0.0.0.0'' port 5 w))"
      by (auto simp: newTCPServerSocket4_def getNewTCPSocket_def sys_socket_def sys_bind_def
          sys_listen_def bindIO_def split: prod.split list.split)
    fix s v assume "newTCPServerSocket4 a0 ''0.0.0.0'' port 5 w = (Ret s, v)"
    then have "evolves w v" by (rule keepsD [OF keeps_newTCPServerSocket4])
    then have "clients_known v" using assms by (rule clients_known_evolves)
    then show "only_one (fst (if s = - 1 then (Ret 1, v)
        else accept_loop (Suc (length (accepts v))) s base v))"
      using accept_loop_only_one [of v "Suc (length (accepts v))" s base] by auto
  qed
  then show ?thesis by (simp add: only_one_def fuelled_def)
qed

lemma start_server_result_witness:
  "clients_known (demo_srv\<lparr>socks := [4], binds := [0], listens := [0],
     accepts := [Acc 7 \<lparr>sin_family = 2, sin_port = 9, sin_addr = [10, 0, 0, 7], sin_zero = []\<rparr>], forks := [0]\<rparr>) \<and>
   fst (start_server \<lparr>sin_family = 0, sin_port = 0, sin_addr = [], sin_zero = []\<rparr> 7000 ''/srv/''
     (demo_srv\<lparr>socks := [4], binds := [0], listens := [0],
     accepts := [Acc 7 \<lparr>sin_family = 2, sin_port = 9, sin_addr = [10, 0, 0, 7], sin_zero = []\<rparr>], forks := [0]\<rparr>)) \<noteq> No_Fuel"
proof -
  let ?w = "demo_srv\<lparr>socks := [4], binds := [0], listens := [0],
     accepts := [Acc 7 \<lparr>sin_family = 2, sin_port = 9, sin_addr = [10, 0, 0, 7], sin_zero = []\<rparr>], forks := [0]\<rparr>"
  have "clients_known ?w" by (simp add: clients_known_def)
  with start_server_result [OF this] show ?thesis by blast
qed

end
