(* ===== verification/Clock.thy ===== *)
theory Clock
  imports Evolve
begin

text \<open>
  \<open>currentTimeMillis\<close>, of which FileTransfer_Proyecto/client.c, file_transfer/client.c and
  tcp_ping/client.c hold identical copies: seconds and microseconds of \<open>gettimeofday\<close>
  combined into one \<open>u_long\<close>.
\<close>

definition currentTimeMillis :: "u64 cio" where
  "currentTimeMillis =
     bindIO sys_gettimeofday (\<lambda>tv. retIO (of_nat (fst tv * 1000 + snd tv)))"

lemma currentTimeMillis_run:
  "currentTimeMillis w =
     (Ret (of_nat (fst (clock w (ticks w)) * 1000 + snd (clock w (ticks w)))), w\<lparr>ticks := Suc (ticks w)\<rparr>)"
  by (simp add: currentTimeMillis_def bindIO_def sys_gettimeofday_def)

text \<open>The \<open>n\<close>-th reading of the clock in milliseconds.\<close>

definition reading :: "os \<Rightarrow> nat \<Rightarrow> u64" where
  "reading w n = of_nat (fst (clock w n) * 1000 + snd (clock w n))"

lemma currentTimeMillis_reading:
  "currentTimeMillis w = (Ret (reading w (ticks w)), w\<lparr>ticks := Suc (ticks w)\<rparr>)"
  by (simp add: currentTimeMillis_run reading_def)

lemma keeps_currentTimeMillis [evolve]: "keeps evolves currentTimeMillis"
  unfolding currentTimeMillis_def by (intro evolve)

lemma unbounded_currentTimeMillis [unbd]: "unbounded currentTimeMillis"
  unfolding currentTimeMillis_def by (intro unbd)

section \<open>Properties\<close>

text \<open>The time the client measures with adds microseconds to milliseconds and so runs
  backwards at every full second.\<close>

theorem clock_runs_backwards:
  assumes "clock w (ticks w) = (s, 999999)" and "clock w (Suc (ticks w)) = (s + 1, 0)" and "s < 2 ^ 53"
  shows "\<exists>t1 t2 w1 w2. currentTimeMillis w = (Ret t1, w1) \<and> currentTimeMillis w1 = (Ret t2, w2) \<and>
    unat t1 = unat t2 + 998999"
proof -
  let ?w1 = "w\<lparr>ticks := Suc (ticks w)\<rparr>"
  have "(s + 1) * 1000 + 998999 < 2 ^ 64" using assms(3) by simp
  then have "s * 1000 + 999999 < 2 ^ LENGTH(64)" "(s + 1) * 1000 + 0 < 2 ^ LENGTH(64)" by simp_all
  then have "unat (of_nat (s * 1000 + 999999) :: u64) = s * 1000 + 999999"
    "unat (of_nat ((s + 1) * 1000 + 0) :: u64) = (s + 1) * 1000 + 0"
    by (simp_all only: unat_of_nat mod_less)
  then have lt: "unat (of_nat (s * 1000 + 999999) :: u64) = unat (of_nat ((s + 1) * 1000 + 0) :: u64) + 998999"
    by simp
  have "currentTimeMillis w = (Ret (of_nat (s * 1000 + 999999)), ?w1)"
    unfolding currentTimeMillis_run assms(1) fst_conv snd_conv ..
  moreover have "currentTimeMillis ?w1 =
      (Ret (of_nat ((s + 1) * 1000 + 0)), ?w1\<lparr>ticks := Suc (ticks ?w1)\<rparr>)"
  proof -
    have "clock ?w1 (ticks ?w1) = (s + 1, 0)" using assms(2) by simp
    then show ?thesis unfolding currentTimeMillis_run by (simp only: fst_conv snd_conv)
  qed
  ultimately show ?thesis using lt by blast
qed

lemma clock_runs_backwards_witness:
  "\<exists>t1 t2 w1 w2. currentTimeMillis (idle\<lparr>clock := (\<lambda>n. if n = 0 then (1361700000, 999999) else (1361700001, 0))\<rparr>) = (Ret t1, w1) \<and>
     currentTimeMillis w1 = (Ret t2, w2) \<and> unat t1 = unat t2 + 998999"
  by (rule clock_runs_backwards [of _ 1361700000]) (simp_all add: idle_def)

end
