(* ===== verification/FtClient.thy ===== *)
theory FtClient
  imports Netlib Frame U32_Loops Clock
begin

text \<open>
  FileTransfer_Proyecto/client.c: the client side of the file transfer protocol.
  \<open>start_client\<close> fetches one file, \<open>get_list\<close> prints the server's directory.
\<close>

section \<open>Sending\<close>

text \<open>client.c has its own copy of \<open>sendLine\<close>; the loop is the one of server.c.\<close>

function send_loop :: "int \<Rightarrow> string \<Rightarrow> nat \<Rightarrow> u32 \<Rightarrow> u32 cio" where
  "send_loop fd mem n wb w =
     bindIO (sys_write fd mem (int (unat wb)) (n - unat wb)) (\<lambda>r w'.
       let wb' = wb + word_of_int r
       in if unat wb' < n then send_loop fd mem n wb' w' else (Ret wb', w')) w"
  by pat_completeness auto
termination
  by (relation "measure (\<lambda>(fd, mem, n, wb, w). length (wrs w fd))")
    (auto dest: sys_write_decreases)

declare send_loop.simps [simp del]

definition sendLine :: "int \<Rightarrow> string \<Rightarrow> int cio" where
  "sendLine clientSocket writeBuffer =
     bindIO (send_loop clientSocket (writeBuffer @ [NUL]) (length writeBuffer) 0)
       (\<lambda>wb. retIO (sint wb))"

interpretation c_ln: sender32 send_loop sendLine
  by unfold_locales (rule send_loop.simps sendLine_def)+

section \<open>Receiving the file\<close>

text \<open>Lines 158 to 161: the bytes read, written to the file.\<close>

function write_loop :: "int \<Rightarrow> string \<Rightarrow> u32 \<Rightarrow> u32 \<Rightarrow> u32 cio" where
  "write_loop fd buf readBytes wb w =
     (if wb < readBytes then
        bindIO (sys_write fd buf (int (unat wb)) (unat (readBytes - wb))) (\<lambda>r w'.
          write_loop fd buf readBytes (wb + word_of_int r) w') w
      else (Ret wb, w))"
  by pat_completeness auto
termination
  by (relation "measure (\<lambda>(fd, buf, rb, wb, w). length (wrs w fd))")
    (auto dest: sys_write_decreases)

declare write_loop.simps [simp del]

interpretation c_wr: while_write32 write_loop
  by unfold_locales (rule write_loop.simps)

text \<open>
  Lines 155 to 167. The total is compared with the announced size before each read; the
  results 0 and -1 of \<open>read\<close> are not tested (the latter is 2^32 - 1 as an unsigned
  number). The progress report of lines 165 and 166 writes to \<open>stderr\<close> only; its division
  is guarded by \<open>end > start\<close>.
\<close>

definition get_write :: "int \<Rightarrow> string option \<Rightarrow> u32 cio" where
  "get_write fd r =
     (let readBytes = (case r of None \<Rightarrow> -1 | Some bs \<Rightarrow> of_nat (length bs)) :: u32;
          readBuffer = (case r of None \<Rightarrow> [] | Some bs \<Rightarrow> bs)
      in bindIO (if 0 < readBytes then write_loop fd readBuffer readBytes 0 else retIO 0) (\<lambda>_.
         bindIO currentTimeMillis (\<lambda>_. retIO readBytes)))"

lemma get_write_frame:
  assumes "get_write fd r w = (x, w')"
  obtains bs k n where "w' = (wrote fd bs k w)\<lparr>ticks := n\<rparr>"
proof -
  define rb where "rb = ((case r of None \<Rightarrow> -1 | Some bs \<Rightarrow> of_nat (length bs)) :: u32)"
  define buf where "buf = (case r of None \<Rightarrow> [] | Some bs \<Rightarrow> bs)"
  define m where "m = (if 0 < rb then write_loop fd buf rb 0 else retIO 0)"
  obtain y w1 where m: "m w = (y, w1)" by fastforce
  have "\<exists>bs k. w1 = wrote fd bs k w"
  proof (cases "0 < rb")
    case True
    with m c_wr.wl_wrote [of fd buf rb 0 w] show ?thesis by (simp add: m_def)
  next
    case False
    with m have "w1 = wrote fd [] 0 w" by (simp add: m_def)
    then show ?thesis by blast
  qed
  then obtain bs k where w1: "w1 = wrote fd bs k w" by blast
  have "get_write fd r w = bindIO m (\<lambda>_. bindIO currentTimeMillis (\<lambda>_. retIO rb)) w"
    by (simp add: get_write_def rb_def buf_def m_def Let_def)
  with assms m have "w' = w1\<lparr>ticks := ticks w1\<rparr> \<or> w' = w1\<lparr>ticks := Suc (ticks w1)\<rparr>"
    by (cases y) (auto simp: bindIO_def currentTimeMillis_def sys_gettimeofday_def)
  with w1 that show ?thesis by blast
qed

function get_loop :: "int \<Rightarrow> int \<Rightarrow> u64 \<Rightarrow> u64 \<Rightarrow> u64 cio" where
  "get_loop sock fd sz tot w =
     (if tot < sz then
        bindIO (sys_read sock 102400) (\<lambda>r w1.
        bindIO (get_write fd r) (\<lambda>readBytes w2.
          get_loop sock fd sz (tot + ucast readBytes) w2) w1) w
      else (Ret tot, w))"
  by pat_completeness auto
termination
proof (relation "measure (\<lambda>(sock, fd, sz, tot, w). rd_size (rds w sock))")
  fix sock fd sz tot w r w1 rb w2
  assume rd: "sys_read sock 102400 w = (Ret r, w1)" and gw: "get_write fd r w1 = (Ret rb, w2)"
  from gw have "rds w2 = rds w1" by (rule get_write_frame) simp
  with sys_read_decreases [OF rd]
  show "((sock, fd, sz, tot + ucast rb, w2), sock, fd, sz, tot, w)
      \<in> measure (\<lambda>(sock, fd, sz, tot, w). rd_size (rds w sock))"
    by simp
qed simp

declare get_loop.simps [simp del]

definition doGet :: "int \<Rightarrow> string \<Rightarrow> u64 \<Rightarrow> unit cio" where
  "doGet sock localFilename sz =
     bindIO (sys_creat localFilename) (\<lambda>fd.
       if fd = -1 then retIO ()
       else bindIO currentTimeMillis (\<lambda>_.
            bindIO (get_loop sock fd sz 0) (\<lambda>_. sys_close fd)))"

section \<open>The protocol\<close>

text \<open>
  The loop of lines 103 to 111; \<open>read_list\<close> is the one of lines 66 to 74. Both start from a block of
  \<open>malloc\<close> that nothing has written (\<open>sys_malloc_str\<close>): what it happens to hold is the beginning of
  what is read. The theorems about the client assume that it starts with NUL (\<open>clean_heap\<close>), but
  for \<open>client_rejects_ok\<close>, which shows what happens when it does not.
\<close>

function read_reply :: "int \<Rightarrow> cbuf \<Rightarrow> cbuf cio" where
  "read_reply sock b w =
     bindIO (sys_read sock 1) (\<lambda>r w1.
       case r of
         None \<Rightarrow> (Ret b, w1)
       | Some bs \<Rightarrow>
           if bs = [] then (Ret b, w1)
           else bindIO (append_check b bs) (\<lambda>p w2.
                  if fst p then (Ret (snd p), w2) else read_reply sock (snd p) w2) w1) w"
  by pat_completeness auto
termination
proof (relation "measure (\<lambda>(sock, b, w). rd_size (rds w sock))")
  fix sock b w r w1 bs p w2
  assume rd: "sys_read sock 1 w = (Ret r, w1)" and "append_check b bs w1 = (Ret p, w2)"
  then have "w2 = w1" by (auto dest: append_check_state)
  with sys_read_decreases [OF rd]
  show "((sock, snd p, w2), sock, b, w) \<in> measure (\<lambda>(sock, b, w). rd_size (rds w sock))"
    by simp
qed simp

declare read_reply.simps [simp del]

function read_list :: "int \<Rightarrow> cbuf \<Rightarrow> cbuf cio" where
  "read_list sock b w =
     bindIO (sys_read sock 1) (\<lambda>r w1.
       case r of
         None \<Rightarrow> (Ret b, w1)
       | Some bs \<Rightarrow>
           if bs = [] then (Ret b, w1)
           else bindIO (append_check b bs) (\<lambda>p w2.
                  if fst p then (Ret (snd p), w2) else read_list sock (snd p) w2) w1) w"
  by pat_completeness auto
termination
proof (relation "measure (\<lambda>(sock, b, w). rd_size (rds w sock))")
  fix sock b w r w1 bs p w2
  assume rd: "sys_read sock 1 w = (Ret r, w1)" and "append_check b bs w1 = (Ret p, w2)"
  then have "w2 = w1" by (auto dest: append_check_state)
  with sys_read_decreases [OF rd]
  show "((sock, snd p, w2), sock, b, w) \<in> measure (\<lambda>(sock, b, w). rd_size (rds w sock))"
    by simp
qed simp

declare read_list.simps [simp del]

text \<open>
  Lines 116 to 127: what the client makes of the reply. \<open>strsep\<close> leaves NULL when there is
  no CR, and the pointer is incremented all the same, which may take it past the end of
  the string; \<open>strstr\<close> may find no colon.
\<close>

datatype verdict = Not_Found | Size_Is u64 | Unknown_Answer | Bad_Pointer fault

definition parse_reply :: "cbuf \<Rightarrow> verdict" where
  "parse_reply b =
     (let (token, rest) = strsep [CR] (chars b);
          past = slack b
      in if token = ''NOT_FOUND'' then Not_Found
         else if token = ''OK'' then
           (case rest of
              None \<Rightarrow> Bad_Pointer Null_Deref
            | Some r \<Rightarrow>
                if r = [] \<and> past = [] then Bad_Pointer Out_Of_Bounds
                else (case strstr (if r = [] then past else tl r) '':'' of
                   None \<Rightarrow> Bad_Pointer Null_Deref
                 | Some t \<Rightarrow>
                     if 2 \<le> length t then Size_Is (word_of_int (strtol10 (drop 2 t)))
                     else if past = [] then Bad_Pointer Out_Of_Bounds
                     else Size_Is (word_of_int (strtol10 past))))
         else Unknown_Answer)"

text \<open>Lines 113 to 131: what the client does with the reply.\<close>

definition handle_reply :: "int \<Rightarrow> string \<Rightarrow> cbuf \<Rightarrow> unit cio" where
  "handle_reply sock localFilename b =
     (let quit = bindIO (sendLine sock (''QUIT'' @ crlf2)) (\<lambda>_. retIO ())
      in case parse_reply b of
           Not_Found \<Rightarrow> retIO ()
         | Size_Is sz \<Rightarrow> bindIO (doGet sock localFilename sz) (\<lambda>_. quit)
         | Unknown_Answer \<Rightarrow> quit
         | Bad_Pointer f \<Rightarrow> crashIO f)"

definition start_protocol :: "int \<Rightarrow> string \<Rightarrow> string \<Rightarrow> unit cio" where
  "start_protocol sock remoteFilename localFilename =
     bindIO (liftR (sprintf_to 1024 (''GET '' @ remoteFilename @ crlf2))) (\<lambda>writeBuffer.
     bindIO (sendLine sock writeBuffer) (\<lambda>_.
     bindIO (sys_malloc_str 254) (\<lambda>b.
     bindIO (read_reply sock b) (handle_reply sock localFilename))))"

definition start_client :: "sockaddr_in \<Rightarrow> u16 \<Rightarrow> string \<Rightarrow> string \<Rightarrow> string \<Rightarrow> int cio" where
  "start_client a0 port ip remoteFilename localFilename =
     bindIO (newTCPClientSocket4 a0 ip port) (\<lambda>sock.
       if sock = -1 then retIO 1
       else bindIO (start_protocol sock remoteFilename localFilename) (\<lambda>_.
            bindIO (closeTCPSocket sock) (\<lambda>_. retIO 0)))"

definition get_list :: "sockaddr_in \<Rightarrow> u16 \<Rightarrow> string \<Rightarrow> int cio" where
  "get_list a0 port ip =
     bindIO (newTCPClientSocket4 a0 ip port) (\<lambda>sock.
       if sock = -1 then retIO 1
       else bindIO (liftR (sprintf_to 255 (''LIST'' @ crlf2))) (\<lambda>writeBuffer.
            bindIO (sendLine sock writeBuffer) (\<lambda>_.
            bindIO (sys_malloc_str 254) (\<lambda>b.
            bindIO (read_list sock b) (\<lambda>b.
            bindIO (sys_printf (chars b)) (\<lambda>_.
            bindIO (closeTCPSocket sock) (\<lambda>_. retIO 0)))))))"

section \<open>The readers meet their contract\<close>

interpretation reply: frame_reader read_reply
proof
  fix fd b w
  show "read_reply fd b w = bindIO (sys_read fd 1) (\<lambda>r.
         case r of None \<Rightarrow> retIO b
         | Some bs \<Rightarrow> if bs = [] then retIO b
             else bindIO (append_check b bs) (\<lambda>p. if fst p then retIO (snd p) else read_reply fd (snd p))) w"
    by (subst read_reply.simps) (auto intro!: bindIO_cong split: option.split)
qed

interpretation lst: frame_reader read_list
proof
  fix fd b w
  show "read_list fd b w = bindIO (sys_read fd 1) (\<lambda>r.
         case r of None \<Rightarrow> retIO b
         | Some bs \<Rightarrow> if bs = [] then retIO b
             else bindIO (append_check b bs) (\<lambda>p. if fst p then retIO (snd p) else read_list fd (snd p))) w"
    by (subst read_list.simps) (auto intro!: bindIO_cong split: option.split)
qed

section \<open>The frame of the functions\<close>

lemma evolves_ticks: "evolves w w' \<Longrightarrow> evolves w (w'\<lparr>ticks := n\<rparr>)"
  by (simp add: evolves_def)

lemma keeps_get_write [evolve]: "keeps evolves (get_write fd r)"
  unfolding get_write_def Let_def by (intro evolve)

lemma keeps_get_loop [evolve]: "keeps evolves (get_loop sock fd sz tot)"
proof (rule keepsI)
  fix w show "evolves w (snd (get_loop sock fd sz tot w))"
  proof (induction sock fd sz tot w rule: get_loop.induct)
    case (1 sock fd sz tot w)
    then show ?case
      by (cases "tot < sz"; subst get_loop.simps) (auto intro!: evolves_bind evolve)
  qed
qed

lemma keeps_get_file [evolve]: "keeps evolves (doGet sock name sz)"
  unfolding doGet_def by (intro evolve)

lemma keeps_read_reply [evolve]: "keeps evolves (read_reply sock b)"
proof (rule keepsI)
  fix w
  from reply.rl_state [of sock b w] obtain q where
    "snd (read_reply sock b w) = with_rds sock q w" "rd_size q \<le> rd_size (rds w sock)" by blast
  then show "evolves w (snd (read_reply sock b w))" by (auto simp: evolves_def)
qed

section \<open>What the client makes of a reply\<close>

text \<open>The reply of the server to a request it can serve.\<close>

lemma parse_reply_ok:
  assumes "n < 2 ^ 63"
  shows "parse_reply \<lparr>cap = k, chars = body_of [''OK'', ''Size: '' @ dec n], slack = p\<rparr>
    = Size_Is (of_nat n)"
proof -
  have "strsep [CR] (''OK'' @ CR # (LF # ''Size: '' @ dec n)) = (''OK'', Some (LF # ''Size: '' @ dec n))"
    by (rule strsep_found) auto
  moreover have "strstr (''Size'' @ CHR '':'' # (SPC # dec n)) '':'' = Some (CHR '':'' # SPC # dec n)"
    by (rule strstr_char) auto
  moreover have "strtol10 (dec n) = int n" using strtol10_dec [OF assms, of "[]"] by simp
  moreover have "dec n \<noteq> []" by (rule dec_nonempty)
  then have "2 \<le> length (CHR '':'' # SPC # dec n)" by (cases "dec n") auto
  ultimately show ?thesis by (simp add: parse_reply_def)
qed

lemma parse_reply_other:
  assumes "fst (strsep [CR] (chars b)) \<notin> {''NOT_FOUND'', ''OK''}"
  shows "parse_reply b = Unknown_Answer"
  using assms by (auto simp: parse_reply_def split: prod.splits)

section \<open>The file arrives\<close>

lemma get_write_all:
  assumes "bs \<noteq> []" and "length bs < 2 ^ 32" and "accepting (wrs w fd) (length bs)"
  shows "\<exists>k \<le> length bs. get_write fd (Some bs) w =
    (Ret (of_nat (length bs)), (wrote fd bs k w)\<lparr>ticks := Suc (ticks w)\<rparr>)"
proof -
  from c_wr.wl_all [OF assms] obtain c k where
    "write_loop fd bs (of_nat (length bs)) 0 w = (Ret c, wrote fd bs k w)" "k \<le> length bs"
    by blast
  moreover have "(0 :: u32) < of_nat (length bs)" using assms by (simp add: less_of_nat32)
  ultimately show ?thesis
    by (auto simp: get_write_def Let_def currentTimeMillis_run)
qed

text \<open>The state when a file of the bytes \<open>d\<close> has been received on \<open>sock\<close>.\<close>

definition received :: "int \<Rightarrow> int \<Rightarrow> rd list \<Rightarrow> string \<Rightarrow> os \<Rightarrow> os \<Rightarrow> bool" where
  "received sock fd q d w w' \<longleftrightarrow>
     (\<exists>k n. w' = (wrote fd d k (with_rds sock q w))\<lparr>ticks := n\<rparr>)"

lemma received_trans:
  "received sock fd q1 d1 u v \<Longrightarrow> received sock fd q2 d2 v w \<Longrightarrow> received sock fd q2 (d1 @ d2) u w"
  unfolding received_def
  by (elim exE, simp, rule exI, rule exI) (simp add: wrote_def with_rds_def)

text \<open>One round of the loop, while the stream is in good order.\<close>

lemma get_loop_step:
  assumes "rds w sock = r @ q" and "flowing r" and "r \<noteq> []" and "unat tot + length (stream r) \<le> unat sz"
    and "accepting (wrs w fd) (length (stream r))" and "fd \<noteq> sock"
  obtains bs r' tot' w2 where "get_loop sock fd sz tot w = get_loop sock fd sz tot' w2"
    and "received sock fd (r' @ q) bs w w2" and "rds w2 sock = r' @ q" and "flowing r'"
    and "stream r = bs @ stream r'" and "rd_size r' < rd_size r" and "unat tot' = unat tot + length bs"
    and "accepting (wrs w2 fd) (length (stream r'))"
proof -
  obtain bs r' where rd: "sys_read sock 102400 w = (Ret (Some bs), with_rds sock (r' @ q) w)"
    and r': "flowing r'" "stream r = bs @ stream r'" "rd_size r' < rd_size r"
    and bs: "bs \<noteq> []" "length bs \<le> 102400"
    using sys_read_flowing [OF assms(1,2,3), of 102400] by (metis zero_less_numeral)
  let ?w1 = "with_rds sock (r' @ q) w"
  have "accepting (wrs ?w1 fd) (length bs)" "length bs < 2 ^ 32"
    using assms(5) r'(2) bs by (auto elim: accepting_mono)
  with bs get_write_all [of bs ?w1 fd] obtain k where k: "k \<le> length bs" and
    gw: "get_write fd (Some bs) ?w1 = (Ret (of_nat (length bs)), (wrote fd bs k ?w1)\<lparr>ticks := Suc (ticks w)\<rparr>)"
    by auto
  let ?w2 = "(wrote fd bs k ?w1)\<lparr>ticks := Suc (ticks w)\<rparr>"
  define tot' where "tot' = tot + ucast (of_nat (length bs) :: u32)"
  have "unat (of_nat (length bs) :: u32) = length bs" using bs by (simp add: unat_of_nat32)
  moreover have "unat tot + length bs < 2 ^ 64"
    using assms(4) r'(2) unsigned_less [of sz, where 'a = nat] by simp
  ultimately have tot': "unat tot' = unat tot + length bs"
    unfolding tot'_def by (simp only: unat_add_64 unat_ucast_64)
  have "tot < sz" using assms(4) r'(2) bs(1) by (cases bs) (simp_all add: word_less_nat_alt)
  then have run: "get_loop sock fd sz tot w = get_loop sock fd sz tot' ?w2"
    using rd gw by (subst get_loop.simps) (simp add: tot'_def)
  have "accepting (wrs ?w2 fd) (length (stream r'))"
    using accepting_drop [OF assms(5), of k] k r'(2) by (auto elim: accepting_mono)
  moreover have "received sock fd (r' @ q) bs w ?w2" by (auto simp: received_def)
  moreover have "rds ?w2 sock = r' @ q" by simp
  ultimately show ?thesis using that [OF run] r' tot' by blast
qed

lemma received_none: "rds w sock = q \<Longrightarrow> received sock fd q [] w w"
  unfolding received_def by (intro exI [of _ 0] exI [of _ "ticks w"]) simp

lemma get_loop_all:
  assumes "rds w sock = r @ q" and "flowing r" and "unat sz = unat tot + length (stream r)"
    and "accepting (wrs w fd) (length (stream r))" and "fd \<noteq> sock"
  shows "\<exists>w'. get_loop sock fd sz tot w = (Ret sz, w') \<and> received sock fd q (stream r) w w'"
  using assms
proof (induction "rd_size r" arbitrary: r w tot rule: less_induct)
  case less
  show ?case
  proof (cases "r = []")
    case True
    with less.prems have "sz = tot" by (simp add: unsigned_word_eqI)
    with True less.prems(1) show ?thesis by (subst get_loop.simps) (simp add: received_none)
  next
    case False
    have "unat tot + length (stream r) \<le> unat sz" using less.prems(3) by simp
    from get_loop_step [OF less.prems(1,2) False this less.prems(4,5)]
    obtain bs r' tot' w2 where st: "get_loop sock fd sz tot w = get_loop sock fd sz tot' w2"
      "received sock fd (r' @ q) bs w w2" "rds w2 sock = r' @ q" "flowing r'"
      "stream r = bs @ stream r'" "rd_size r' < rd_size r" "unat tot' = unat tot + length bs"
      "accepting (wrs w2 fd) (length (stream r'))" .
    with less.hyps [OF st(6), of w2 tot'] less.prems(3,5) obtain w' where
      "get_loop sock fd sz tot' w2 = (Ret sz, w')" "received sock fd q (stream r') w2 w'" by auto
    with st(1,2,5) show ?thesis by (auto dest: received_trans)
  qed
qed

text \<open>Too few bytes: what follows them decides.\<close>

lemma get_loop_short:
  assumes "rds w sock = r @ q" and "flowing r" and "unat tot + length (stream r) < unat sz"
    and "accepting (wrs w fd) (length (stream r))" and "fd \<noteq> sock"
  shows "\<exists>w' tot'. get_loop sock fd sz tot w = get_loop sock fd sz tot' w' \<and> tot' < sz \<and>
    received sock fd q (stream r) w w'"
  using assms
proof (induction "rd_size r" arbitrary: r w tot rule: less_induct)
  case less
  show ?case
  proof (cases "r = []")
    case True
    with less.prems have "tot < sz" by (simp add: word_less_nat_alt)
    with True less.prems(1) show ?thesis by (intro exI [of _ w] exI [of _ tot]) (simp add: received_none)
  next
    case False
    have "unat tot + length (stream r) \<le> unat sz" using less.prems(3) by simp
    from get_loop_step [OF less.prems(1,2) False this less.prems(4,5)]
    obtain bs r' tot' w2 where st: "get_loop sock fd sz tot w = get_loop sock fd sz tot' w2"
      "received sock fd (r' @ q) bs w w2" "rds w2 sock = r' @ q" "flowing r'"
      "stream r = bs @ stream r'" "rd_size r' < rd_size r" "unat tot' = unat tot + length bs"
      "accepting (wrs w2 fd) (length (stream r'))" .
    with less.hyps [OF st(6), of w2 tot'] less.prems(3,5) obtain w' tot2 where
      "get_loop sock fd sz tot' w2 = get_loop sock fd sz tot2 w'" "tot2 < sz"
      "received sock fd q (stream r') w2 w'" by auto
    with st(1,2,5) show ?thesis
      by (intro exI [of _ w'] exI [of _ tot2]) (auto dest: received_trans)
  qed
qed

text \<open>End of file makes no progress: the loop only waits for the next answer.\<close>

lemma get_loop_eof:
  assumes "tot < sz" and "rds w sock = replicate n (Rd_Data [])"
  shows "\<exists>w'. get_loop sock fd sz tot w = (Blocked, w') \<and> outs w' = outs w \<and> created w' = created w"
  using assms
proof (induction n arbitrary: w)
  case 0
  then show ?case by (subst get_loop.simps) (simp add: sys_read_Nil)
next
  case (Suc n)
  let ?w1 = "with_rds sock (replicate n (Rd_Data [])) w"
  let ?w2 = "?w1\<lparr>ticks := Suc (ticks w)\<rparr>"
  have "sys_read sock 102400 w = (Ret (Some []), ?w1)"
    using Suc.prems(2) by (simp add: sys_read_def with_rds_def)
  moreover have "get_write fd (Some []) ?w1 = (Ret 0, ?w2)"
    by (simp add: get_write_def currentTimeMillis_run)
  ultimately have "get_loop sock fd sz tot w = get_loop sock fd sz tot ?w2"
    using Suc.prems(1) by (subst get_loop.simps) simp
  moreover have "rds ?w2 sock = replicate n (Rd_Data [])" by simp
  ultimately show ?case using Suc.IH [OF Suc.prems(1), of ?w2] by auto
qed

text \<open>A read error counts as 2^32 - 1 bytes.\<close>

lemma get_loop_error:
  assumes "tot < sz" and "rds w sock = Rd_Err # q"
  shows "get_loop sock fd sz tot w = (Crash Out_Of_Bounds, with_rds sock q w)"
proof -
  have "sys_read sock 102400 w = (Ret None, with_rds sock q w)"
    using assms(2) by (simp add: sys_read_def with_rds_def)
  moreover have "write_loop fd [] (- 1) 0 (with_rds sock q w) = (Crash Out_Of_Bounds, with_rds sock q w)"
    by (rule c_wr.wl_overrun) (simp_all add: unat_minus1_32 word_gt_0)
  then have "get_write fd None (with_rds sock q w) = (Crash Out_Of_Bounds, with_rds sock q w)"
    by (simp add: get_write_def Let_def word_gt_0)
  ultimately show ?thesis using assms(1) by (subst get_loop.simps) simp
qed

section \<open>The dialogue\<close>

text \<open>
  A fresh block of \<open>malloc\<close> starts with NUL: what the client relies on when it takes the
  length of a block that nothing has written.
\<close>

definition clean_heap :: "os \<Rightarrow> bool" where
  "clean_heap w \<longleftrightarrow> quiet_heap w \<and> (\<forall>n. \<exists>t. heap_junk w n = NUL # t)"

lemma clean_heap_quiet: "clean_heap w \<Longrightarrow> quiet_heap w"
  by (simp add: clean_heap_def)

lemma clean_heap_frame [simp]:
  "clean_heap (wrote fd bs k w) = clean_heap w" "clean_heap (with_rds fd q w) = clean_heap w"
  "quiet_heap (wrote fd bs k w) = quiet_heap w"
  by (simp_all add: clean_heap_def quiet_heap_def)

lemma sys_malloc_clean:
  "clean_heap w \<Longrightarrow> 0 < n \<Longrightarrow> sys_malloc_str n w = (Ret \<lparr>cap = n, chars = [], slack = []\<rparr>, w)"
  by (cases n) (auto simp: clean_heap_def sys_malloc_str_def c_string_def dest: spec [of _ n])

text \<open>The request goes out, then the reply is read.\<close>

lemma start_protocol_sent_any:
  assumes "sys_malloc_str 254 w = (Ret b, w)" and "length remote \<le> 1015"
    and "accepting (wrs w sock) (length remote + 8 + N)"
  shows "\<exists>k. accepting (drop k (wrs w sock)) N \<and>
    start_protocol sock remote loc w =
      bindIO (read_reply sock b) (handle_reply sock loc) (wrote sock (''GET '' @ remote @ crlf2) k w)"
proof -
  let ?m = "''GET '' @ remote @ crlf2"
  have len: "length ?m = length remote + 8" by simp
  have "accepting (wrs w sock) (length ?m)" unfolding len by (rule accepting_mono [OF assms(3)]) simp
  moreover have "?m \<noteq> []" "length ?m < 2 ^ 31" using assms(2) by simp_all
  ultimately obtain k where k: "k \<le> length ?m" and
    run: "sendLine sock ?m w = (Ret (int (length ?m)), wrote sock ?m k w)"
    using c_ln.line_all by blast
  have "accepting (drop k (wrs w sock)) N"
    using accepting_drop [OF assms(3), of k] k len by (auto elim: accepting_mono)
  moreover have "sprintf_to 1024 ?m = Ret ?m" using assms(2) by (simp add: sprintf_to_def)
  moreover have "sys_malloc_str 254 (wrote sock ?m k w) = (Ret b, wrote sock ?m k w)"
    using assms(1) by (simp add: sys_malloc_str_def split: if_splits)
  ultimately show ?thesis
    using run by (intro exI [of _ k]) (simp only: start_protocol_def bindIO_liftR bindIO_Ret)
qed

lemma start_protocol_sent:
  assumes "clean_heap w" and "length remote \<le> 1015" and "accepting (wrs w sock) (length remote + 8 + N)"
  shows "\<exists>k. accepting (drop k (wrs w sock)) N \<and>
    start_protocol sock remote loc w =
      bindIO (read_reply sock \<lparr>cap = 254, chars = [], slack = []\<rparr>) (handle_reply sock loc)
        (wrote sock (''GET '' @ remote @ crlf2) k w)"
  by (rule start_protocol_sent_any [OF _ assms(2,3)]) (rule sys_malloc_clean [OF assms(1)], simp)

lemma send_quit:
  assumes "accepting (wrs w sock) 8"
  shows "\<exists>k. bindIO (sendLine sock (''QUIT'' @ crlf2)) (\<lambda>_. retIO ()) w =
    (Ret (), wrote sock (''QUIT'' @ crlf2) k w)"
proof -
  have "length (''QUIT'' @ crlf2) = 8" by simp
  with assms have "accepting (wrs w sock) (length (''QUIT'' @ crlf2))" by (simp only:)
  moreover have "''QUIT'' @ crlf2 \<noteq> []" "length (''QUIT'' @ crlf2) < 2 ^ 31" by simp_all
  ultimately have "''QUIT'' @ crlf2 \<noteq> []" "length (''QUIT'' @ crlf2) < 2 ^ 31"
    "accepting (wrs w sock) (length (''QUIT'' @ crlf2))" by blast+
  from c_ln.line_all [OF this] obtain k where
    "sendLine sock (''QUIT'' @ crlf2) w = (Ret (int (length (''QUIT'' @ crlf2))), wrote sock (''QUIT'' @ crlf2) k w)"
    by blast
  then show ?thesis by (intro exI [of _ k]) (simp only: bindIO_Ret retIO_app)
qed

text \<open>An OK reply and the file after it.\<close>

definition quit :: "int \<Rightarrow> unit cio" where
  "quit sock = bindIO (sendLine sock (''QUIT'' @ crlf2)) (\<lambda>_. retIO ())"

lemma fetch_header:
  assumes "clean_heap w" and "length remote \<le> 1015" and "rds w sock = r @ q" and "flowing r"
    and "stream r = frame_of [''OK'', ''Size: '' @ dec n] @ d" and "n < 2 ^ 63"
    and "accepting (wrs w sock) (length remote + 8 + N)"
  shows "\<exists>k r'. flowing r' \<and> stream r' = d \<and> accepting (drop k (wrs w sock)) N \<and>
    start_protocol sock remote loc w = bindIO (doGet sock loc (of_nat n)) (\<lambda>_. quit sock)
      (with_rds sock (r' @ q) (wrote sock (''GET '' @ remote @ crlf2) k w))"
proof -
  let ?ls = "[''OK'', ''Size: '' @ dec n]" and ?b = "\<lparr>cap = 254, chars = [], slack = []\<rparr>"
  from start_protocol_sent [OF assms(1,2,7)] obtain k where
    acc: "accepting (drop k (wrs w sock)) N" and
    run: "start_protocol sock remote loc w =
      bindIO (read_reply sock ?b) (handle_reply sock loc) (wrote sock (''GET '' @ remote @ crlf2) k w)" by blast
  let ?w1 = "wrote sock (''GET '' @ remote @ crlf2) k w"
  have ls: "lines_ok ?ls"
    using dec_digits [of n] by (auto simp: lines_ok_def line_ok_def is_digit_def)
  from assms(1,3) have "quiet_heap ?w1" "rds ?w1 sock = r @ q" by (simp_all add: clean_heap_quiet)
  from reply.rl_frame [OF ls this assms(4,5), of ?b] obtain r' m where
    r': "flowing r'" "stream r' = d" and
    rr: "read_reply sock ?b ?w1 =
      (Ret \<lparr>cap = m, chars = body_of ?ls, slack = [LF, CR, LF]\<rparr>, with_rds sock (r' @ q) ?w1)"
    by auto
  have "start_protocol sock remote loc w =
      handle_reply sock loc \<lparr>cap = m, chars = body_of ?ls, slack = [LF, CR, LF]\<rparr> (with_rds sock (r' @ q) ?w1)"
    unfolding run using rr by (rule bindIO_Ret)
  then have "start_protocol sock remote loc w =
      bindIO (doGet sock loc (of_nat n)) (\<lambda>_. quit sock) (with_rds sock (r' @ q) ?w1)"
    unfolding handle_reply_def parse_reply_ok [OF assms(6)] Let_def verdict.case quit_def .
  with r' acc show ?thesis by blast
qed

definition created_at :: "os \<Rightarrow> string \<Rightarrow> wr list \<Rightarrow> os" where
  "created_at w loc a =
     w\<lparr>next_fd := next_fd w + 1, created := created w @ [(loc, next_fd w)],
       wrs := (wrs w)(next_fd w := a), outs := (outs w)(next_fd w := []), ticks := Suc (ticks w)\<rparr>"

lemma doGet_start:
  assumes "creats w loc = Some a" and "0 \<le> sock" and "sock < next_fd w"
  shows "doGet sock loc sz w =
    bindIO (get_loop sock (next_fd w) sz 0) (\<lambda>_. sys_close (next_fd w)) (created_at w loc a)"
  using assms by (simp add: doGet_def sys_creat_def bindIO_def currentTimeMillis_run created_at_def)

text \<open>The whole fetch, for a reply cut into any segments.\<close>

lemma fetch_ok:
  assumes "clean_heap w" and "length remote \<le> 1015"
    and "rds w sock = r @ q" and "flowing r"
    and "stream r = frame_of [''OK'', ''Size: '' @ dec (length d)] @ d" and "length d < 2 ^ 63"
    and "creats w loc = Some a" and "accepting a (length d)"
    and "0 \<le> sock" and "sock < next_fd w"
    and "accepting (wrs w sock) (length remote + 16)"
  shows "\<exists>w'. start_protocol sock remote loc w = (Ret (), w') \<and>
    outs w' (next_fd w) = d \<and> created w' = created w @ [(loc, next_fd w)] \<and>
    outs w' sock = outs w sock @ ''GET '' @ remote @ crlf2 @ ''QUIT'' @ crlf2 \<and> rds w' sock = q"
proof -
  let ?fd = "next_fd w" and ?n = "of_nat (length d) :: u64"
  have "accepting (wrs w sock) (length remote + 8 + 8)" by (rule accepting_mono [OF assms(11)]) simp
  from fetch_header [OF assms(1-6) this, of loc] obtain k r' where
    r': "flowing r'" "stream r' = d" and acc: "accepting (drop k (wrs w sock)) 8" and
    run: "start_protocol sock remote loc w = bindIO (doGet sock loc ?n) (\<lambda>_. quit sock)
      (with_rds sock (r' @ q) (wrote sock (''GET '' @ remote @ crlf2) k w))" by blast
  let ?w2 = "with_rds sock (r' @ q) (wrote sock (''GET '' @ remote @ crlf2) k w)"
  let ?w3 = "created_at ?w2 loc a"
  have "?fd \<noteq> sock" using assms(10) by simp
  moreover have "unat ?n = unat (0 :: u64) + length (stream r')"
    using assms(6) r'(2) by (simp add: unat_of_nat take_bit_nat_eq_self)
  moreover have "rds ?w3 sock = r' @ q" "accepting (wrs ?w3 ?fd) (length (stream r'))"
    using assms(8) r'(2) by (simp_all add: created_at_def)
  ultimately obtain w4 where g: "get_loop sock ?fd ?n 0 ?w3 = (Ret ?n, w4)"
    and w4: "received sock ?fd q d ?w3 w4"
    using get_loop_all [of ?w3 sock r' q ?n 0 ?fd] r' by blast
  let ?w5 = "w4\<lparr>evts := evts w4 @ [Ev_Close ?fd]\<rparr>"
  have "doGet sock loc ?n ?w2 = (Ret (), ?w5)"
    using doGet_start [of ?w2 loc a sock ?n] assms(7,9,10) g by (simp add: sys_close_def)
  then have "start_protocol sock remote loc w = quit sock ?w5" unfolding run by (rule bindIO_Ret)
  moreover have w5: "outs ?w5 ?fd = d" "created ?w5 = created w @ [(loc, ?fd)]" "rds ?w5 sock = q"
    "outs ?w5 sock = outs w sock @ ''GET '' @ remote @ crlf2" "wrs ?w5 sock = drop k (wrs w sock)"
    using w4 assms(10) by (auto simp: received_def created_at_def)
  moreover from send_quit [of ?w5 sock] acc w5(5) obtain j where
    "quit sock ?w5 = (Ret (), wrote sock (''QUIT'' @ crlf2) j ?w5)" unfolding quit_def by auto
  ultimately show ?thesis using \<open>?fd \<noteq> sock\<close> by simp
qed

text \<open>A message that is neither OK nor NOT_FOUND to the client: it says QUIT.\<close>

lemma reply_unknown:
  assumes "sys_malloc_str 254 w = (Ret b, w)" and "quiet_heap w" and "length remote \<le> 1015"
    and "lines_ok ls" and "rds w sock = r @ q" and "flowing r" and "stream r = frame_of ls @ t"
    and "fst (strsep [CR] (chars b @ body_of ls)) \<notin> {''NOT_FOUND'', ''OK''}"
    and "accepting (wrs w sock) (length remote + 16)"
  shows "\<exists>w'. start_protocol sock remote loc w = (Ret (), w') \<and> created w' = created w \<and>
    outs w' sock = outs w sock @ ''GET '' @ remote @ crlf2 @ ''QUIT'' @ crlf2"
proof -
  have "accepting (wrs w sock) (length remote + 8 + 8)" by (rule accepting_mono [OF assms(9)]) simp
  from start_protocol_sent_any [OF assms(1,3) this] obtain k where
    acc: "accepting (drop k (wrs w sock)) 8" and
    run: "start_protocol sock remote loc w =
      bindIO (read_reply sock b) (handle_reply sock loc) (wrote sock (''GET '' @ remote @ crlf2) k w)" by blast
  let ?w1 = "wrote sock (''GET '' @ remote @ crlf2) k w"
  from assms(2,5) have "quiet_heap ?w1" "rds ?w1 sock = r @ q" by simp_all
  from reply.rl_frame [OF assms(4) this assms(6,7), of b] obtain r' m where
    rr: "read_reply sock b ?w1 =
      (Ret \<lparr>cap = m, chars = chars b @ body_of ls, slack = [LF, CR, LF]\<rparr>, with_rds sock (r' @ q) ?w1)"
    by blast
  let ?b = "\<lparr>cap = m, chars = chars b @ body_of ls, slack = [LF, CR, LF]\<rparr>"
  let ?w2 = "with_rds sock (r' @ q) ?w1"
  have "parse_reply ?b = Unknown_Answer" using assms(8) by (intro parse_reply_other) simp
  then have "handle_reply sock loc ?b ?w2 = quit sock ?w2"
    by (simp only: handle_reply_def Let_def verdict.case quit_def)
  moreover have "start_protocol sock remote loc w = handle_reply sock loc ?b ?w2"
    unfolding run using rr by (rule bindIO_Ret)
  moreover obtain j where "quit sock ?w2 = (Ret (), wrote sock (''QUIT'' @ crlf2) j ?w2)"
    using send_quit [of ?w2 sock] acc unfolding quit_def by auto
  ultimately show ?thesis by simp
qed

section \<open>Every answer of the server\<close>

text \<open>While the client receives a file, it writes to that file only.\<close>

definition untouched :: "int \<Rightarrow> os \<Rightarrow> os \<Rightarrow> bool" where
  "untouched f w w' \<longleftrightarrow> outs w' f = outs w f \<and> wrs w' f = wrs w f \<and> rds w' = rds w"

lemma untouched_get_write:
  assumes "f \<noteq> fd" shows "untouched f w (snd (get_write fd r w))"
proof -
  obtain x w' where run: "get_write fd r w = (x, w')" by fastforce
  then obtain bs k n where "w' = (wrote fd bs k w)\<lparr>ticks := n\<rparr>" by (rule get_write_frame)
  with run assms show ?thesis by (simp add: untouched_def)
qed

lemma get_loop_sock:
  assumes "sock \<noteq> fd"
  shows "outs (snd (get_loop sock fd sz tot w)) sock = outs w sock \<and>
    wrs (snd (get_loop sock fd sz tot w)) sock = wrs w sock"
  using assms
proof (induction sock fd sz tot w rule: get_loop.induct)
  case (1 sock fd sz tot w)
  show ?case
  proof (cases "tot < sz")
    case True
    obtain x w1 where rd: "sys_read sock 102400 w = (x, w1)" by fastforce
    from sys_read_state [OF rd] have w1: "outs w1 = outs w" "wrs w1 = wrs w"
      by (metis with_rds_sel(2)) (metis sys_read_state [OF rd] with_rds_sel(3))
    show ?thesis
    proof (cases x)
      case (Ret r)
      obtain y w2 where gw: "get_write fd r w1 = (y, w2)" by fastforce
      have w2: "outs w2 sock = outs w1 sock" "wrs w2 sock = wrs w1 sock"
        using untouched_get_write [of sock fd w1 r] "1.prems" gw by (simp_all add: untouched_def)
      show ?thesis
      proof (cases y)
        case y: (Ret rb)
        with "1.IH" True rd Ret gw "1.prems" w1 w2 show ?thesis
          by (simp add: get_loop.simps [of sock fd sz tot w])
      qed (use True rd Ret gw w1 w2 in \<open>simp_all add: get_loop.simps [of sock fd sz tot w]\<close>)
    qed (use True rd w1 in \<open>simp_all add: get_loop.simps [of sock fd sz tot w]\<close>)
  qed (simp add: get_loop.simps [of sock fd sz tot w])
qed

lemma doGet_sock:
  assumes "0 \<le> sock" and "sock < next_fd w"
  shows "outs (snd (doGet sock loc sz w)) sock = outs w sock \<and>
    wrs (snd (doGet sock loc sz w)) sock = wrs w sock"
proof (cases "creats w loc")
  case None
  then show ?thesis by (simp add: doGet_def sys_creat_def bindIO_def)
next
  case (Some a)
  let ?fd = "next_fd w"
  let ?w1 = "w\<lparr>next_fd := ?fd + 1, created := created w @ [(loc, ?fd)],
             wrs := (wrs w)(?fd := a), outs := (outs w)(?fd := [])\<rparr>"
  let ?w2 = "?w1\<lparr>ticks := Suc (ticks w)\<rparr>"
  obtain x w3 where run: "get_loop sock ?fd sz 0 ?w2 = (x, w3)" by fastforce
  with get_loop_sock [of sock ?fd sz 0 ?w2] assms
  have "outs w3 sock = outs w sock \<and> wrs w3 sock = wrs w sock" by simp
  with Some assms run show ?thesis
    by (cases x) (simp_all add: doGet_def sys_creat_def bindIO_def currentTimeMillis_run sys_close_def)
qed

text \<open>
  The client's side of the protocol, whatever arrives: the request, and after it QUIT or
  nothing.
\<close>

lemma handle_reply_says:
  assumes "0 \<le> sock" and "sock < next_fd w" and "accepting (wrs w sock) 8"
  shows "\<exists>t \<in> {[], ''QUIT'' @ crlf2}. outs (snd (handle_reply sock loc b w)) sock = outs w sock @ t"
proof -
  have q: "\<exists>t \<in> {[], ''QUIT'' @ crlf2}. outs (snd (quit sock v)) sock = outs v sock @ t"
    if "accepting (wrs v sock) 8" for v
  proof -
    from send_quit [OF that] obtain k where "quit sock v = (Ret (), wrote sock (''QUIT'' @ crlf2) k v)"
      unfolding quit_def by blast
    then show ?thesis by simp
  qed
  show ?thesis
  proof (cases "parse_reply b")
    case (Size_Is sz)
    obtain x v where dg: "doGet sock loc sz w = (x, v)" by fastforce
    with doGet_sock [OF assms(1,2), of loc sz] have v: "outs v sock = outs w sock" "wrs v sock = wrs w sock"
      by simp_all
    have h: "handle_reply sock loc b w = bindIO (doGet sock loc sz) (\<lambda>_. quit sock) w"
      unfolding handle_reply_def Size_Is Let_def verdict.case quit_def ..
    show ?thesis
    proof (cases x)
      case (Ret y)
      from dg have "bindIO (doGet sock loc sz) (\<lambda>_. quit sock) w = quit sock v" unfolding Ret by (rule bindIO_Ret)
      with h q [of v] v assms(3) show ?thesis by simp
    qed (use h dg v in simp_all)
  next
    case Unknown_Answer
    have "handle_reply sock loc b w = quit sock w"
      unfolding handle_reply_def Unknown_Answer Let_def verdict.case quit_def ..
    with q [OF assms(3)] show ?thesis by simp
  qed (simp_all add: handle_reply_def)
qed

lemma client_says:
  assumes "clean_heap w" and "length remote \<le> 1015" and "0 \<le> sock" and "sock < next_fd w"
    and "accepting (wrs w sock) (length remote + 16)"
  shows "\<exists>t \<in> {[], ''QUIT'' @ crlf2}. outs (snd (start_protocol sock remote loc w)) sock =
    outs w sock @ ''GET '' @ remote @ crlf2 @ t"
proof -
  let ?b = "\<lparr>cap = 254, chars = [], slack = []\<rparr>" and ?get = "''GET '' @ remote @ crlf2"
  have "accepting (wrs w sock) (length remote + 8 + 8)" by (rule accepting_mono [OF assms(5)]) simp
  from start_protocol_sent [OF assms(1,2) this] obtain k where
    acc: "accepting (drop k (wrs w sock)) 8" and
    run: "start_protocol sock remote loc w =
      bindIO (read_reply sock ?b) (handle_reply sock loc) (wrote sock ?get k w)" by blast
  let ?w1 = "wrote sock ?get k w"
  from reply.rl_state [of sock ?b ?w1] obtain x q where
    rr: "read_reply sock ?b ?w1 = (x, with_rds sock q ?w1)" by (metis prod.collapse)
  show ?thesis
  proof (cases x)
    case (Ret b)
    have "start_protocol sock remote loc w = handle_reply sock loc b (with_rds sock q ?w1)"
      unfolding run using rr unfolding Ret by (rule bindIO_Ret)
    with handle_reply_says [of sock "with_rds sock q ?w1" loc b] assms(3,4) acc show ?thesis by simp
  qed (use run rr in simp_all)
qed

section \<open>The directory listing\<close>

lemma connected_heap [simp]: "clean_heap (connected w ss cs sock addr) = clean_heap w"
  by (simp add: connected_def clean_heap_def quiet_heap_def)

lemma get_list_sent:
  assumes "length os = 4" and "\<forall>v\<in>set os. v < 256" and "socks w = sock # ss" and "connects w = 0 # cs"
    and "0 \<le> sock" and "clean_heap w" and "accepting (wrs w sock) 8"
  shows "\<exists>k. get_list a0 port (inet_ntop4 os) w =
    bindIO (read_list sock \<lparr>cap = 254, chars = [], slack = []\<rparr>) (\<lambda>b.
      bindIO (sys_printf (chars b)) (\<lambda>_. bindIO (closeTCPSocket sock) (\<lambda>_. retIO 0)))
      (wrote sock (''LIST'' @ crlf2) k (connected w ss cs sock (net_addr a0 os port)))"
proof -
  let ?w1 = "connected w ss cs sock (net_addr a0 os port)"
  have "length (''LIST'' @ crlf2) = 8" by simp
  with assms(7) have "accepting (wrs ?w1 sock) (length (''LIST'' @ crlf2))" by (simp only: connected_sel)
  moreover have "''LIST'' @ crlf2 \<noteq> []" "length (''LIST'' @ crlf2) < 2 ^ 31" by simp_all
  ultimately obtain k where snt: "sendLine sock (''LIST'' @ crlf2) ?w1 =
      (Ret (int (length (''LIST'' @ crlf2))), wrote sock (''LIST'' @ crlf2) k ?w1)"
    using c_ln.line_all by blast
  let ?w2 = "wrote sock (''LIST'' @ crlf2) k ?w1"
  have "sys_malloc_str 254 ?w2 = (Ret \<lparr>cap = 254, chars = [], slack = []\<rparr>, ?w2)"
    using assms(6) by (intro sys_malloc_clean) simp_all
  moreover have "sock \<noteq> -1" using assms(5) by simp
  moreover have "sprintf_to 255 (''LIST'' @ crlf2) = Ret (''LIST'' @ crlf2)" by (simp add: sprintf_to_def)
  ultimately show ?thesis
    using snt newTCPClientSocket4_ok [OF assms(1-5), of a0 port]
    by (intro exI [of _ k]) (simp only: get_list_def bindIO_Ret bindIO_liftR if_False)
qed

section \<open>Properties\<close>

text \<open>A client whose kernel accepts what it sends, and whose local file can be created.\<close>

definition demo_cli :: "rd list \<Rightarrow> os" where
  "demo_cli r = idle\<lparr>rds := (\<lambda>_. [])(4 := r), wrs := (\<lambda>_. [])(4 := replicate 40 (Wr_Acc 3)),
     socks := [4], connects := [0],
     creats := (\<lambda>_. None)(''b'' := Some (replicate 9 (Wr_Acc 1)))\<rparr>"

lemma demo_cli_sel [simp]:
  "rds (demo_cli r) 4 = r" "wrs (demo_cli r) 4 = replicate 40 (Wr_Acc 3)" "next_fd (demo_cli r) = 8"
  "creats (demo_cli r) ''b'' = Some (replicate 9 (Wr_Acc 1))" "clean_heap (demo_cli r)"
  "quiet_heap (demo_cli r)" "outs (demo_cli r) 4 = []" "created (demo_cli r) = []" "stdout (demo_cli r) = []"
  "socks (demo_cli r) = [4]" "connects (demo_cli r) = [0]" "evts (demo_cli r) = []"
  by (simp_all add: demo_cli_def clean_heap_def quiet_heap_def)

lemma dec_small: "dec 3 = ''3''" "dec (Suc (Suc (Suc 0))) = ''3''" "dec 5 = ''5''"
  by code_simp+

text \<open>C7: The client connects, asks for the file, stores exactly the bytes that follow the OK
  header, however they were cut and however little each write accepts, says QUIT and
  returns 0.\<close>

theorem client_fetches:
  assumes "length os = 4" and "\<forall>v\<in>set os. v < 256" and "socks w = sock # ss" and "connects w = 0 # cs"
    and "clean_heap w" and "length remote \<le> 1015"
    and "rds w sock = r @ q" and "flowing r"
    and "stream r = frame_of [''OK'', ''Size: '' @ dec (length d)] @ d" and "length d < 2 ^ 63"
    and "creats w loc = Some a" and "accepting a (length d)"
    and "0 \<le> sock" and "sock < next_fd w"
    and "accepting (wrs w sock) (length remote + 16)"
  shows "\<exists>w'. start_client a0 port (inet_ntop4 os) remote loc w = (Ret 0, w') \<and>
    outs w' (next_fd w) = d \<and> created w' = created w @ [(loc, next_fd w)] \<and>
    outs w' sock = outs w sock @ ''GET '' @ remote @ crlf2 @ ''QUIT'' @ crlf2 \<and> rds w' sock = q"
proof -
  let ?w1 = "connected w ss cs sock (net_addr a0 os port)"
  have con: "newTCPClientSocket4 a0 (inet_ntop4 os) port w = (Ret sock, ?w1)"
    by (rule newTCPClientSocket4_ok [OF assms(1-4,13)])
  have "clean_heap ?w1" using assms(5) by simp
  with fetch_ok [of ?w1 remote sock r q d loc a] assms(6-15) obtain w2 where
    "start_protocol sock remote loc ?w1 = (Ret (), w2)" and
    w2: "outs w2 (next_fd w) = d" "created w2 = created w @ [(loc, next_fd w)]"
      "outs w2 sock = outs w sock @ ''GET '' @ remote @ crlf2 @ ''QUIT'' @ crlf2" "rds w2 sock = q"
    by auto
  moreover have "sock \<noteq> -1" using assms(13) by simp
  ultimately have "start_client a0 port (inet_ntop4 os) remote loc w =
      (Ret 0, w2\<lparr>evts := evts w2 @ [Ev_Close sock]\<rparr>)"
    using con by (simp add: start_client_def closeTCPSocket_def sys_close_def bindIO_def)
  with w2 show ?thesis by simp
qed

lemma client_fetches_witness:
  "\<exists>w'. start_client \<lparr>sin_family = 0, sin_port = 0, sin_addr = [], sin_zero = []\<rparr> 7000 (inet_ntop4 [127, 0, 0, 1])
      ''a'' ''b'' (demo_cli [Rd_Data (''OK'' @ crlf @ ''Size: 3''), Rd_Data (crlf2 @ ''xy''), Rd_Data ''z''])
      = (Ret 0, w') \<and> outs w' 8 = ''xyz''"
proof -
  let ?w = "demo_cli [Rd_Data (''OK'' @ crlf @ ''Size: 3''), Rd_Data (crlf2 @ ''xy''), Rd_Data ''z'']"
  let ?a = "\<lparr>sin_family = 0, sin_port = 0, sin_addr = [], sin_zero = []\<rparr>"
  have "\<exists>w'. start_client ?a 7000 (inet_ntop4 [127, 0, 0, 1]) ''a'' ''b'' ?w = (Ret 0, w') \<and>
    outs w' (next_fd ?w) = ''xyz'' \<and> created w' = created ?w @ [(''b'', next_fd ?w)] \<and>
    outs w' 4 = outs ?w 4 @ ''GET '' @ ''a'' @ crlf2 @ ''QUIT'' @ crlf2 \<and> rds w' 4 = []"
    by (rule client_fetches [of _ _ _ "[]" "[]" _ "rds ?w 4" _ _ _ "replicate 9 (Wr_Acc 1)"])
      (simp_all add: frame_of_def dec_small accepting_replicate)
  then show ?thesis by auto
qed

text \<open>A directory listing is printed whole and exactly, without the final empty line.\<close>

theorem list_prints:
  assumes "length os = 4" and "\<forall>v\<in>set os. v < 256" and "socks w = sock # ss" and "connects w = 0 # cs"
    and "0 \<le> sock" and "clean_heap w" and "accepting (wrs w sock) 8"
    and "rds w sock = r @ q" and "flowing r" and "stream r = frame_of ls @ t" and "lines_ok ls"
  shows "\<exists>w'. get_list a0 port (inet_ntop4 os) w = (Ret 0, w') \<and>
    stdout w' = stdout w @ body_of ls \<and> outs w' sock = outs w sock @ ''LIST'' @ crlf2"
proof -
  from get_list_sent [OF assms(1-7), of a0 port] obtain k where
    run: "get_list a0 port (inet_ntop4 os) w =
      bindIO (read_list sock \<lparr>cap = 254, chars = [], slack = []\<rparr>) (\<lambda>b.
        bindIO (sys_printf (chars b)) (\<lambda>_. bindIO (closeTCPSocket sock) (\<lambda>_. retIO 0)))
      (wrote sock (''LIST'' @ crlf2) k (connected w ss cs sock (net_addr a0 os port)))" by blast
  let ?w2 = "wrote sock (''LIST'' @ crlf2) k (connected w ss cs sock (net_addr a0 os port))"
  from assms(6,8) have "quiet_heap ?w2" "rds ?w2 sock = r @ q"
    by (auto simp: connected_def quiet_heap_def clean_heap_def)
  from lst.rl_frame [OF assms(11) this assms(9,10), of "\<lparr>cap = 254, chars = [], slack = []\<rparr>"]
  obtain r' n where rl: "read_list sock \<lparr>cap = 254, chars = [], slack = []\<rparr> ?w2 =
      (Ret \<lparr>cap = n, chars = body_of ls, slack = [LF, CR, LF]\<rparr>, with_rds sock (r' @ q) ?w2)"
    by (simp only: cbuf.select_convs append_Nil) blast
  show ?thesis
    unfolding run bindIO_Ret [where m = "read_list sock \<lparr>cap = 254, chars = [], slack = []\<rparr>", OF rl]
    by (simp add: bindIO_def sys_printf_def closeTCPSocket_def sys_close_def)
qed

lemma list_prints_witness:
  "\<exists>w'. get_list \<lparr>sin_family = 0, sin_port = 0, sin_addr = [], sin_zero = []\<rparr> 7000 (inet_ntop4 [127, 0, 0, 1])
      (demo_cli [Rd_Data ''a'', Rd_Data (crlf @ ''b.txt'' @ crlf2)]) = (Ret 0, w') \<and>
    stdout w' = ''a'' @ crlf @ ''b.txt''"
proof -
  let ?a = "\<lparr>sin_family = 0, sin_port = 0, sin_addr = [], sin_zero = []\<rparr>"
  let ?w = "demo_cli [Rd_Data ''a'', Rd_Data (crlf @ ''b.txt'' @ crlf2)]"
  have "\<exists>w'. get_list ?a 7000 (inet_ntop4 [127, 0, 0, 1]) ?w = (Ret 0, w') \<and>
      stdout w' = stdout ?w @ body_of [''a'', ''b.txt''] \<and> outs w' 4 = outs ?w 4 @ ''LIST'' @ crlf2"
    by (rule list_prints [of _ _ _ "[]" "[]" "rds ?w 4" "[]" _ "[]"])
      (simp_all add: frame_of_def accepting_replicate lines_ok_def line_ok_def)
  then show ?thesis by auto
qed

text \<open>C13: Whatever the server sends, ill-formed or incomplete answers included, the client
  sends the request it was asked for and after it QUIT or nothing.\<close>

theorem client_conforms:
  assumes "clean_heap w" and "length remote \<le> 1015" and "0 \<le> sock" and "sock < next_fd w"
    and "accepting (wrs w sock) (length remote + 16)"
  shows "\<exists>t \<in> {[], ''QUIT'' @ crlf2}. outs (snd (start_protocol sock remote loc w)) sock =
    outs w sock @ ''GET '' @ remote @ crlf2 @ t"
  using assms by (rule client_says)

lemma client_conforms_witness:
  "\<exists>t \<in> {[], ''QUIT'' @ crlf2}. outs (snd (start_protocol 4 ''a'' ''b'' (demo_cli [Rd_Data ''junk'', Rd_Data []]))) 4 =
    ''GET a'' @ crlf2 @ t"
  using client_conforms [of "demo_cli [Rd_Data ''junk'', Rd_Data []]" "''a''" 4 "''b''"]
  by (simp add: accepting_replicate)

text \<open>C38: A connection that ends before the announced size makes the client wait for ever: it
  keeps what it has, and each end of file it reads only makes it read again.\<close>

theorem client_never_returns:
  assumes "clean_heap w" and "length remote \<le> 1015"
    and "rds w sock = r @ replicate m (Rd_Data [])" and "flowing r"
    and "stream r = frame_of [''OK'', ''Size: '' @ dec n] @ d" and "length d < n" and "n < 2 ^ 63"
    and "creats w loc = Some a" and "accepting a (length d)"
    and "0 \<le> sock" and "sock < next_fd w"
    and "accepting (wrs w sock) (length remote + 8)"
  shows "\<exists>w'. start_protocol sock remote loc w = (Blocked, w') \<and>
    outs w' (next_fd w) = d \<and> created w' = created w @ [(loc, next_fd w)]"
proof -
  let ?fd = "next_fd w" and ?n = "of_nat n :: u64" and ?q = "replicate m (Rd_Data [])"
  have "accepting (wrs w sock) (length remote + 8 + 0)" using assms(12) by simp
  from fetch_header [OF assms(1-5,7) this, of loc] obtain k r' where
    r': "flowing r'" "stream r' = d" and
    run: "start_protocol sock remote loc w = bindIO (doGet sock loc ?n) (\<lambda>_. quit sock)
      (with_rds sock (r' @ ?q) (wrote sock (''GET '' @ remote @ crlf2) k w))" by blast
  let ?w2 = "with_rds sock (r' @ ?q) (wrote sock (''GET '' @ remote @ crlf2) k w)"
  let ?w3 = "created_at ?w2 loc a"
  have fd: "?fd \<noteq> sock" using assms(11) by simp
  have "unat (0 :: u64) + length (stream r') < unat ?n"
    using assms(6,7) r'(2) by (simp add: unat_of_nat take_bit_nat_eq_self)
  moreover have "rds ?w3 sock = r' @ ?q" "accepting (wrs ?w3 ?fd) (length (stream r'))"
    using assms(9) r'(2) by (simp_all add: created_at_def)
  ultimately obtain w4 tot where g: "get_loop sock ?fd ?n 0 ?w3 = get_loop sock ?fd ?n tot w4" "tot < ?n"
    and w4: "received sock ?fd ?q d ?w3 w4"
    using get_loop_short [of ?w3 sock r' ?q 0 ?n ?fd] r' fd by blast
  have "rds w4 sock = ?q" and o4: "outs w4 ?fd = d" "created w4 = created w @ [(loc, ?fd)]"
    using w4 assms(11) by (auto simp: received_def created_at_def)
  with get_loop_eof [OF g(2), of w4 sock m ?fd] obtain w5 where
    "get_loop sock ?fd ?n tot w4 = (Blocked, w5)" "outs w5 = outs w4" "created w5 = created w4" by blast
  moreover from this(1) have "doGet sock loc ?n ?w2 = (Blocked, w5)"
    using doGet_start [of ?w2 loc a sock ?n] assms(8,10,11) g(1) by simp
  ultimately show ?thesis using o4 unfolding run by simp
qed

lemma client_never_returns_witness:
  "\<exists>w'. start_protocol 4 ''a'' ''b''
     (demo_cli ([Rd_Data (''OK'' @ crlf @ ''Size: 5'' @ crlf2 @ ''xyz'')] @ replicate 1000 (Rd_Data []))) = (Blocked, w') \<and>
     outs w' 8 = ''xyz''"
  using client_never_returns [of "demo_cli ([Rd_Data (''OK'' @ crlf @ ''Size: 5'' @ crlf2 @ ''xyz'')] @ replicate 1000 (Rd_Data []))"
      "''a''" 4 "[Rd_Data (''OK'' @ crlf @ ''Size: 5'' @ crlf2 @ ''xyz'')]" 1000 5 "''xyz''" "''b''" "replicate 9 (Wr_Acc 1)"]
  by (auto simp: frame_of_def dec_small accepting_replicate)

text \<open>A read error in the middle of the file crashes the client: the result -1 counts as
  2^32 - 1 bytes to be written from the read buffer.\<close>

theorem client_read_error:
  assumes "clean_heap w" and "length remote \<le> 1015"
    and "rds w sock = r @ Rd_Err # q" and "flowing r"
    and "stream r = frame_of [''OK'', ''Size: '' @ dec n] @ d" and "length d < n" and "n < 2 ^ 63"
    and "creats w loc = Some a" and "accepting a (length d)"
    and "0 \<le> sock" and "sock < next_fd w"
    and "accepting (wrs w sock) (length remote + 8)"
  shows "fst (start_protocol sock remote loc w) = Crash Out_Of_Bounds"
proof -
  let ?fd = "next_fd w" and ?n = "of_nat n :: u64" and ?q = "Rd_Err # q"
  have "accepting (wrs w sock) (length remote + 8 + 0)" using assms(12) by simp
  from fetch_header [OF assms(1-5,7) this, of loc] obtain k r' where
    r': "flowing r'" "stream r' = d" and
    run: "start_protocol sock remote loc w = bindIO (doGet sock loc ?n) (\<lambda>_. quit sock)
      (with_rds sock (r' @ ?q) (wrote sock (''GET '' @ remote @ crlf2) k w))" by blast
  let ?w2 = "with_rds sock (r' @ ?q) (wrote sock (''GET '' @ remote @ crlf2) k w)"
  let ?w3 = "created_at ?w2 loc a"
  have fd: "?fd \<noteq> sock" using assms(11) by simp
  have "unat (0 :: u64) + length (stream r') < unat ?n"
    using assms(6,7) r'(2) by (simp add: unat_of_nat take_bit_nat_eq_self)
  moreover have "rds ?w3 sock = r' @ ?q" "accepting (wrs ?w3 ?fd) (length (stream r'))"
    using assms(9) r'(2) by (simp_all add: created_at_def)
  ultimately obtain w4 tot where g: "get_loop sock ?fd ?n 0 ?w3 = get_loop sock ?fd ?n tot w4" "tot < ?n"
    and w4: "received sock ?fd ?q d ?w3 w4"
    using get_loop_short [of ?w3 sock r' ?q 0 ?n ?fd] r' fd by blast
  have "rds w4 sock = ?q" using w4 by (auto simp: received_def)
  from get_loop_error [OF g(2) this, of ?fd]
  have "fst (doGet sock loc ?n ?w2) = Crash Out_Of_Bounds"
    using doGet_start [of ?w2 loc a sock ?n] assms(8,10,11) g(1) by simp
  then show ?thesis unfolding run by (cases "doGet sock loc ?n ?w2") simp
qed

lemma client_read_error_witness:
  "fst (start_protocol 4 ''a'' ''b''
     (demo_cli [Rd_Data (''OK'' @ crlf @ ''Size: 5'' @ crlf2 @ ''xyz''), Rd_Err])) = Crash Out_Of_Bounds"
  using client_read_error [of "demo_cli [Rd_Data (''OK'' @ crlf @ ''Size: 5'' @ crlf2 @ ''xyz''), Rd_Err]"
      "''a''" 4 "[Rd_Data (''OK'' @ crlf @ ''Size: 5'' @ crlf2 @ ''xyz'')]" "[]" 5 "''xyz''" "''b''" "replicate 9 (Wr_Acc 1)"]
  by (simp add: frame_of_def dec_small accepting_replicate)

text \<open>The branch for a missing file is never taken on the server's answer, whose first
  line is NOT_FOUND and the name: the client takes it for an unknown answer, creates no
  file and says QUIT.\<close>

theorem client_not_found:
  assumes "clean_heap w" and "length remote \<le> 1015" and "line_ok name"
    and "rds w sock = r @ q" and "flowing r" and "stream r = frame_of [''NOT_FOUND '' @ name] @ t"
    and "accepting (wrs w sock) (length remote + 16)"
  shows "\<exists>w'. start_protocol sock remote loc w = (Ret (), w') \<and> created w' = created w \<and>
    outs w' sock = outs w sock @ ''GET '' @ remote @ crlf2 @ ''QUIT'' @ crlf2"
proof (rule reply_unknown [OF _ _ assms(2) _ assms(4-6) _ assms(7)])
  show "sys_malloc_str 254 w = (Ret \<lparr>cap = 254, chars = [], slack = []\<rparr>, w)"
    by (rule sys_malloc_clean [OF assms(1)]) simp
  show "quiet_heap w" using assms(1) by (rule clean_heap_quiet)
  show "lines_ok [''NOT_FOUND '' @ name]" using assms(3) by (simp add: lines_ok_def line_ok_def)
qed (simp add: strsep_def)

lemma client_not_found_witness:
  "\<exists>w'. start_protocol 4 ''a'' ''b'' (demo_cli [Rd_Data (''NOT_FOUND a'' @ crlf2)]) = (Ret (), w') \<and> created w' = []"
  using client_not_found [of "demo_cli [Rd_Data (''NOT_FOUND a'' @ crlf2)]" "''a''" "''a''" 4
      "[Rd_Data (''NOT_FOUND a'' @ crlf2)]" "[]" "[]" "''b''"]
  by (auto simp: frame_of_def line_ok_def accepting_replicate)

text \<open>The reply is appended to a block that \<open>malloc\<close> left as it was: when the block
  happens to start with text, every OK reply is rejected and no file is written.\<close>

theorem client_rejects_ok:
  assumes "quiet_heap w" and "heap_junk w 254 = j @ NUL # z" and "j \<noteq> []" and "length j < 254"
    and "set j \<inter> {NUL, CR} = {}" and "length remote \<le> 1015"
    and "rds w sock = r @ q" and "flowing r"
    and "stream r = frame_of [''OK'', ''Size: '' @ dec n] @ d"
    and "accepting (wrs w sock) (length remote + 16)"
  shows "\<exists>w'. start_protocol sock remote loc w = (Ret (), w') \<and> created w' = created w \<and>
    outs w' sock = outs w sock @ ''GET '' @ remote @ crlf2 @ ''QUIT'' @ crlf2"
proof (rule reply_unknown [OF _ assms(1,6) _ assms(7,8,9) _ assms(10)])
  have tk: "take 254 (heap_junk w 254) = j @ NUL # take (253 - length j) z"
    using assms(2,4) by (simp add: take_Cons')
  moreover have "c_string (j @ NUL # take (253 - length j) z) = j"
    unfolding c_string_def using assms(5) by (intro takeWhile_stop) auto
  ultimately show "sys_malloc_str 254 w = (Ret \<lparr>cap = 254, chars = j, slack = []\<rparr>, w)"
    by (simp add: sys_malloc_str_def)
  show "lines_ok [''OK'', ''Size: '' @ dec n]"
    using dec_digits [of n] by (auto simp: lines_ok_def line_ok_def is_digit_def)
  have "strsep [CR] ((j @ ''OK'') @ CR # (LF # ''Size: '' @ dec n)) =
      (j @ ''OK'', Some (LF # ''Size: '' @ dec n))"
    using assms(5) by (intro strsep_found) auto
  moreover have "last (j @ ''OK'') \<noteq> last ''NOT_FOUND''" by simp
  then have "j @ ''OK'' \<noteq> ''NOT_FOUND''" by (rule contrapos_nn) simp
  moreover have "j @ ''OK'' \<noteq> ''OK''" using assms(3) by simp
  ultimately show "fst (strsep [CR] (chars \<lparr>cap = 254, chars = j, slack = []\<rparr> @
      body_of [''OK'', ''Size: '' @ dec n])) \<notin> {''NOT_FOUND'', ''OK''}"
    by simp
qed

lemma client_rejects_ok_witness:
  "\<exists>w'. start_protocol 4 ''a'' ''b'' ((demo_cli [Rd_Data (''OK'' @ crlf @ ''Size: 3'' @ crlf2 @ ''xyz'')])
      \<lparr>heap_junk := (\<lambda>_. ''old'' @ [NUL])\<rparr>) = (Ret (), w') \<and> created w' = []"
  using client_rejects_ok [of "(demo_cli [Rd_Data (''OK'' @ crlf @ ''Size: 3'' @ crlf2 @ ''xyz'')])
      \<lparr>heap_junk := (\<lambda>_. ''old'' @ [NUL])\<rparr>" "''old''" "[]" "''a''" 4
      "[Rd_Data (''OK'' @ crlf @ ''Size: 3'' @ crlf2 @ ''xyz'')]" "[]" 3 "''xyz''" "''b''"]
  by (auto simp: frame_of_def dec_small accepting_replicate quiet_heap_def demo_cli_def)

end
