(* ===== verification/FileTransfer.thy ===== *)
theory FileTransfer
  imports FtServer FtClient
begin

text \<open>
  The server and the client of FileTransfer_Proyecto together. Each runs against the
  answers of its own kernel; the two are wired when the input of each is a segmentation,
  any segmentation, of what the other has sent by the end of its run.
\<close>

section \<open>Wiring\<close>

definition wired :: "os \<Rightarrow> int \<Rightarrow> os \<Rightarrow> int \<Rightarrow> bool" where
  "wired w fd w' fd' \<longleftrightarrow> flowing (rds w fd) \<and> stream (rds w fd) = outs w' fd'"

text \<open>A server process that can serve the bytes \<open>d\<close> under a name.\<close>

definition server_ready :: "os \<Rightarrow> int \<Rightarrow> string \<Rightarrow> string \<Rightarrow> string \<Rightarrow> bool" where
  "server_ready w sock base name d \<longleftrightarrow>
     0 \<le> sock \<and> sock < next_fd w \<and> quiet_heap w \<and> outs w sock = [] \<and>
     line_ok name \<and> set name \<inter> set delims = {} \<and>
     (case files w (base @ name) of
        None \<Rightarrow> False
      | Some f \<Rightarrow> reads_ok (fdata f) \<and> content (fdata f) = d \<and> fsize f = length d) \<and>
     length d < 2 ^ 32 \<and>
     accepting (wrs w sock) (length (frame_of [''OK'', ''Size: '' @ dec (length d)] @ d))"

definition client_ready :: "os \<Rightarrow> int \<Rightarrow> string \<Rightarrow> string \<Rightarrow> string \<Rightarrow> bool" where
  "client_ready w sock name loc d \<longleftrightarrow>
     0 \<le> sock \<and> sock < next_fd w \<and> clean_heap w \<and> outs w sock = [] \<and>
     length name \<le> 1015 \<and> accepting (wrs w sock) (length name + 16) \<and>
     (case creats w loc of None \<Rightarrow> False | Some a \<Rightarrow> accepting a (length d))"

lemma server_ready_request:
  assumes "server_ready w sock base name d"
  shows "list_all (request_ok w base) [Get name]"
    and "reply w base (Get name) = frame_of [''OK'', ''Size: '' @ dec (length d)] @ d"
  using assms by (auto simp: server_ready_def split: option.splits)

text \<open>What the server has sent once the request has arrived, whether or not QUIT has.\<close>

lemma server_sends:
  assumes "server_ready w sock base name d" and "flowing (rds w sock)"
    and "stream (rds w sock) = ''GET '' @ name @ crlf2 @ t" and "t \<in> {[], ''QUIT'' @ crlf2}"
  shows "outs (snd (FtServer.start_protocol sock base w)) sock =
      frame_of [''OK'', ''Size: '' @ dec (length d)] @ d"
    and "t \<noteq> [] \<Longrightarrow> fst (FtServer.start_protocol sock base w) = Ret ()"
proof -
  let ?out = "concat (map (reply w base) [Get name])"
  have rp: "?out = frame_of [''OK'', ''Size: '' @ dec (length d)] @ d"
    using server_ready_request(2) [OF assms(1)] by simp
  have pre: "0 \<le> sock" "sock < next_fd w" "quiet_heap w" "rds w sock = rds w sock @ []" "outs w sock = []"
    using assms(1) by (simp_all add: server_ready_def)
  have acc: "accepting (wrs w sock) (length ?out)"
    unfolding rp using assms(1) by (simp add: server_ready_def)
  have "stream (rds w sock) = concat (map (\<lambda>x. frame_of [request_line x]) [Get name]) @ t"
    using assms(3) by (simp add: frame_of_def)
  from start_protocol_requests [OF server_ready_request(1) [OF assms(1)] pre(1-4) assms(2) this acc]
  obtain w' r' n where run: "FtServer.start_protocol sock base w = serve (Suc n) sock base w'"
    and w': "outs w' sock = ?out" "rds w' sock = r' @ []" "flowing r'" "stream r' = t" "quiet_heap w'"
    using pre(5) by auto
  have "outs (snd (FtServer.start_protocol sock base w)) sock = ?out \<and>
      (t \<noteq> [] \<longrightarrow> fst (FtServer.start_protocol sock base w) = Ret ())"
  proof (cases "t = []")
    case True
    with w'(2-4) have "rds w' sock = []" by (simp add: flowing_stream_Nil)
    from serve_waits [OF this] run w'(1) True show ?thesis by simp
  next
    case False
    with assms(4) w'(4) have "stream r' = frame_of [''QUIT'']" by (simp add: frame_of_def)
    from serve_quit [OF w'(5,2,3) this] run w'(1) show ?thesis by simp
  qed
  with rp show "outs (snd (FtServer.start_protocol sock base w)) sock =
      frame_of [''OK'', ''Size: '' @ dec (length d)] @ d"
    and "t \<noteq> [] \<Longrightarrow> fst (FtServer.start_protocol sock base w) = Ret ()"
    by simp_all
qed

text \<open>The same for a listing: the client sends its request and nothing else.\<close>

definition list_client_ready :: "os \<Rightarrow> int \<Rightarrow> bool" where
  "list_client_ready w sock \<longleftrightarrow>
     0 \<le> sock \<and> clean_heap w \<and> outs w sock = [] \<and> accepting (wrs w sock) 8 \<and>
     socks w = [sock] \<and> connects w = [0]"

definition list_server_ready :: "os \<Rightarrow> int \<Rightarrow> string \<Rightarrow> string list \<Rightarrow> bool" where
  "list_server_ready w sock base es \<longleftrightarrow>
     0 \<le> sock \<and> sock < next_fd w \<and> quiet_heap w \<and> outs w sock = [] \<and>
     dirs w base = Some es \<and> list_all (\<lambda>n. length n \<le> 255) es \<and>
     accepting (wrs w sock) (length (frame_of (listed es)))"

text \<open>The loop that reads the listing, after the request.\<close>

lemma get_list_run:
  assumes "list_client_ready w sock" and "length os = 4" and "\<forall>v\<in>set os. v < 256"
  shows "\<exists>v. rds v = rds w \<and> stdout v = stdout w \<and> quiet_heap v \<and> outs v sock = ''LIST'' @ crlf2 \<and>
    get_list a0 port (inet_ntop4 os) w =
      bindIO (read_list sock \<lparr>cap = 254, chars = [], slack = []\<rparr>) (\<lambda>b.
        bindIO (sys_printf (chars b)) (\<lambda>_. bindIO (closeTCPSocket sock) (\<lambda>_. retIO 0))) v"
proof -
  from assms have "socks w = sock # []" "connects w = 0 # []" "0 \<le> sock" "clean_heap w"
    "accepting (wrs w sock) 8" "outs w sock = []"
    by (simp_all add: list_client_ready_def)
  from get_list_sent [OF assms(2,3) this(1-5), of a0 port] this(4,6) obtain k where
    run: "get_list a0 port (inet_ntop4 os) w =
      bindIO (read_list sock \<lparr>cap = 254, chars = [], slack = []\<rparr>) (\<lambda>b.
        bindIO (sys_printf (chars b)) (\<lambda>_. bindIO (closeTCPSocket sock) (\<lambda>_. retIO 0)))
      (wrote sock (''LIST'' @ crlf2) k (connected w [] [] sock (net_addr a0 os port)))" by blast
  with \<open>clean_heap w\<close> \<open>outs w sock = []\<close> show ?thesis
    by (intro exI [of _ "wrote sock (''LIST'' @ crlf2) k (connected w [] [] sock (net_addr a0 os port))"])
      (auto simp: clean_heap_def quiet_heap_def connected_def)
qed

lemma list_says:
  assumes "list_client_ready w sock" and "length os = 4" and "\<forall>v\<in>set os. v < 256"
  shows "outs (snd (get_list a0 port (inet_ntop4 os) w)) sock = ''LIST'' @ crlf2"
proof -
  let ?b = "\<lparr>cap = 254, chars = [], slack = []\<rparr>"
  from get_list_run [OF assms, of a0 port] obtain v where v: "outs v sock = ''LIST'' @ crlf2" and
    run: "get_list a0 port (inet_ntop4 os) w = bindIO (read_list sock ?b) (\<lambda>b.
        bindIO (sys_printf (chars b)) (\<lambda>_. bindIO (closeTCPSocket sock) (\<lambda>_. retIO 0))) v" by blast
  from lst.rl_state [of sock ?b v] obtain x q where
    rr: "read_list sock ?b v = (x, with_rds sock q v)" by (metis prod.collapse)
  show ?thesis unfolding run
    by (cases x) (use rr v in \<open>simp_all add: bindIO_def sys_printf_def closeTCPSocket_def sys_close_def\<close>)
qed

lemma list_server_sends:
  assumes "list_server_ready w sock base es" and "flowing (rds w sock)"
    and "stream (rds w sock) = ''LIST'' @ crlf2"
  shows "\<exists>w'. FtServer.start_protocol sock base w = (Blocked, w') \<and> outs w' sock = frame_of (listed es)"
proof -
  let ?out = "concat (map (reply w base) [List_Dir])"
  have pre: "0 \<le> sock" "sock < next_fd w" "quiet_heap w" "rds w sock = rds w sock @ []" "outs w sock = []"
    using assms(1) by (simp_all add: list_server_ready_def)
  have out: "?out = frame_of (listed es)" using assms(1) by (simp add: list_server_ready_def)
  have ok: "list_all (request_ok w base) [List_Dir]" using assms(1) by (simp add: list_server_ready_def)
  have acc: "accepting (wrs w sock) (length ?out)"
    unfolding out using assms(1) by (simp add: list_server_ready_def)
  have "stream (rds w sock) = concat (map (\<lambda>x. frame_of [request_line x]) [List_Dir]) @ []"
    using assms(3) by (simp add: frame_of_def)
  from start_protocol_requests [OF ok pre(1-4) assms(2) this acc] obtain w' r' n where
    "FtServer.start_protocol sock base w = serve (Suc n) sock base w'" "outs w' sock = ?out"
    "rds w' sock = r' @ []" "flowing r'" "stream r' = []" using pre(5) by auto
  with out serve_waits [of w' sock n base] show ?thesis by (simp add: flowing_stream_Nil)
qed

section \<open>Properties\<close>

text \<open>A file goes through the two programs unchanged. When the server and the client are
  wired to each other, however the network and the kernels cut the bytes in either
  direction, both return and the local file holds exactly the bytes of the server's file.
  The wiring assumes no order of events: that the client sends its request whatever comes
  back, and QUIT only after the reply, is part of what is proved.\<close>

theorem get_roundtrip:
  assumes "server_ready ws ss base name d" and "client_ready wc cs name loc d"
    and "wired ws ss (snd (FtClient.start_protocol cs name loc wc)) cs"
    and "wired wc cs (snd (FtServer.start_protocol ss base ws)) ss"
  shows "\<exists>ws' wc'. FtServer.start_protocol ss base ws = (Ret (), ws') \<and>
    FtClient.start_protocol cs name loc wc = (Ret (), wc') \<and>
    outs wc' (next_fd wc) = d \<and> created wc' = created wc @ [(loc, next_fd wc)]"
proof -
  from assms(2) obtain a where c: "0 \<le> cs" "cs < next_fd wc" "clean_heap wc" "outs wc cs = []"
    "length name \<le> 1015" "accepting (wrs wc cs) (length name + 16)"
    "creats wc loc = Some a" "accepting a (length d)"
    by (auto simp: client_ready_def split: option.splits)
  from client_says [OF c(3,5,1,2,6), of loc] obtain t where t: "t \<in> {[], ''QUIT'' @ crlf2}"
    "outs (snd (FtClient.start_protocol cs name loc wc)) cs = ''GET '' @ name @ crlf2 @ t"
    using c(4) by auto
  with assms(3) have s: "flowing (rds ws ss)" "stream (rds ws ss) = ''GET '' @ name @ crlf2 @ t"
    by (simp_all add: wired_def)
  note srv = server_sends [OF assms(1) s t(1)]
  have "flowing (rds wc cs)" "stream (rds wc cs) = frame_of [''OK'', ''Size: '' @ dec (length d)] @ d"
    using assms(4) srv(1) by (simp_all add: wired_def)
  moreover have "length d < 2 ^ 63" using assms(1) by (simp add: server_ready_def)
  moreover have "rds wc cs = rds wc cs @ []" by simp
  ultimately obtain wc' where wc': "FtClient.start_protocol cs name loc wc = (Ret (), wc')"
    "outs wc' (next_fd wc) = d" "created wc' = created wc @ [(loc, next_fd wc)]"
    "outs wc' cs = ''GET '' @ name @ crlf2 @ ''QUIT'' @ crlf2"
    using fetch_ok [OF c(3,5) _ _ _ _ c(7,8,1,2,6), of "rds wc cs" "[]"] c(4) by auto
  with t(2) have "t \<noteq> []" by auto
  with srv(2) have "fst (FtServer.start_protocol ss base ws) = Ret ()" by simp
  with wc' show ?thesis by (cases "FtServer.start_protocol ss base ws") auto
qed

text \<open>The two ends of a session that fetches a file of three bytes.\<close>

abbreviation get_srv :: os where
  "get_srv \<equiv> with_rds 7 [Rd_Data (''GET a'' @ crlf), Rd_Data (crlf @ ''QUIT'' @ crlf2)] demo_srv"

abbreviation get_cli :: os where
  "get_cli \<equiv> demo_cli [Rd_Data (''OK'' @ crlf @ ''Size: 3''), Rd_Data (crlf2 @ ''x''), Rd_Data ''yz'']"

lemma get_roundtrip_witness:
  "\<exists>ws' wc'. FtServer.start_protocol 7 ''/srv/'' get_srv = (Ret (), ws') \<and>
    FtClient.start_protocol 4 ''a'' ''b'' get_cli = (Ret (), wc') \<and>
    outs wc' (next_fd get_cli) = ''xyz'' \<and> created wc' = created get_cli @ [(''b'', next_fd get_cli)]"
proof -
  have srv: "server_ready get_srv 7 ''/srv/'' ''a'' ''xyz''"
    by (simp add: server_ready_def line_ok_def frame_of_def dec_small accepting_replicate)
  have cli: "client_ready get_cli 4 ''a'' ''b'' ''xyz''"
    by (simp add: client_ready_def accepting_replicate)
  have "\<exists>w'. FtClient.start_protocol 4 ''a'' ''b'' get_cli = (Ret (), w') \<and>
    outs w' (next_fd get_cli) = ''xyz'' \<and> created w' = created get_cli @ [(''b'', next_fd get_cli)] \<and>
    outs w' 4 = outs get_cli 4 @ ''GET '' @ ''a'' @ crlf2 @ ''QUIT'' @ crlf2 \<and> rds w' 4 = []"
    by (rule fetch_ok [of _ _ _ "rds get_cli 4" _ _ _ "replicate 9 (Wr_Acc 1)"])
      (simp_all add: frame_of_def dec_small accepting_replicate)
  then have "wired get_srv 7 (snd (FtClient.start_protocol 4 ''a'' ''b'' get_cli)) 4"
    by (auto simp: wired_def)
  moreover have "outs (snd (FtServer.start_protocol 7 ''/srv/'' get_srv)) 7 =
      frame_of [''OK'', ''Size: '' @ dec (length ''xyz'')] @ ''xyz''"
    by (rule server_sends(1) [OF srv, of "''QUIT'' @ crlf2"]) simp_all
  then have "wired get_cli 4 (snd (FtServer.start_protocol 7 ''/srv/'' get_srv)) 7"
    by (simp add: wired_def frame_of_def dec_small)
  ultimately show ?thesis by (rule get_roundtrip [OF srv cli])
qed

text \<open>A directory listing goes through the two programs unchanged: the client prints the
  names the server found, dot entries excepted, one per line in the server's order, and
  returns; the server is left waiting for a next command.\<close>

theorem list_roundtrip:
  assumes "list_server_ready ws ss base es" and "list_client_ready wc cs"
    and "length os = 4" and "\<forall>v\<in>set os. v < 256" and "lines_ok (listed es)"
    and "wired ws ss (snd (get_list a0 port (inet_ntop4 os) wc)) cs"
    and "wired wc cs (snd (FtServer.start_protocol ss base ws)) ss"
  shows "\<exists>ws' wc'. FtServer.start_protocol ss base ws = (Blocked, ws') \<and>
    get_list a0 port (inet_ntop4 os) wc = (Ret 0, wc') \<and> stdout wc' = stdout wc @ body_of (listed es)"
proof -
  let ?b = "\<lparr>cap = 254, chars = [], slack = []\<rparr>"
  have "flowing (rds ws ss)" "stream (rds ws ss) = ''LIST'' @ crlf2"
    using assms(6) list_says [OF assms(2-4), of a0 port] by (simp_all add: wired_def)
  from list_server_sends [OF assms(1) this] obtain ws' where
    ws': "FtServer.start_protocol ss base ws = (Blocked, ws')" "outs ws' ss = frame_of (listed es)" by blast
  with assms(7) have rc: "flowing (rds wc cs)" "stream (rds wc cs) = frame_of (listed es) @ []"
    by (simp_all add: wired_def)
  from get_list_run [OF assms(2-4), of a0 port] obtain v where
    v: "rds v = rds wc" "stdout v = stdout wc" "quiet_heap v" and
    run: "get_list a0 port (inet_ntop4 os) wc = bindIO (read_list cs ?b) (\<lambda>b.
        bindIO (sys_printf (chars b)) (\<lambda>_. bindIO (closeTCPSocket cs) (\<lambda>_. retIO 0))) v" by blast
  have "rds v cs = rds wc cs @ []" using v(1) by simp
  from lst.rl_frame [OF assms(5) v(3) this rc, of ?b] obtain r' n where rl:
    "read_list cs ?b v = (Ret \<lparr>cap = n, chars = body_of (listed es), slack = [LF, CR, LF]\<rparr>, with_rds cs (r' @ []) v)"
    by (simp only: cbuf.select_convs append_Nil) blast
  have "\<exists>wc'. get_list a0 port (inet_ntop4 os) wc = (Ret 0, wc') \<and>
      stdout wc' = stdout wc @ body_of (listed es)"
    unfolding run bindIO_Ret [where m = "read_list cs ?b", OF rl]
    by (simp add: bindIO_def sys_printf_def closeTCPSocket_def sys_close_def v(2))
  with ws' show ?thesis by blast
qed

text \<open>The two ends of a session that lists a directory of the names \<open>es\<close>.\<close>

definition list_srv :: "string list \<Rightarrow> os" where
  "list_srv es = (with_rds 7 [Rd_Data (''LIST'' @ crlf), Rd_Data crlf] demo_srv)
     \<lparr>dirs := (\<lambda>_. None)(''/srv/'' := Some es)\<rparr>"

lemma list_srv_sel [simp]:
  "rds (list_srv es) 7 = [Rd_Data (''LIST'' @ crlf), Rd_Data crlf]" "next_fd (list_srv es) = 8"
  "dirs (list_srv es) ''/srv/'' = Some es" "outs (list_srv es) 7 = []" "quiet_heap (list_srv es)"
  "wrs (list_srv es) 7 = replicate 64 (Wr_Acc 2)"
  by (simp_all add: list_srv_def demo_srv_def quiet_heap_def)

lemma demo_list_client: "list_client_ready (demo_cli r) 4"
  by (simp add: list_client_ready_def accepting_replicate)

lemma demo_list_wiring:
  assumes "list_server_ready (list_srv es) 7 ''/srv/'' es"
  shows "wired (list_srv es) 7 (snd (get_list a0 port (inet_ntop4 [127, 0, 0, 1]) (demo_cli r))) 4"
    and "flowing r \<Longrightarrow> stream r = frame_of (listed es) \<Longrightarrow>
      wired (demo_cli r) 4 (snd (FtServer.start_protocol 7 ''/srv/'' (list_srv es))) 7"
  using list_says [OF demo_list_client, of "[127, 0, 0, 1]" a0 port r] list_server_sends [OF assms]
  by (auto simp: wired_def)

lemma list_roundtrip_witness:
  "\<exists>ws' wc'. FtServer.start_protocol 7 ''/srv/'' (list_srv [''.'', ''..'', ''a'', ''b'']) = (Blocked, ws') \<and>
    get_list \<lparr>sin_family = 0, sin_port = 0, sin_addr = [], sin_zero = []\<rparr> 7000 (inet_ntop4 [127, 0, 0, 1])
      (demo_cli [Rd_Data (''a'' @ [CR]), Rd_Data (LF # ''b'' @ crlf2)]) = (Ret 0, wc') \<and>
    stdout wc' = ''a'' @ crlf @ ''b''"
proof -
  let ?es = "[''.'', ''..'', ''a'', ''b'']" and ?r = "[Rd_Data (''a'' @ [CR]), Rd_Data (LF # ''b'' @ crlf2)]"
  have ls: "listed ?es = [''a'', ''b'']" by (simp add: listed_def)
  have srv: "list_server_ready (list_srv ?es) 7 ''/srv/'' ?es"
    unfolding list_server_ready_def ls by (simp add: frame_of_def accepting_replicate)
  have st: "stream ?r = frame_of (listed ?es)" unfolding ls by (simp add: frame_of_def)
  have fl: "flowing ?r" by simp
  let ?a = "\<lparr>sin_family = 0, sin_port = 0, sin_addr = [], sin_zero = []\<rparr>"
  have "\<exists>ws' wc'. FtServer.start_protocol 7 ''/srv/'' (list_srv ?es) = (Blocked, ws') \<and>
    get_list ?a 7000 (inet_ntop4 [127, 0, 0, 1]) (demo_cli ?r) = (Ret 0, wc') \<and>
    stdout wc' = stdout (demo_cli ?r) @ body_of (listed ?es)"
    by (rule list_roundtrip [OF srv demo_list_client _ _ _ demo_list_wiring(1) [OF srv] demo_list_wiring(2) [OF srv fl st]])
      (simp_all add: ls lines_ok_def line_ok_def)
  then show ?thesis unfolding ls by simp
qed

text \<open>The listing of an empty directory deadlocks the two programs: the reply is a single
  empty line, the client waits for the rest of a terminator that never comes, and the
  server waits for a command.\<close>

theorem list_empty_deadlock:
  assumes "list_server_ready ws ss base es" and "list_client_ready wc cs"
    and "length os = 4" and "\<forall>v\<in>set os. v < 256" and "listed es = []"
    and "wired ws ss (snd (get_list a0 port (inet_ntop4 os) wc)) cs"
    and "wired wc cs (snd (FtServer.start_protocol ss base ws)) ss"
  shows "\<exists>ws' wc'. FtServer.start_protocol ss base ws = (Blocked, ws') \<and>
    get_list a0 port (inet_ntop4 os) wc = (Blocked, wc') \<and> stdout wc' = stdout wc"
proof -
  let ?b = "\<lparr>cap = 254, chars = [], slack = []\<rparr>"
  have "flowing (rds ws ss)" "stream (rds ws ss) = ''LIST'' @ crlf2"
    using assms(6) list_says [OF assms(2-4), of a0 port] by (simp_all add: wired_def)
  from list_server_sends [OF assms(1) this] obtain ws' where
    ws': "FtServer.start_protocol ss base ws = (Blocked, ws')" "outs ws' ss = frame_of (listed es)" by blast
  with assms(5,7) have rc: "flowing (rds wc cs)" "stream (rds wc cs) = crlf @ []"
    by (simp_all add: wired_def frame_of_def)
  from get_list_run [OF assms(2-4), of a0 port] obtain v where
    v: "rds v = rds wc" "stdout v = stdout wc" "quiet_heap v" and
    run: "get_list a0 port (inet_ntop4 os) wc = bindIO (read_list cs ?b) (\<lambda>b.
        bindIO (sys_printf (chars b)) (\<lambda>_. bindIO (closeTCPSocket cs) (\<lambda>_. retIO 0))) v" by blast
  have rv: "rds v cs = rds wc cs @ []" using v(1) by simp
  have "\<forall>p. prefix p crlf \<and> p \<noteq> [] \<longrightarrow> \<not> suffix crlf2 (chars ?b @ p)"
    by (auto simp: prefix_Cons suffix_def)
  from lst.rl_bytes [OF v(3) rv rc _ this] obtain r' n where r': "flowing r'" "stream r' = []"
    and rl: "read_list cs ?b v = read_list cs \<lparr>cap = n, chars = chars ?b @ crlf, slack = []\<rparr> (with_rds cs (r' @ []) v)"
    by (auto simp del: append_Nil2)
  from r' have "rds (with_rds cs (r' @ []) v) cs = []" by (simp add: flowing_stream_Nil)
  from rl lst.rl_blocked [OF this] have "read_list cs ?b v = (Blocked, with_rds cs (r' @ []) v)" by simp
  then have "get_list a0 port (inet_ntop4 os) wc = (Blocked, with_rds cs (r' @ []) v)"
    unfolding run by (rule bindIO_Blocked)
  with ws' v(2) show ?thesis by simp
qed

lemma list_empty_deadlock_witness:
  "\<exists>ws' wc'. FtServer.start_protocol 7 ''/srv/'' (list_srv [''.'', ''..'']) = (Blocked, ws') \<and>
    get_list \<lparr>sin_family = 0, sin_port = 0, sin_addr = [], sin_zero = []\<rparr> 7000 (inet_ntop4 [127, 0, 0, 1])
      (demo_cli [Rd_Data crlf]) = (Blocked, wc') \<and> stdout wc' = []"
proof -
  let ?es = "[''.'', ''..'']"
  have ls: "listed ?es = []" by (simp add: listed_def)
  have srv: "list_server_ready (list_srv ?es) 7 ''/srv/'' ?es"
    unfolding list_server_ready_def ls by (simp add: frame_of_def accepting_replicate)
  have st: "stream [Rd_Data crlf] = frame_of (listed ?es)" unfolding ls by (simp add: frame_of_def)
  have fl: "flowing [Rd_Data crlf]" by simp
  let ?a = "\<lparr>sin_family = 0, sin_port = 0, sin_addr = [], sin_zero = []\<rparr>"
  have "\<exists>ws' wc'. FtServer.start_protocol 7 ''/srv/'' (list_srv ?es) = (Blocked, ws') \<and>
    get_list ?a 7000 (inet_ntop4 [127, 0, 0, 1]) (demo_cli [Rd_Data crlf]) = (Blocked, wc') \<and>
    stdout wc' = stdout (demo_cli [Rd_Data crlf])"
    by (rule list_empty_deadlock [OF srv demo_list_client _ _ ls demo_list_wiring(1) [OF srv] demo_list_wiring(2) [OF srv fl st]])
      simp_all
  then show ?thesis by simp
qed

end
