(* ===== verification/Int_Loops.thy ===== *)
theory Int_Loops
  imports Evolve U32_Loops
begin

text \<open>
  The \<open>while\<close> loop that writes a buffer with a signed counter, as both programs of
  file_transfer have it. A failed write moves the counter back by one: on the first byte
  the pointer then lies before the buffer.
\<close>

locale while_int =
  fixes wl :: "int \<Rightarrow> string \<Rightarrow> int \<Rightarrow> int \<Rightarrow> int cio"
  assumes wl_eq:
    "wl fd mem n c w =
       (if c < n then
          bindIO (sys_write fd mem c (nat (n - c))) (\<lambda>r w'. wl fd mem n (c + r) w') w
        else (Ret c, w))"
begin

text \<open>The loop from a counter that is not negative.\<close>

definition nl :: "int \<Rightarrow> string \<Rightarrow> nat \<Rightarrow> nat \<Rightarrow> nat cio" where
  "nl fd mem n c w = apfst (map_res nat) (wl fd mem (int n) (int c) w)"

lemma nl_wait:
  assumes "c < n" "n \<le> length mem" "wrs w fd = []"
  shows "nl fd mem n c w = (Blocked, w)"
  using assms sys_write_blocked [OF assms(3), of c "n - c" mem]
  by (simp add: nl_def wl_eq [of fd mem "int n" "int c" w] nat_diff_distrib)

lemma nl_acc:
  assumes c: "c < n" "n \<le> length mem" and wr: "wrs w fd = Wr_Acc k # r"
  shows "\<exists>c'. c' = c + min k (n - c) \<and>
      nl fd mem n c w =
        (let w' = wrote fd (take (min k (n - c)) (drop c mem)) 1 w
         in if c' < n then nl fd mem n c' w' else (Ret c', w'))"
proof -
  define m where "m = min k (n - c)"
  let ?w = "wrote fd (take m (drop c mem)) 1 w"
  have "sys_write fd mem (int c) (n - c) w = (Ret (int m), ?w)"
    using sys_write_acc [OF wr, of c "n - c" mem] c by (simp add: m_def)
  then have run: "wl fd mem (int n) (int c) w = wl fd mem (int n) (int (c + m)) ?w"
    using c by (simp add: wl_eq [of fd mem "int n" "int c" w] nat_diff_distrib)
  have "wl fd mem (int n) (int (c + m)) ?w = (Ret (int (c + m)), ?w)" if "\<not> c + m < n"
    by (subst wl_eq) (use that in simp)
  with run show ?thesis
    unfolding m_def [symmetric] Let_def by (intro exI [of _ "c + m"]) (simp add: nl_def nat_add_distrib)
qed

lemma wl_wrote: "\<exists>bs k. snd (wl fd mem n c w) = wrote fd bs k w"
proof (induction "length (wrs w fd)" arbitrary: c w rule: less_induct)
  case less
  show ?case
  proof (cases "c < n")
    case True
    obtain r w1 where wr: "sys_write fd mem c (nat (n - c)) w = (r, w1)" by fastforce
    then obtain bs k where w1: "w1 = wrote fd bs k w" using sys_write_wrote by blast
    show ?thesis
    proof (cases r)
      case (Ret x)
      with wr have "length (wrs w1 fd) < length (wrs w fd)" by (auto dest: sys_write_decreases)
      from less.hyps [OF this, of "c + x"] obtain bs2 k2 where
        "snd (wl fd mem n (c + x) w1) = wrote fd bs2 k2 w1" by blast
      moreover have "wl fd mem n c w = wl fd mem n (c + x) w1"
        using True wr Ret by (simp add: wl_eq [of fd mem n c w])
      ultimately show ?thesis using w1 by auto
    qed (use True wr w1 in \<open>auto simp: wl_eq [of fd mem n c w]\<close>)
  next
    case False
    then show ?thesis by (intro exI [of _ "[]"] exI [of _ 0]) (simp add: wl_eq [of fd mem n c w])
  qed
qed

lemma keeps_wl [evolve]: "keeps evolves (wl fd mem n c)"
  by (rule keepsI) (metis wl_wrote evolves_wrote)

lemma causal_wl [caus]: "causal g (wl fd mem n c)"
proof (rule causalI)
  have eq: "wl fd mem n c = (if c < n then
      bindIO (sys_write fd mem c (nat (n - c))) (\<lambda>r. wl fd mem n (c + r)) else retIO c)" for c
    by (rule ext) (simp add: wl_eq [of fd mem n c])
  fix w show "causal_at g w (wl fd mem n c)"
  proof (induction "length (wrs w fd)" arbitrary: c w rule: less_induct)
    case less
    show ?case
      by (subst eq) (auto intro!: causal_bind_at intro: causalD caus keeps_at evolve less dest: sys_write_decreases)
  qed
qed

text \<open>
  The books of the loop: each byte accepted moves the counter up, each failed write moves it down
  by one. So the bytes written and the failures still to come change as the counter does, whatever
  the writes answer; a counter below 0 ends the loop at once.
\<close>

lemma wl_tracks:
  assumes "wl fd mem n c w = (r, w')" and "n \<le> int (length mem)"
  shows "owed fd w' \<le> owed fd w + max 0 (n - max 0 c) \<and>
    (\<forall>x. r = Ret x \<longrightarrow> x \<le> max c n \<and> owed fd w' = owed fd w + (x - c) \<and> (0 \<le> c \<or> x = c))"
  using assms
proof (induction "length (wrs w fd)" arbitrary: c w rule: less_induct)
  case less
  show ?case
  proof (cases "c < n \<and> 0 \<le> c")
    case True
    show ?thesis
    proof (cases "wrs w fd")
      case Nil
      with less.prems True show ?thesis by (auto simp: wl_eq [of fd mem n c w] sys_write_def)
    next
      case (Cons a rest)
      show ?thesis
      proof (cases a)
        case Wr_Err
        let ?w = "wrote fd [] 1 w"
        have "sys_write fd mem c (nat (n - c)) w = (Ret (-1), ?w)"
          using sys_write_err [OF Cons [unfolded Wr_Err], of "nat c" "nat (n - c)" mem] True less.prems(2)
          by (simp add: nat_le_iff flip: nat_add_distrib)
        with True have run: "wl fd mem n c w = wl fd mem n (c - 1) ?w" by (simp add: wl_eq [of fd mem n c w])
        have "owed fd ?w = owed fd w - 1" "length (wrs ?w fd) < length (wrs w fd)"
          using Cons Wr_Err by (simp_all add: owed_def)
        with less.hyps [of ?w "c - 1"] less.prems run True show ?thesis by (auto simp: max_def split: if_splits)
      next
        case (Wr_Acc k)
        let ?m = "min k (nat (n - c))"
        let ?w = "wrote fd (take ?m (drop (nat c) mem)) 1 w"
        have run: "wl fd mem n c w = wl fd mem n (c + int ?m) ?w"
          using sys_write_acc [OF Cons [unfolded Wr_Acc], of "nat c" "nat (n - c)" mem] True less.prems(2)
          by (simp add: wl_eq [of fd mem n c w] nat_le_iff flip: nat_add_distrib)
        have "nat (n - c) \<le> length mem - nat c" using True less.prems(2) by linarith
        then have "length (take ?m (drop (nat c) mem)) = ?m" by simp
        then have "owed fd ?w = owed fd w + int ?m" "length (wrs ?w fd) < length (wrs w fd)"
          using Cons Wr_Acc by (simp_all add: owed_def)
        moreover have "int ?m \<le> n - c" using True by (simp add: min_def le_nat_iff)
        ultimately show ?thesis
          using less.hyps [of ?w "c + int ?m"] less.prems run True by (auto simp: max_def split: if_splits)
      qed
    qed
  next
    case False
    with less.prems show ?thesis by (auto simp: wl_eq [of fd mem n c w] sys_write_def split: if_splits)
  qed
qed

text \<open>A first write that fails.\<close>

lemma wl_first_error:
  assumes "wrs w fd = Wr_Err # r" and "mem \<noteq> []"
  shows "wl fd mem (int (length mem)) 0 w = (Crash Out_Of_Bounds, wrote fd [] 1 w)"
proof -
  have "sys_write fd mem 0 (length mem) w = (Ret (-1), wrote fd [] 1 w)"
    using sys_write_err [OF assms(1), of 0 "length mem" mem] by simp
  moreover have "sys_write fd mem (-1) (nat (int (length mem) + 1)) v = (Crash Out_Of_Bounds, v)" for v
    by (simp add: sys_write_def)
  then have "wl fd mem (int (length mem)) (-1) v = (Crash Out_Of_Bounds, v)" for v
    by (simp add: wl_eq [of fd mem "int (length mem)" "-1" v])
  ultimately show ?thesis
    using assms(2) by (simp add: wl_eq [of fd mem "int (length mem)" 0 w])
qed

end

sublocale while_int \<subseteq> write_all nl "\<lambda>c. c" "2 ^ 31"
proof
  fix c n :: nat and mem :: string and w :: os and fd :: int and k r
  assume c: "c < n" "n \<le> length mem"
  show "nl fd mem n c w = (Blocked, w)" if "wrs w fd = []" using c that by (rule nl_wait)
  show "\<exists>c'. c' = c + min k (n - c) \<and>
      nl fd mem n c w =
        (let w' = wrote fd (take (min k (n - c)) (drop c mem)) 1 w
         in if c' < n then nl fd mem n c' w' else (Ret c', w'))" if "wrs w fd = Wr_Acc k # r"
    using c that by (rule nl_acc)
qed

context while_int
begin

text \<open>All the bytes of one \<open>read\<close> go out.\<close>

lemma wl_all:
  assumes "bs \<noteq> []" and "length bs < 2 ^ 31" and "accepting (wrs w fd) (length bs)"
  shows "\<exists>c k. wl fd bs (int (length bs)) 0 w = (Ret c, wrote fd bs k w) \<and> k \<le> length bs"
proof -
  from assms have "0 < length bs" "length bs \<le> length bs" "length bs < 2 ^ 31"
    "accepting (wrs w fd) (length bs - 0)" by auto
  from lp_total [OF this] obtain c k where
    "nl fd bs (length bs) 0 w = (Ret c, wrote fd bs k w)" "k \<le> length bs" by auto
  then show ?thesis
    by (cases "wl fd bs (int (length bs)) 0 w"; cases "fst (wl fd bs (int (length bs)) 0 w)")
      (auto simp: nl_def)
qed

end

end
