(* ===== verification/FileSend.thy ===== *)
theory FileSend
  imports Netlib Int_Loops Clock
begin

text \<open>
  file_transfer/client.c and file_transfer/server.c: the client sends a file as the whole
  content of a connection, the server writes what arrives to a file. The running totals of
  both programs only go to debug messages and are left out.
\<close>

section \<open>The transmitter\<close>

text \<open>Lines 52 to 56 of client.c; all counters are signed.\<close>

function put_loop :: "int \<Rightarrow> string \<Rightarrow> int \<Rightarrow> int \<Rightarrow> int cio" where
  "put_loop sock buffer readBytes totalWriteBytes w =
     (if totalWriteBytes < readBytes then
        bindIO (sys_write sock buffer totalWriteBytes (nat (readBytes - totalWriteBytes))) (\<lambda>writeBytes w'.
          put_loop sock buffer readBytes (totalWriteBytes + writeBytes) w') w
      else (Ret totalWriteBytes, w))"
  by pat_completeness auto
termination
  by (relation "measure (\<lambda>(sock, buf, rb, tw, w). length (wrs w sock))")
    (auto dest: sys_write_decreases)

declare put_loop.simps [simp del]

interpretation put: while_int put_loop
  by unfold_locales (rule put_loop.simps)

text \<open>
  Lines 57 to 61: the rate of one block, computed in \<open>u_long\<close>, is printed. \<open>start\<close> and
  \<open>end\<close> may be equal.
\<close>

definition rate :: "nat \<Rightarrow> u64 \<Rightarrow> u64 \<Rightarrow> u64 res" where
  "rate readBytes start stop =
     (if stop - start = 0 then Crash Div_By_Zero
      else Ret (of_nat readBytes div (stop - start) * 1000 div 1024))"

definition report :: "string \<Rightarrow> u32 \<Rightarrow> u64 \<Rightarrow> string" where
  "report ip_dst port kbps =
     CR # ''Transfiriendo a '' @ ip_dst @ '':'' @ dec (unat port) @ TAB # dec (unat kbps) @ TAB # ''KBps''"

definition block_done :: "string \<Rightarrow> u32 \<Rightarrow> nat \<Rightarrow> u64 \<Rightarrow> u64 cio" where
  "block_done ip_dst port readBytes start =
     bindIO currentTimeMillis (\<lambda>stop.
     bindIO (liftR (rate readBytes start stop)) (\<lambda>kbps.
     bindIO (sys_printf (report ip_dst port kbps)) (\<lambda>_.
     currentTimeMillis)))"

lemma block_done_frame:
  assumes "block_done ip port n start w = (r, w')"
  shows "rds w' = rds w" and "wrs w' = wrs w" and "outs w' = outs w"
proof -
  obtain r1 w1 where t: "currentTimeMillis w = (r1, w1)" by fastforce
  then have "rds w1 = rds w \<and> wrs w1 = wrs w \<and> outs w1 = outs w" by (auto simp: currentTimeMillis_run)
  with assms t show "rds w' = rds w" and "wrs w' = wrs w" and "outs w' = outs w"
    by (auto simp: block_done_def bindIO_def rate_def sys_printf_def currentTimeMillis_run
        split: if_splits)
qed

function put_file :: "int \<Rightarrow> int \<Rightarrow> string \<Rightarrow> u32 \<Rightarrow> u64 \<Rightarrow> unit cio" where
  "put_file sock fl ip_dst port start w =
     bindIO (sys_read fl 102400) (\<lambda>r w1.
       case r of
         None \<Rightarrow> (Ret (), w1)
       | Some bs \<Rightarrow>
           if bs = [] then (Ret (), w1)
           else bindIO (put_loop sock bs (int (length bs)) 0) (\<lambda>_ w2.
                bindIO (block_done ip_dst port (length bs) start) (\<lambda>start' w3.
                  put_file sock fl ip_dst port start' w3) w2) w1) w"
  by pat_completeness auto
termination
proof (relation "measure (\<lambda>(sock, fl, ip, port, start, w). rd_size (rds w fl))")
  fix sock fl ip start w r w1 bs x w2 st w3 and port :: u32
  assume rd: "sys_read fl 102400 w = (Ret r, w1)"
    and pt: "put_loop sock bs (int (length bs)) 0 w1 = (Ret x, w2)"
    and bl: "block_done ip port (length bs) start w2 = (Ret st, w3)"
  have "rds w3 = rds w1"
    using block_done_frame(1) [OF bl] put.wl_wrote [of sock bs "int (length bs)" 0 w1] pt by auto
  with sys_read_decreases [OF rd]
  show "((sock, fl, ip, port, st, w3), sock, fl, ip, port, start, w)
      \<in> measure (\<lambda>(sock, fl, ip, port, start, w). rd_size (rds w fl))"
    by simp
qed simp

declare put_file.simps [simp del]

text \<open>The result -1 of \<open>newTCPClientSocket4\<close> is not tested; the port is cut to 16 bits.\<close>

definition start_client :: "sockaddr_in \<Rightarrow> string \<Rightarrow> u32 \<Rightarrow> string \<Rightarrow> bool cio" where
  "start_client a0 ip_dst port filename =
     bindIO (sys_open_rd filename) (\<lambda>fl.
       if fl = -1 then retIO False
       else bindIO (newTCPClientSocket4 a0 ip_dst (ucast port)) (\<lambda>clientSocket.
            bindIO currentTimeMillis (\<lambda>start.
            bindIO (put_file clientSocket fl ip_dst port start) (\<lambda>_.
            bindIO (sys_close fl) (\<lambda>_.
            bindIO (closeTCPSocket clientSocket) (\<lambda>_.
            retIO True))))))"

section \<open>The receiver\<close>

text \<open>Lines 64 to 68 of server.c.\<close>

function store_loop :: "int \<Rightarrow> string \<Rightarrow> int \<Rightarrow> int \<Rightarrow> int cio" where
  "store_loop fl readBuffer readBytes totalWriteBytes w =
     (if totalWriteBytes < readBytes then
        bindIO (sys_write fl readBuffer totalWriteBytes (nat (readBytes - totalWriteBytes))) (\<lambda>writeBytes w'.
          store_loop fl readBuffer readBytes (totalWriteBytes + writeBytes) w') w
      else (Ret totalWriteBytes, w))"
  by pat_completeness auto
termination
  by (relation "measure (\<lambda>(fl, buf, rb, tw, w). length (wrs w fl))")
    (auto dest: sys_write_decreases)

declare store_loop.simps [simp del]

interpretation store: while_int store_loop
  by unfold_locales (rule store_loop.simps)

function take_file :: "int \<Rightarrow> int \<Rightarrow> unit cio" where
  "take_file sock fl w =
     bindIO (sys_read sock 102400) (\<lambda>r w1.
       case r of
         None \<Rightarrow> (Ret (), w1)
       | Some bs \<Rightarrow>
           if bs = [] then (Ret (), w1)
           else bindIO (store_loop fl bs (int (length bs)) 0) (\<lambda>_ w2. take_file sock fl w2) w1) w"
  by pat_completeness auto
termination
proof (relation "measure (\<lambda>(sock, fl, w). rd_size (rds w sock))")
  fix sock fl w r w1 bs x w2
  assume rd: "sys_read sock 102400 w = (Ret r, w1)"
    and st: "store_loop fl bs (int (length bs)) 0 w1 = (Ret x, w2)"
  have "rds w2 = rds w1" using store.wl_wrote [of fl bs "int (length bs)" 0 w1] st by auto
  with sys_read_decreases [OF rd] show "((sock, fl, w2), sock, fl, w) \<in> measure (\<lambda>(sock, fl, w). rd_size (rds w sock))"
    by simp
qed simp

declare take_file.simps [simp del]

definition start_server :: "sockaddr_in \<Rightarrow> string \<Rightarrow> u16 \<Rightarrow> u16 \<Rightarrow> string \<Rightarrow> bool cio" where
  "start_server a0 iface port maxClients filename =
     bindIO (newTCPServerSocket4 a0 iface port (int (unat maxClients))) (\<lambda>serverSocket.
       if serverSocket = -1 then retIO False
       else bindIO (sys_creat filename) (\<lambda>fl.
         if fl = -1 then retIO False
         else bindIO (waitConnection4 serverSocket (Some []) (Some 0)) (\<lambda>(clientSocket, clientIP, clientPort).
              bindIO (take_file clientSocket fl) (\<lambda>_.
              bindIO (sys_close fl) (\<lambda>_.
              bindIO (closeTCPSocket clientSocket) (\<lambda>_.
              bindIO (closeTCPSocket serverSocket) (\<lambda>_.
              retIO True)))))))"

section \<open>What the loops do\<close>

text \<open>A clock of distinct readings.\<close>

definition advancing :: "os \<Rightarrow> bool" where
  "advancing w \<longleftrightarrow> (\<forall>n. reading w n \<noteq> reading w (Suc n))"

lemma block_done_run:
  "block_done ip port n start w =
     (if reading w (ticks w) = start then (Crash Div_By_Zero, w\<lparr>ticks := Suc (ticks w)\<rparr>)
      else (Ret (reading w (Suc (ticks w))),
            w\<lparr>ticks := Suc (Suc (ticks w)),
              stdout := stdout w @ report ip port
                (of_nat n div (reading w (ticks w) - start) * 1000 div 1024)\<rparr>))"
  by (simp add: block_done_def rate_def bindIO_def sys_printf_def currentTimeMillis_reading)
    (simp add: reading_def)

lemma put_file_all:
  assumes "rds w fl = r @ Rd_Data [] # q" and "flowing r" and "fl \<noteq> sock"
    and "accepting (wrs w sock) (length (stream r))" and "advancing w" and "start \<noteq> reading w (ticks w)"
  shows "\<exists>w'. put_file sock fl ip port start w = (Ret (), w') \<and> outs w' sock = outs w sock @ stream r"
  using assms
proof (induction "rd_size r" arbitrary: r w start rule: less_induct)
  case less
  show ?case
  proof (cases "r = []")
    case True
    with less.prems(1) show ?thesis by (subst put_file.simps) (simp add: sys_read_def)
  next
    case False
    obtain bs r' where rd: "sys_read fl 102400 w = (Ret (Some bs), with_rds fl (r' @ Rd_Data [] # q) w)"
      and r': "flowing r'" "stream r = bs @ stream r'" "rd_size r' < rd_size r"
      and bs: "bs \<noteq> []" "length bs \<le> 102400"
      using sys_read_flowing [OF less.prems(1,2) False, of 102400] by (metis zero_less_numeral)
    let ?w1 = "with_rds fl (r' @ Rd_Data [] # q) w"
    have "accepting (wrs ?w1 sock) (length bs)" "length bs < 2 ^ 31"
      using less.prems(4) r'(2) bs by (auto elim: accepting_mono)
    with bs put.wl_all [of bs ?w1 sock] obtain c k where k: "k \<le> length bs" and
      pt: "put_loop sock bs (int (length bs)) 0 ?w1 = (Ret c, wrote sock bs k ?w1)" by auto
    let ?w2 = "wrote sock bs k ?w1"
    have rw: "reading ?w2 n = reading w n" for n by (simp add: reading_def)
    obtain t where bd: "block_done ip port (length bs) start ?w2 =
        (Ret (reading w (Suc (ticks w))), ?w2\<lparr>ticks := Suc (Suc (ticks w)), stdout := t\<rparr>)"
      using less.prems(6) by (auto simp: block_done_run rw)
    let ?w3 = "?w2\<lparr>ticks := Suc (Suc (ticks w)), stdout := t\<rparr>"
    have run: "put_file sock fl ip port start w = put_file sock fl ip port (reading w (Suc (ticks w))) ?w3"
      using rd pt bd bs(1) by (subst put_file.simps) simp
    have "rds ?w3 fl = r' @ Rd_Data [] # q" "outs ?w3 sock = outs w sock @ bs"
      "accepting (wrs ?w3 sock) (length (stream r'))"
      using accepting_drop [OF less.prems(4), of k] k r'(2) by (auto elim: accepting_mono)
    moreover have rd3: "reading ?w3 n = reading w n" for n by (simp add: reading_def)
    then have "advancing ?w3" using less.prems(5) by (simp add: advancing_def)
    moreover have "reading w (Suc (ticks w)) \<noteq> reading ?w3 (ticks ?w3)"
      unfolding rd3 using less.prems(5) by (simp add: advancing_def)
    ultimately show ?thesis using less.hyps [OF r'(3) _ r'(1) assms(3)] run r'(2) by fastforce
  qed
qed

text \<open>Whatever has arrived is stored before the receiver waits for more.\<close>

lemma take_file_arrived:
  assumes "rds w sock = r @ q" and "flowing r" and "fl \<noteq> sock"
    and "accepting (wrs w fl) (length (stream r))"
  shows "\<exists>k. take_file sock fl w = take_file sock fl (wrote fl (stream r) k (with_rds sock q w))"
  using assms
proof (induction "rd_size r" arbitrary: r w rule: less_induct)
  case less
  show ?case
  proof (cases "r = []")
    case True
    with less.prems(1) have "take_file sock fl w = take_file sock fl (wrote fl (stream r) 0 (with_rds sock q w))"
      by simp
    then show ?thesis by blast
  next
    case False
    obtain bs r' where rd: "sys_read sock 102400 w = (Ret (Some bs), with_rds sock (r' @ q) w)"
      and r': "flowing r'" "stream r = bs @ stream r'" "rd_size r' < rd_size r"
      and bs: "bs \<noteq> []" "length bs \<le> 102400"
      using sys_read_flowing [OF less.prems(1,2) False, of 102400] by (metis zero_less_numeral)
    let ?w1 = "with_rds sock (r' @ q) w"
    have "accepting (wrs ?w1 fl) (length bs)" "length bs < 2 ^ 31"
      using less.prems(4) r'(2) bs by (auto elim: accepting_mono)
    with bs store.wl_all [of bs ?w1 fl] obtain c k where k: "k \<le> length bs" and
      st: "store_loop fl bs (int (length bs)) 0 ?w1 = (Ret c, wrote fl bs k ?w1)" by auto
    let ?w2 = "wrote fl bs k ?w1"
    have run: "take_file sock fl w = take_file sock fl ?w2"
      using rd st bs(1) by (subst take_file.simps) simp
    have "rds ?w2 sock = r' @ q" "accepting (wrs ?w2 fl) (length (stream r'))"
      using accepting_drop [OF less.prems(4), of k] k r'(2) by (auto elim: accepting_mono)
    with less.hyps [OF r'(3) _ r'(1) assms(3), of ?w2] obtain k2 where
      "take_file sock fl ?w2 = take_file sock fl (wrote fl (stream r') k2 (with_rds sock q ?w2))" by blast
    with run r'(2) show ?thesis by (auto simp: with_rds_wrote)
  qed
qed

text \<open>How the connection stands behind what has arrived: open, closed or failed.\<close>

definition ending :: "rd list \<Rightarrow> unit res option" where
  "ending e = (if e = [] then Some Blocked else if e = [Rd_Data []] \<or> e = [Rd_Err] then Some (Ret ()) else None)"

lemma take_file_ending:
  assumes "rds w sock = e" and "ending e = Some x"
  shows "take_file sock fl w = (x, with_rds sock [] w)"
proof (cases "e = []")
  case True
  with assms show ?thesis by (subst take_file.simps) (simp add: ending_def sys_read_Nil)
next
  case False
  with assms show ?thesis
    by (subst take_file.simps) (auto simp: ending_def sys_read_def with_rds_def split: if_splits)
qed

section \<open>Properties\<close>

text \<open>A transmitter that can connect on \<open>sock\<close> and send a file of the bytes \<open>d\<close>.\<close>

definition sender_ready :: "os \<Rightarrow> int \<Rightarrow> string \<Rightarrow> string \<Rightarrow> bool" where
  "sender_ready w sock name d \<longleftrightarrow>
     (case files w name of None \<Rightarrow> False | Some f \<Rightarrow> reads_ok (fdata f) \<and> content (fdata f) = d) \<and>
     0 \<le> next_fd w \<and> 0 \<le> sock \<and> sock \<noteq> next_fd w \<and> socks w = [sock] \<and> connects w = [0] \<and>
     outs w sock = [] \<and> accepting (wrs w sock) (length d)"

text \<open>A receiver that accepts a connection on \<open>sock\<close> and can create its file.\<close>

definition receiver_ready :: "os \<Rightarrow> int \<Rightarrow> string \<Rightarrow> string \<Rightarrow> bool" where
  "receiver_ready w sock name d \<longleftrightarrow>
     0 \<le> sock \<and> sock \<noteq> next_fd w \<and> 0 \<le> next_fd w \<and> binds w = [0] \<and> listens w = [0] \<and>
     (case socks w of [s] \<Rightarrow> s \<noteq> -1 | _ \<Rightarrow> False) \<and>
     (case accepts w of [Acc c _] \<Rightarrow> c = sock | _ \<Rightarrow> False) \<and>
     (case creats w name of None \<Rightarrow> False | Some a \<Rightarrow> accepting a (length d))"

lemma sends_file:
  assumes "sender_ready w sock name d" and "advancing w"
    and "length os = 4" and "\<forall>v\<in>set os. v < 256"
  shows "\<exists>w'. start_client a0 (inet_ntop4 os) port name w = (Ret True, w') \<and> outs w' sock = d"
proof -
  from assms(1) obtain f where f: "files w name = Some f" "reads_ok (fdata f)" "content (fdata f) = d"
    and s: "0 \<le> next_fd w" "0 \<le> sock" "sock \<noteq> next_fd w" "socks w = [sock]" "connects w = [0]"
      "outs w sock = []" "accepting (wrs w sock) (length d)"
    by (auto simp: sender_ready_def split: option.splits)
  from f(2) obtain r q where r: "fdata f = r @ Rd_Data [] # q" "flowing r" "stream r = content (fdata f)"
    by (rule reads_okE)
  let ?fl = "next_fd w"
  obtain w1 where op: "sys_open_rd name w = (Ret ?fl, w1)"
    and w1: "rds w1 ?fl = fdata f" "wrs w1 = wrs w" "outs w1 = outs w" "socks w1 = [sock]"
      "connects w1 = [0]" "clock w1 = clock w" "ticks w1 = ticks w"
    using f(1) s(4,5) by (simp add: sys_open_rd_def)
  let ?w2 = "connected w1 [] [] sock (net_addr a0 os (ucast port))"
  let ?w3 = "?w2\<lparr>ticks := Suc (ticks w)\<rparr>"
  have con: "newTCPClientSocket4 a0 (inet_ntop4 os) (ucast port) w1 = (Ret sock, ?w2)"
    by (rule newTCPClientSocket4_ok [OF assms(3,4) w1(4,5) s(2)])
  have tm: "currentTimeMillis ?w2 = (Ret (reading w (ticks w)), ?w3)"
    by (simp add: currentTimeMillis_reading reading_def w1)
  have rd3: "reading ?w3 n = reading w n" for n by (simp add: reading_def w1)
  have "advancing ?w3" "reading w (ticks w) \<noteq> reading ?w3 (ticks ?w3)"
    using assms(2) unfolding advancing_def rd3 by simp_all
  moreover have "rds ?w3 ?fl = r @ Rd_Data [] # q" "accepting (wrs ?w3 sock) (length (stream r))"
    using w1 r f(3) s(7) by simp_all
  ultimately obtain w4 where
    put: "put_file sock ?fl (inet_ntop4 os) port (reading w (ticks w)) ?w3 = (Ret (), w4)"
    and w4: "outs w4 sock = outs ?w3 sock @ stream r"
    using put_file_all [of ?w3 ?fl r q sock] r(2) s(3) by blast
  have "?fl \<noteq> -1" using s(1) by simp
  then have "start_client a0 (inet_ntop4 os) port name w =
      (Ret True, w4\<lparr>evts := evts w4 @ [Ev_Close ?fl, Ev_Close sock]\<rparr>)"
    using op con tm put by (simp add: start_client_def bindIO_def sys_close_def closeTCPSocket_def)
  with w4 w1(3) s(6) r(3) f(3) show ?thesis by simp
qed

lemma stores_arrived:
  assumes "receiver_ready w sock name d" and "rds w sock = r @ e" and "flowing r" and "prefix (stream r) d"
    and "ending e = Some x" and "length os = 4" and "\<forall>v\<in>set os. v < 256"
  shows "\<exists>w'. start_server a0 (inet_ntop4 os) port maxClients name w = (if e = [] then Blocked else Ret True, w') \<and>
    outs w' (next_fd w) = stream r \<and> created w' = created w @ [(name, next_fd w)]"
proof -
  from assms(1) obtain s addr a where s: "0 \<le> sock" "sock \<noteq> next_fd w" "0 \<le> next_fd w"
    "socks w = [s]" "s \<noteq> -1" "binds w = [0]" "listens w = [0]" "accepts w = [Acc sock addr]"
    "creats w name = Some a" "accepting a (length d)"
    by (auto simp: receiver_ready_def split: option.splits list.splits acc.splits)
  let ?fl = "next_fd w" and ?q = "int (unat maxClients)"
  let ?w1 = "listening w [] [] [] s (net_addr a0 os port) ?q"
  have sv: "newTCPServerSocket4 a0 (inet_ntop4 os) port ?q w = (Ret s, ?w1)"
    by (rule newTCPServerSocket4_ok [OF assms(6,7) s(4,6,7)])
  obtain w2 where cr: "sys_creat name ?w1 = (Ret ?fl, w2)"
    and w2: "rds w2 = rds w" "wrs w2 ?fl = a" "outs w2 ?fl = []" "accepts w2 = [Acc sock addr]"
      "created w2 = created w @ [(name, ?fl)]"
    using s(8,9) by (simp add: sys_creat_def)
  obtain w3 ip pn where ac: "waitConnection4 s (Some []) (Some 0) w2 = (Ret (sock, ip, pn), w3)"
    and w3: "rds w3 = rds w" "wrs w3 ?fl = a" "outs w3 ?fl = []" "created w3 = created w2"
    using s(1) w2 by (simp add: waitConnection4_run)
  have "rds w3 sock = r @ e" "accepting (wrs w3 ?fl) (length (stream r))"
    using w3 assms(2) s(10) prefix_length_le [OF assms(4)] by (auto elim: accepting_mono)
  with take_file_arrived [of w3 sock r e ?fl] assms(3) s(2) obtain k where
    "take_file sock ?fl w3 = take_file sock ?fl (wrote ?fl (stream r) k (with_rds sock e w3))" by auto
  then have tk: "take_file sock ?fl w3 = (x, with_rds sock [] (wrote ?fl (stream r) k (with_rds sock e w3)))"
    using take_file_ending [OF _ assms(5)] by simp
  have "?fl \<noteq> -1" using s(3) by simp
  then show ?thesis
    using sv s(5) cr ac tk w3 w2 assms(5)
    by (auto simp: start_server_def bindIO_def sys_close_def closeTCPSocket_def ending_def split: if_splits)
qed

text \<open>A transmitter and a receiver for the examples.\<close>

definition demo_tx :: os where
  "demo_tx = idle\<lparr>
     files := (\<lambda>_. None)(''f'' := Some \<lparr>fsize = 3, fdata = [Rd_Data ''ab'', Rd_Data ''c'', Rd_Data []]\<rparr>),
     socks := [4], connects := [0], wrs := (\<lambda>_. [])(4 := replicate 3 (Wr_Acc 1))\<rparr>"

definition demo_rx :: "rd list \<Rightarrow> os" where
  "demo_rx r = idle\<lparr>socks := [3], binds := [0], listens := [0],
     accepts := [Acc 4 \<lparr>sin_family = 0, sin_port = 0, sin_addr = [], sin_zero = []\<rparr>],
     rds := (\<lambda>_. [])(4 := r), creats := (\<lambda>_. None)(''g'' := Some (replicate 3 (Wr_Acc 2)))\<rparr>"

lemma demo_tx_ready: "sender_ready demo_tx 4 ''f'' ''abc''"
  by (simp add: sender_ready_def demo_tx_def accepting_replicate)

lemma demo_rx_ready: "receiver_ready (demo_rx r) 4 ''g'' ''abc''"
  by (simp add: receiver_ready_def demo_rx_def accepting_replicate)

text \<open>The clock of \<open>idle\<close> shows 1000 milliseconds more at each reading.\<close>

lemma advancing_idle: "clock w = clock idle \<Longrightarrow> advancing w"
proof -
  assume "clock w = clock idle"
  then have rd: "reading w n = of_nat (n * 1000)" for n by (simp add: reading_def)
  have "(of_nat (Suc n * 1000) :: u64) = of_nat (n * 1000) + 1000" for n by simp
  then show "advancing w" by (simp only: advancing_def rd) simp
qed

text \<open>C9: At every moment the receiver has stored exactly what the network has delivered of the
  transmitter's output, which is a part of the file from its start on; it waits while the
  connection is open, and reports success as soon as it ends, even by an error or in the
  middle of the file.\<close>

theorem transfer_in_order:
  assumes "sender_ready wc cs name d" and "advancing wc" and "receiver_ready ws ss loc d"
    and "length os = 4" and "\<forall>v\<in>set os. v < 256" and "length ip = 4" and "\<forall>v\<in>set ip. v < 256"
    and "rds ws ss = r @ e" and "flowing r" and "e \<in> {[], [Rd_Data []], [Rd_Err]}"
    and "prefix (stream r) (outs (snd (start_client a0 (inet_ntop4 ip) port name wc)) cs)"
  shows "\<exists>ws'. start_server b0 (inet_ntop4 os) lport maxClients loc ws = (if e = [] then Blocked else Ret True, ws') \<and>
    outs ws' (next_fd ws) = stream r \<and> prefix (stream r) d"
proof -
  from sends_file [OF assms(1,2,6,7), of a0 port] assms(11) have "prefix (stream r) d" by auto
  moreover obtain x where "ending e = Some x" using assms(10) by (auto simp: ending_def)
  ultimately show ?thesis using stores_arrived [OF assms(3,8,9) _ _ assms(4,5), of x b0 lport maxClients] by blast
qed

lemma transfer_in_order_witness:
  "\<exists>ws'. start_server \<lparr>sin_family = 0, sin_port = 0, sin_addr = [], sin_zero = []\<rparr> (inet_ntop4 [127, 0, 0, 1]) 5001 1 ''g''
     (demo_rx [Rd_Data ''ab'', Rd_Err]) = (Ret True, ws') \<and> outs ws' (next_fd (demo_rx [Rd_Data ''ab'', Rd_Err])) = ''ab''"
proof -
  let ?a = "\<lparr>sin_family = 0, sin_port = 0, sin_addr = [], sin_zero = []\<rparr>"
  have "prefix (stream [Rd_Data ''ab'']) (outs (snd (start_client ?a (inet_ntop4 [127, 0, 0, 1]) 5001 ''f'' demo_tx)) 4)"
    using sends_file [OF demo_tx_ready advancing_idle, of "[127, 0, 0, 1]" ?a 5001] by (auto simp: demo_tx_def)
  from transfer_in_order [OF demo_tx_ready advancing_idle demo_rx_ready _ _ _ _ _ _ _ this, of "[127, 0, 0, 1]" "[Rd_Data ''ab'', Rd_Err]" "[Rd_Err]" ?a 5001 1]
  show ?thesis by (simp add: demo_tx_def demo_rx_def)
qed

text \<open>C8: A file goes through transmitter and receiver unchanged: when the receiver's input
  is, in any segmentation, what the transmitter has sent, followed by end of file, both
  succeed and the receiver's file holds the bytes of the transmitter's. The transmitter's
  clock must not show the same time at two consecutive readings.\<close>

theorem transfer_roundtrip:
  assumes "sender_ready wc cs name d" and "advancing wc" and "receiver_ready ws ss loc d"
    and "length os = 4" and "\<forall>v\<in>set os. v < 256" and "length ip = 4" and "\<forall>v\<in>set ip. v < 256"
    and "rds ws ss = r @ [Rd_Data []]" and "flowing r"
    and "stream r = outs (snd (start_client a0 (inet_ntop4 ip) port name wc)) cs"
  shows "\<exists>wc' ws'. start_client a0 (inet_ntop4 ip) port name wc = (Ret True, wc') \<and>
    start_server b0 (inet_ntop4 os) lport maxClients loc ws = (Ret True, ws') \<and>
    outs ws' (next_fd ws) = d \<and> created ws' = created ws @ [(loc, next_fd ws)]"
proof -
  from sends_file [OF assms(1,2,6,7), of a0 port] obtain wc' where
    c: "start_client a0 (inet_ntop4 ip) port name wc = (Ret True, wc')" "outs wc' cs = d" by blast
  with assms(10) have "stream r = d" by simp
  with stores_arrived [OF assms(3,8,9) _ _ assms(4,5), of "Ret ()" b0 lport maxClients] c(1) show ?thesis
    by (auto simp: ending_def)
qed

lemma transfer_roundtrip_witness:
  "\<exists>wc' ws'. start_client \<lparr>sin_family = 0, sin_port = 0, sin_addr = [], sin_zero = []\<rparr> (inet_ntop4 [127, 0, 0, 1]) 5001 ''f'' demo_tx = (Ret True, wc') \<and>
    start_server \<lparr>sin_family = 0, sin_port = 0, sin_addr = [], sin_zero = []\<rparr> (inet_ntop4 [0, 0, 0, 0]) 5001 5 ''g'' (demo_rx ([Rd_Data ''a'', Rd_Data ''bc''] @ [Rd_Data []])) = (Ret True, ws') \<and>
    outs ws' 8 = ''abc''"
proof -
  let ?rx = "demo_rx ([Rd_Data ''a'', Rd_Data ''bc''] @ [Rd_Data []])" and ?a = "\<lparr>sin_family = 0, sin_port = 0, sin_addr = [], sin_zero = []\<rparr>"
  have adv: "advancing demo_tx" by (rule advancing_idle) (simp add: demo_tx_def)
  have "\<exists>w'. start_client ?a (inet_ntop4 [127, 0, 0, 1]) 5001 ''f'' demo_tx = (Ret True, w') \<and> outs w' 4 = ''abc''"
    by (rule sends_file [OF demo_tx_ready adv]) simp_all
  then have st: "stream [Rd_Data ''a'', Rd_Data ''bc''] =
      outs (snd (start_client ?a (inet_ntop4 [127, 0, 0, 1]) 5001 ''f'' demo_tx)) 4" by auto
  have "\<exists>wc' ws'. start_client ?a (inet_ntop4 [127, 0, 0, 1]) 5001 ''f'' demo_tx = (Ret True, wc') \<and>
    start_server ?a (inet_ntop4 [0, 0, 0, 0]) 5001 5 ''g'' ?rx = (Ret True, ws') \<and>
    outs ws' (next_fd ?rx) = ''abc'' \<and> created ws' = created ?rx @ [(''g'', next_fd ?rx)]"
    by (rule transfer_roundtrip [OF demo_tx_ready adv demo_rx_ready _ _ _ _ _ _ st])
      (simp_all add: demo_rx_def)
  moreover have "next_fd ?rx = 8" by (simp add: demo_rx_def)
  ultimately show ?thesis by auto
qed

text \<open>Two equal readings of the clock around the first block, as on a fast network, kill
  the transmitter with a division by zero, after the block has been sent.\<close>

theorem transfer_div_by_zero:
  assumes "rds w fl = Rd_Data bs # q" and "bs \<noteq> []" and "length bs \<le> 102400"
    and "accepting (wrs w sock) (length bs)" and "start = reading w (ticks w)"
  shows "\<exists>w'. put_file sock fl ip port start w = (Crash Div_By_Zero, w') \<and> outs w' sock = outs w sock @ bs"
proof -
  have rd: "sys_read fl 102400 w = (Ret (Some bs), with_rds fl q w)"
    using assms(1,3) by (simp add: sys_read_def with_rds_def)
  have "accepting (wrs (with_rds fl q w) sock) (length bs)" "length bs < 2 ^ 31"
    using assms(3,4) by simp_all
  with put.wl_all [OF assms(2), of "with_rds fl q w" sock] obtain c k where
    pt: "put_loop sock bs (int (length bs)) 0 (with_rds fl q w) = (Ret c, wrote sock bs k (with_rds fl q w))"
    by auto
  let ?w2 = "wrote sock bs k (with_rds fl q w)"
  have "reading ?w2 (ticks ?w2) = start" using assms(5) by (simp add: reading_def)
  then have "block_done ip port (length bs) start ?w2 = (Crash Div_By_Zero, ?w2\<lparr>ticks := Suc (ticks ?w2)\<rparr>)"
    by (simp add: block_done_run)
  then have "put_file sock fl ip port start w = (Crash Div_By_Zero, ?w2\<lparr>ticks := Suc (ticks ?w2)\<rparr>)"
    using rd pt assms(2) by (subst put_file.simps) simp
  then show ?thesis by simp
qed

lemma transfer_div_by_zero_witness:
  "\<exists>w'. put_file 4 5 ''127.0.0.1'' 5001 0 (demo_tx\<lparr>rds := (\<lambda>_. [])(5 := [Rd_Data ''ab'']), clock := (\<lambda>_. (0, 0))\<rparr>)
     = (Crash Div_By_Zero, w') \<and> outs w' 4 = ''ab''"
  using transfer_div_by_zero [of "demo_tx\<lparr>rds := (\<lambda>_. [])(5 := [Rd_Data ''ab'']), clock := (\<lambda>_. (0, 0))\<rparr>"
      5 "''ab''" "[]" 4 0 "''127.0.0.1''" 5001]
  by (simp add: demo_tx_def reading_def accepting_replicate)

text \<open>A failed connection is not noticed: the transmitter writes to the descriptor -1, and
  the failed write moves the pointer in front of the buffer.\<close>

theorem transfer_without_connection:
  assumes "files w name = Some f" and "fdata f = Rd_Data bs # q" and "bs \<noteq> []" and "length bs \<le> 102400"
    and "socks w = -1 # ss" and "wrs w (-1) = Wr_Err # e" and "0 \<le> next_fd w"
    and "length os = 4" and "\<forall>v\<in>set os. v < 256"
  shows "fst (start_client a0 (inet_ntop4 os) port name w) = Crash Out_Of_Bounds"
proof -
  let ?fl = "next_fd w"
  obtain w1 where op: "sys_open_rd name w = (Ret ?fl, w1)"
    and w1: "rds w1 ?fl = Rd_Data bs # q" "wrs w1 = wrs w" "socks w1 = -1 # ss"
    using assms(1,2,5) by (simp add: sys_open_rd_def)
  have con: "newTCPClientSocket4 a0 (inet_ntop4 os) (ucast port) w1 = (Ret (-1), w1\<lparr>socks := ss\<rparr>)"
    using w1(3) buildAddr4_ok [OF assms(8,9), of a0 "ucast port"]
    by (simp add: newTCPClientSocket4_def getNewTCPSocket_def sys_socket_def bindIO_def)
  let ?w3 = "w1\<lparr>socks := ss, ticks := Suc (ticks w1)\<rparr>"
  have tm: "currentTimeMillis (w1\<lparr>socks := ss\<rparr>) = (Ret (reading w1 (ticks w1)), ?w3)"
    by (simp add: currentTimeMillis_reading reading_def)
  have rd: "sys_read ?fl 102400 ?w3 = (Ret (Some bs), with_rds ?fl q ?w3)"
    using w1(1) assms(4) by (simp add: sys_read_def with_rds_def)
  have "put_loop (-1) bs (int (length bs)) 0 (with_rds ?fl q ?w3) =
      (Crash Out_Of_Bounds, wrote (-1) [] 1 (with_rds ?fl q ?w3))"
    by (rule put.wl_first_error [of _ _ e]) (use w1(2) assms(3,6) in simp_all)
  then have "put_file (-1) ?fl (inet_ntop4 os) port (reading w1 (ticks w1)) ?w3 =
      (Crash Out_Of_Bounds, wrote (-1) [] 1 (with_rds ?fl q ?w3))"
    using rd assms(3) by (subst put_file.simps) simp
  moreover have "?fl \<noteq> -1" using assms(7) by simp
  ultimately show ?thesis using op con tm by (simp add: start_client_def)
qed

lemma transfer_without_connection_witness:
  "fst (start_client \<lparr>sin_family = 0, sin_port = 0, sin_addr = [], sin_zero = []\<rparr> (inet_ntop4 [127, 0, 0, 1]) 5001 ''f''
     (demo_tx\<lparr>socks := [-1], wrs := (\<lambda>_. [])(-1 := [Wr_Err])\<rparr>)) = Crash Out_Of_Bounds"
  by (rule transfer_without_connection [where f = "\<lparr>fsize = 3, fdata = [Rd_Data ''ab'', Rd_Data ''c'', Rd_Data []]\<rparr>"
        and bs = "''ab''" and q = "[Rd_Data ''c'', Rd_Data []]" and ss = "[]" and e = "[]"])
    (simp_all add: demo_tx_def)

end
