(* ===== verification/Ping.thy ===== *)
theory Ping
  imports Netlib U32_Loops Clock
begin

text \<open>
  tcp_ping/ping.c (file_transfer holds a copy that its build does not use), and the client
  and server loops of tcp_ping around it: the client sends a text of so many kilobytes and
  its NUL, the server sends back what arrives up to the NUL.
\<close>

section \<open>The answering side\<close>

text \<open>
  Lines 40 and 41: \<open>realloc\<close> to \<open>totalbytes + readbytes + 1\<close>, computed modulo 2^32, and the
  copy of \<open>readbytes\<close> bytes of the 1024-byte buffer, of which \<open>bs\<close> has been filled.
\<close>

definition grow :: "string \<Rightarrow> u32 \<Rightarrow> u32 \<Rightarrow> string \<Rightarrow> string res" where
  "grow readData totalbytes readbytes bs =
     (if 1024 < unat readbytes then Crash Out_Of_Bounds
      else if unat (totalbytes + readbytes + 1) < unat totalbytes + unat readbytes then Crash Buffer_Overflow
      else Ret (take (unat totalbytes) readData @ bs))"

text \<open>Lines 38 to 44; the result is \<open>readbytes\<close>, \<open>readData\<close> and \<open>totalbytes\<close>.\<close>

function collect :: "int \<Rightarrow> string \<Rightarrow> u32 \<Rightarrow> (u32 \<times> string \<times> u32) cio" where
  "collect sock readData totalbytes w =
     bindIO (sys_read sock 1024) (\<lambda>r w1.
       let readbytes = (case r of None \<Rightarrow> -1 | Some bs \<Rightarrow> of_nat (length bs)) :: u32;
           buffer = (case r of None \<Rightarrow> [] | Some bs \<Rightarrow> bs)
       in if 0 < readbytes then
            bindIO (liftR (grow readData totalbytes readbytes buffer)) (\<lambda>readData' w2.
              let totalbytes' = totalbytes + readbytes
              in if readData' ! unat (totalbytes' - 1) = NUL then (Ret (readbytes, readData', totalbytes'), w2)
                 else collect sock readData' totalbytes' w2) w1
          else (Ret (readbytes, readData, totalbytes), w1)) w"
  by pat_completeness auto
termination
  by (relation "measure (\<lambda>(sock, data, tot, w). rd_size (rds w sock))")
    (auto dest: sys_read_decreases)

declare collect.simps [simp del]

text \<open>Lines 48 to 52.\<close>

function echo_loop :: "int \<Rightarrow> string \<Rightarrow> u32 \<Rightarrow> u32 \<Rightarrow> u32 cio" where
  "echo_loop sock readData totalbytes totalBytesSent w =
     (if totalBytesSent < totalbytes then
        bindIO (sys_write sock readData (int (unat totalBytesSent)) (unat (totalbytes - totalBytesSent))) (\<lambda>r w'.
          echo_loop sock readData totalbytes (totalBytesSent + word_of_int r) w') w
      else (Ret totalBytesSent, w))"
  by pat_completeness auto
termination
  by (relation "measure (\<lambda>(sock, data, tot, sent, w). length (wrs w sock))")
    (auto dest: sys_write_decreases)

declare echo_loop.simps [simp del]

interpretation echo: while_write32 echo_loop
  by unfold_locales (rule echo_loop.simps)

definition PingListen :: "int \<Rightarrow> int cio" where
  "PingListen clientSocket =
     bindIO (collect clientSocket [] 0) (\<lambda>(readbytes, readData, totalbytes).
     bindIO (echo_loop clientSocket readData totalbytes 0) (\<lambda>_.
     retIO (sint readbytes)))"

section \<open>The asking side\<close>

text \<open>
  Lines 74 to 77: \<open>calloc(realsize + 1)\<close> filled with \<open>realsize - 1\<close> letters; for a
  \<open>realsize\<close> of 0 the unsigned limit is 2^32 - 1 and the loop leaves the block.
\<close>

definition ping_text :: "nat \<Rightarrow> string" where
  "ping_text n = map (\<lambda>i. char_of (i mod 26 + 65)) [0..<n]"

definition ping_buf :: "u32 \<Rightarrow> string res" where
  "ping_buf realsize =
     (if unat realsize + 1 < unat (realsize - 1) then Crash Buffer_Overflow
      else Ret (ping_text (unat (realsize - 1)) @
                replicate (unat realsize + 1 - unat (realsize - 1)) NUL))"

text \<open>Lines 79 to 83: \<open>n\<close> is \<open>strlen(bufferSend)\<close>; each write also offers the NUL.\<close>

function ask_loop :: "int \<Rightarrow> string \<Rightarrow> nat \<Rightarrow> u32 \<Rightarrow> u32 cio" where
  "ask_loop sock bufferSend n totalBytes w =
     (if unat totalBytes < n then
        bindIO (sys_write sock bufferSend (int (unat totalBytes)) (n - unat totalBytes + 1)) (\<lambda>r w'.
          ask_loop sock bufferSend n (totalBytes + word_of_int r) w') w
      else (Ret totalBytes, w))"
  by pat_completeness auto
termination
  by (relation "measure (\<lambda>(sock, buf, n, tot, w). length (wrs w sock))")
    (auto dest: sys_write_decreases)

declare ask_loop.simps [simp del]

text \<open>
  Lines 89 to 93: each read may deliver \<open>realsize\<close> bytes wherever the buffer stands. The
  bytes \<open>bs\<close> land at \<open>totalBytesRecv\<close>.
\<close>

definition land :: "string \<Rightarrow> nat \<Rightarrow> string \<Rightarrow> string res" where
  "land buf off bs =
     (if length buf < off + length bs then Crash Buffer_Overflow
      else Ret (take off buf @ bs @ drop (off + length bs) buf))"

lemma sys_read_shrinks:
  "sys_read fd n w = (Ret r, w') \<Longrightarrow> r \<noteq> Some [] \<Longrightarrow> rd_size (rds w' fd) < rd_size (rds w fd)"
  by (auto simp: sys_read_def split: list.splits rd.splits if_splits)

function answer_loop :: "int \<Rightarrow> u32 \<Rightarrow> string \<Rightarrow> u32 \<Rightarrow> string cio" where
  "answer_loop sock realsize bufferRecv totalBytesRecv w =
     bindIO (sys_read sock (unat realsize)) (\<lambda>r w1.
       let readBytes = (case r of None \<Rightarrow> -1 | Some bs \<Rightarrow> of_nat (length bs)) :: u32;
           bs = (case r of None \<Rightarrow> [] | Some bs \<Rightarrow> bs)
       in if 0 < readBytes then
            bindIO (liftR (land bufferRecv (unat totalBytesRecv) bs)) (\<lambda>buf' w2.
              let total' = totalBytesRecv + readBytes
              in if length buf' \<le> unat (total' - 1) then (Crash Out_Of_Bounds, w2)
                 else if buf' ! unat (total' - 1) = NUL then (Ret buf', w2)
                 else answer_loop sock realsize buf' total' w2) w1
          else (Ret bufferRecv, w1)) w"
  by pat_completeness auto
termination
proof (relation "measure (\<lambda>(sock, rs, buf, tot, w). rd_size (rds w sock))")
  fix sock :: int and realsize tot rb :: u32 and buf bs buf' w r w1 w2 tot'
  assume rd: "sys_read sock (unat realsize) w = (Ret r, w1)"
    and rb: "rb = (case r of None \<Rightarrow> - 1 | Some bs \<Rightarrow> of_nat (length bs))" "0 < rb"
    and l: "liftR (land buf (unat tot) bs) w1 = (Ret buf', w2)"
  from rb have "r \<noteq> Some []" by auto
  from sys_read_shrinks [OF rd this] l
  show "((sock, realsize, buf', tot', w2), sock, realsize, buf, tot, w)
      \<in> measure (\<lambda>(sock, rs, buf, tot, w). rd_size (rds w sock))"
    by simp
qed simp

declare answer_loop.simps [simp del]

definition pingSend :: "int \<Rightarrow> u32 \<Rightarrow> bool cio" where
  "pingSend clientSocket msg_size =
     (let realsize = msg_size * 1024
      in bindIO (liftR (ping_buf realsize)) (\<lambda>bufferSend.
         bindIO (ask_loop clientSocket bufferSend (length (c_string bufferSend)) 0) (\<lambda>_.
         bindIO (answer_loop clientSocket realsize (replicate (unat realsize + 1) NUL) 0) (\<lambda>bufferRecv.
         retIO (take (unat realsize) bufferSend = take (unat realsize) bufferRecv)))))"

section \<open>The loops of the programs\<close>

text \<open>
  tcp_ping/client.c: a connection for each message; a failed one (-1) is used all the same.
\<close>

function ask_rounds :: "sockaddr_in \<Rightarrow> string \<Rightarrow> u32 \<Rightarrow> u32 \<Rightarrow> u32 \<Rightarrow> u32 \<Rightarrow> unit cio" where
  "ask_rounds a0 ip_dst port msg_count msg_size i w =
     (if i < msg_count then
        bindIO currentTimeMillis (\<lambda>start.
        bindIO (newTCPClientSocket4 a0 ip_dst (ucast port)) (\<lambda>clientSocket.
        bindIO currentTimeMillis (\<lambda>stop.
        bindIO (pingSend clientSocket msg_size) (\<lambda>ok.
        bindIO (sys_printf
          (if ok then dec_int (sint i) @ TAB # ''Sent'' @ TAB # '' '' @ dec_int (sint msg_size) @ '' KB'' @ TAB #
                      '' to '' @ ip_dst @ '' on'' @ TAB # '' '' @ dec (unat (stop - start)) @ '' ms'' @ [LF]
           else dec_int (sint i) @ TAB # ''Ping Error'' @ [LF])) (\<lambda>_.
        bindIO (closeTCPSocket clientSocket) (\<lambda>_.
        ask_rounds a0 ip_dst port msg_count msg_size (i + 1))))))) w
      else (Ret (), w))"
  by pat_completeness auto
termination
proof (relation "measure (\<lambda>(a0, ip, port, cnt, sz, i, w). unat cnt - unat i)")
  fix a0 ip w x xa xb xc xd xe xf and w' :: os and port cnt sz i :: u32
  assume "i < cnt"
  then have lt: "unat i < unat cnt" by (simp add: word_less_nat_alt)
  moreover have "unat (i + 1) = unat i + 1"
    using unat_add_of_nat [of i 1] lt unsigned_less [of cnt, where 'a = nat] by simp
  ultimately show "((a0, ip, port, cnt, sz, i + 1, w'), a0, ip, port, cnt, sz, i, w)
      \<in> measure (\<lambda>(a0, ip, port, cnt, sz, i, w). unat cnt - unat i)"
    by simp
qed simp

declare ask_rounds.simps [simp del]

definition start_client :: "sockaddr_in \<Rightarrow> string \<Rightarrow> u32 \<Rightarrow> u32 \<Rightarrow> u32 \<Rightarrow> bool cio" where
  "start_client a0 ip_dst port msg_count msg_size =
     bindIO (ask_rounds a0 ip_dst port msg_count msg_size 0) (\<lambda>_. retIO True)"

text \<open>tcp_ping/server.c: one client after the other, for ever.\<close>

fun answer_rounds :: "nat \<Rightarrow> int \<Rightarrow> unit cio" where
  "answer_rounds 0 serverSocket w = (No_Fuel, w)"
| "answer_rounds (Suc n) serverSocket w =
     bindIO (waitConnection4 serverSocket (Some []) (Some 0)) (\<lambda>(clientSocket, clientIP, clientPort).
     bindIO (PingListen clientSocket) (\<lambda>_.
     bindIO (closeTCPSocket clientSocket) (\<lambda>_.
     answer_rounds n serverSocket))) w"

definition start_server :: "sockaddr_in \<Rightarrow> string \<Rightarrow> u16 \<Rightarrow> u16 \<Rightarrow> int cio" where
  "start_server a0 iface port maxClients w =
     bindIO (newTCPServerSocket4 a0 iface port (int (unat maxClients))) (\<lambda>serverSocket w'.
       if serverSocket = -1 then (Ret 1, w')
       else bindIO (answer_rounds (Suc (length (accepts w'))) serverSocket) (\<lambda>_. retIO 0) w') w"

section \<open>Messages that end with NUL\<close>

lemma NUL_message_split:
  assumes "bs @ s = m @ [NUL]" and "NUL \<notin> set m" and "bs \<noteq> []"
  shows "last bs = NUL \<Longrightarrow> bs = m @ [NUL] \<and> s = []"
    and "last bs \<noteq> NUL \<Longrightarrow> \<exists>m'. m = bs @ m' \<and> s = m' @ [NUL]"
proof -
  show "bs = m @ [NUL] \<and> s = []" if "last bs = NUL"
  proof (cases "s = []")
    case False
    then have "m = bs @ butlast s" using assms(1) by (metis butlast_append butlast_snoc)
    with that assms(2,3) show ?thesis by (auto dest: last_in_set)
  qed (use assms(1) in simp)
  show "\<exists>m'. m = bs @ m' \<and> s = m' @ [NUL]" if "last bs \<noteq> NUL"
  proof (cases "s = []")
    case True
    with assms(1) that show ?thesis by auto
  next
    case False
    with assms(1) have "m = bs @ butlast s" "last s = NUL"
      by (metis butlast_append butlast_snoc) (metis False assms(1) last_appendR last_snoc)
    with False show ?thesis by (metis append_butlast_last_id)
  qed
qed

lemma unat_pred: "0 < unat x \<Longrightarrow> unat (x - 1 :: u32) = unat x - 1"
  by (simp add: unat_sub word_le_nat_alt)

text \<open>One round of \<open>collect\<close> that gets the bytes \<open>bs\<close>.\<close>

lemma collect_round:
  assumes "sys_read sock 1024 w = (Ret (Some bs), w1)" and "bs \<noteq> []" and "length bs \<le> 1024"
    and "length data = unat tot" and "unat tot + length bs + 1 < 2 ^ 32"
  shows "\<exists>tot'. unat tot' = unat tot + length bs \<and>
    collect sock data tot w =
      (if last bs = NUL then (Ret (of_nat (length bs), data @ bs, tot'), w1)
       else collect sock (data @ bs) tot' w1)"
proof -
  let ?n = "of_nat (length bs) :: u32"
  have n: "unat ?n = length bs" using assms(3) by (simp add: unat_of_nat32)
  have t: "unat (tot + ?n) = unat tot + length bs" using assms(5) by (intro unat_add_of_nat) simp
  have "unat (tot + ?n + of_nat 1) = unat tot + length bs + 1"
    using assms(5) t by (subst unat_add_of_nat) simp_all
  then have g: "grow data tot ?n bs = Ret (data @ bs)"
    using assms(3,4) n by (simp add: grow_def)
  have "unat (tot + ?n - 1) = length data + (length bs - 1)"
    using unat_pred [of "tot + ?n"] t assms(2,4) by (cases bs) simp_all
  then have l: "(data @ bs) ! unat (tot + ?n - 1) = last bs"
    using assms(2) by (simp add: nth_append last_conv_nth)
  have "0 < ?n" using assms(2,3) by (simp add: less_of_nat32)
  with assms(1) g l have "collect sock data tot w =
      (if last bs = NUL then (Ret (?n, data @ bs, tot + ?n), w1)
       else collect sock (data @ bs) (tot + ?n) w1)"
    by (subst collect.simps) (simp add: Let_def)
  with t show ?thesis by blast
qed

lemma collect_message:
  assumes "rds w sock = r @ q" and "flowing r" and "stream r = m @ [NUL]" and "NUL \<notin> set m"
    and "length data = unat tot" and "unat tot + length m + 2 < 2 ^ 32"
  shows "\<exists>rb tot'. collect sock data tot w = (Ret (rb, data @ m @ [NUL], tot'), with_rds sock q w) \<and>
    unat tot' = unat tot + length m + 1"
  using assms
proof (induction "rd_size r" arbitrary: r m data tot w rule: less_induct)
  case less
  have "r \<noteq> []" using less.prems(3) by auto
  obtain bs r' where rd: "sys_read sock 1024 w = (Ret (Some bs), with_rds sock (r' @ q) w)"
    and r': "flowing r'" "stream r = bs @ stream r'" "rd_size r' < rd_size r"
    and bs: "bs \<noteq> []" "length bs \<le> 1024"
    using sys_read_flowing [OF less.prems(1,2) \<open>r \<noteq> []\<close>, of 1024] by (metis zero_less_numeral)
  let ?w1 = "with_rds sock (r' @ q) w"
  have eq: "bs @ stream r' = m @ [NUL]" using r'(2) less.prems(3) by simp
  then have "length bs \<le> length m + 1" by (metis length_append length_append_singleton Suc_eq_plus1 le_add1)
  with less.prems(6) have "unat tot + length bs + 1 < 2 ^ 32" by simp
  from collect_round [OF rd bs less.prems(5) this] obtain tot' where
    tot': "unat tot' = unat tot + length bs" and
    run: "collect sock data tot w =
      (if last bs = NUL then (Ret (of_nat (length bs), data @ bs, tot'), ?w1)
       else collect sock (data @ bs) tot' ?w1)" by blast
  show ?case
  proof (cases "last bs = NUL")
    case True
    from NUL_message_split(1) [OF eq less.prems(4) bs(1) True] r'(1) have "bs = m @ [NUL]" "r' = []"
      by (simp_all add: flowing_stream_Nil)
    with run tot' True show ?thesis by simp
  next
    case False
    from NUL_message_split(2) [OF eq less.prems(4) bs(1) False] obtain m' where
      m': "m = bs @ m'" "stream r' = m' @ [NUL]" by blast
    have "rds ?w1 sock = r' @ q" "NUL \<notin> set m'" "length (data @ bs) = unat tot'"
      "unat tot' + length m' + 2 < 2 ^ 32"
      using less.prems(4-6) m'(1) tot' by simp_all
    from less.hyps [OF r'(3) this(1) r'(1) m'(2) this(2-4)] run False m'(1) tot' show ?thesis by auto
  qed
qed

text \<open>Bytes without NUL at the end are kept and the loop waits for more.\<close>

lemma collect_waits:
  assumes "rds w sock = r" and "flowing r" and "NUL \<notin> set (stream r)"
    and "length data = unat tot" and "unat tot + length (stream r) + 1 < 2 ^ 32"
  shows "collect sock data tot w = (Blocked, with_rds sock [] w)"
  using assms
proof (induction "rd_size r" arbitrary: r data tot w rule: less_induct)
  case less
  show ?case
  proof (cases "r = []")
    case True
    with less.prems(1) show ?thesis by (subst collect.simps) (simp add: sys_read_Nil)
  next
    case False
    have "rds w sock = r @ []" using less.prems(1) by simp
    obtain bs r' where rd: "sys_read sock 1024 w = (Ret (Some bs), with_rds sock (r' @ []) w)"
      and r': "flowing r'" "stream r = bs @ stream r'" "rd_size r' < rd_size r"
      and bs: "bs \<noteq> []" "length bs \<le> 1024"
      using sys_read_flowing [OF \<open>rds w sock = r @ []\<close> less.prems(2) False, of 1024]
      by (metis zero_less_numeral)
    have "unat tot + length bs + 1 < 2 ^ 32" using less.prems(5) r'(2) by simp
    from collect_round [OF rd bs less.prems(4) this] obtain tot' where
      tot': "unat tot' = unat tot + length bs" and
      run: "collect sock data tot w =
        (if last bs = NUL then (Ret (of_nat (length bs), data @ bs, tot'), with_rds sock (r' @ []) w)
         else collect sock (data @ bs) tot' (with_rds sock (r' @ []) w))" by blast
    have "NUL \<notin> set bs" using less.prems(3) r'(2) by simp
    then have "last bs \<noteq> NUL" using bs(1) by (metis last_in_set)
    moreover have "collect sock (data @ bs) tot' (with_rds sock (r' @ []) w) =
        (Blocked, with_rds sock [] (with_rds sock (r' @ []) w))"
      by (rule less.hyps [OF r'(3) _ r'(1)]) (use less.prems(3-5) r'(2) tot' in auto)
    ultimately show ?thesis using run by simp
  qed
qed

lemma PingListen_message:
  assumes "rds w sock = r @ q" and "flowing r" and "stream r = m @ [NUL]" and "NUL \<notin> set m"
    and "length m + 2 < 2 ^ 32" and "accepting (wrs w sock) (length m + 1)"
  shows "\<exists>x k. PingListen sock w = (Ret x, wrote sock (m @ [NUL]) k (with_rds sock q w))"
proof -
  have "length [] = unat (0 :: u32)" "unat (0 :: u32) + length m + 2 < 2 ^ 32" using assms(5) by simp_all
  from collect_message [OF assms(1-4) this] obtain rb tot where
    co: "collect sock [] 0 w = (Ret (rb, m @ [NUL], tot), with_rds sock q w)" and tot: "unat tot = length m + 1"
    by auto
  from tot have "of_nat (unat tot) = (of_nat (length (m @ [NUL])) :: u32)" by simp
  then have "tot = of_nat (length (m @ [NUL]))" by simp
  moreover from assms(5,6) echo.wl_all [of "m @ [NUL]" "with_rds sock q w" sock] obtain c k where
    "echo_loop sock (m @ [NUL]) (of_nat (length (m @ [NUL]))) 0 (with_rds sock q w) =
      (Ret c, wrote sock (m @ [NUL]) k (with_rds sock q w))" by auto
  ultimately show ?thesis
    using co by (intro exI [of _ "sint rb"] exI [of _ k]) (simp only: PingListen_def bindIO_Ret prod.case retIO_app)
qed

section \<open>The asking side\<close>

lemma length_ping_text [simp]: "length (ping_text n) = n"
  by (simp add: ping_text_def)

lemma ping_text_letters: "c \<in> set (ping_text n) \<Longrightarrow> c \<noteq> NUL"
proof -
  assume "c \<in> set (ping_text n)"
  then obtain i :: nat where c: "c = char_of (i mod 26 + 65)" by (auto simp: ping_text_def)
  have "i mod 26 + 65 < 256" using mod_less_divisor [of 26 i] by simp
  then have "(of_char c :: nat) = i mod 26 + 65" by (simp add: c of_char_of)
  then show "c \<noteq> NUL" by auto
qed

lemma ping_buf_run:
  assumes "0 < unat rs"
  shows "ping_buf rs = Ret (ping_text (unat rs - 1) @ [NUL, NUL])"
  using assms unat_pred [of rs] by (simp add: ping_buf_def numeral_2_eq_2 Suc_diff_le)

text \<open>The string the buffer holds is the text.\<close>

lemma c_string_ping_buf: "c_string (ping_text n @ [NUL, NUL]) = ping_text n"
proof -
  have "\<forall>c\<in>set (ping_text n). c \<noteq> NUL" using ping_text_letters by blast
  then show ?thesis by (simp add: c_string_def takeWhile_stop)
qed

text \<open>
  The writes of the kernel take the text of \<open>n\<close> bytes and the NUL: none of them stops just
  between the two.
\<close>

fun takes_nul :: "wr list \<Rightarrow> nat \<Rightarrow> bool" where
  "takes_nul [] n \<longleftrightarrow> False"
| "takes_nul (Wr_Err # a) n \<longleftrightarrow> False"
| "takes_nul (Wr_Acc k # a) n \<longleftrightarrow> 0 < k \<and> k \<noteq> n \<and> (n < k \<or> takes_nul a (n - k))"

lemma ask_loop_acc:
  assumes "unat tot < n" and "length mem = n + 2" and "n + 1 < 2 ^ 32" and "wrs w sock = Wr_Acc k # a"
  shows "\<exists>tot'. unat tot' = unat tot + min k (n - unat tot + 1) \<and>
    ask_loop sock mem n tot w =
      (let w' = wrote sock (take (min k (n - unat tot + 1)) (drop (unat tot) mem)) 1 w
       in if unat tot' < n then ask_loop sock mem n tot' w' else (Ret tot', w'))"
proof -
  define m where "m = min k (n - unat tot + 1)"
  let ?w = "wrote sock (take m (drop (unat tot) mem)) 1 w"
  have "sys_write sock mem (int (unat tot)) (n - unat tot + 1) w = (Ret (int m), ?w)"
    using sys_write_acc [OF assms(4), of "unat tot" "n - unat tot + 1" mem] assms(1,2) by (simp add: m_def)
  then have run: "ask_loop sock mem n tot w = ask_loop sock mem n (tot + of_nat m) ?w"
    using assms(1) by (subst ask_loop.simps) simp
  have t: "unat (tot + of_nat m) = unat tot + m"
  proof (rule unat_add_of_nat)
    have "m \<le> n - unat tot + 1" by (simp add: m_def)
    with assms(1,3) show "unat tot + m < 2 ^ 32" by simp
  qed
  have "ask_loop sock mem n (tot + of_nat m) ?w = (Ret (tot + of_nat m), ?w)" if "\<not> unat (tot + of_nat m) < n"
    using that by (subst ask_loop.simps) simp
  with run t show ?thesis
    unfolding m_def [symmetric] Let_def by (intro exI [of _ "tot + of_nat m"]) simp
qed

lemma ask_loop_whole:
  assumes "takes_nul (wrs w sock) (n - unat tot)" and "unat tot < n" and "length s = n" and "n + 1 < 2 ^ 32"
  shows "\<exists>tot' k. ask_loop sock (s @ [NUL, NUL]) n tot w =
    (Ret tot', wrote sock (drop (unat tot) s @ [NUL]) k w)"
  using assms
proof (induction "length (wrs w sock)" arbitrary: tot w rule: less_induct)
  case less
  from less.prems(1) obtain k a where wr: "wrs w sock = Wr_Acc k # a" and k: "0 < k" "k \<noteq> n - unat tot"
    and a: "n - unat tot < k \<or> takes_nul a (n - unat tot - k)"
    by (cases "(wrs w sock, n - unat tot)" rule: takes_nul.cases) auto
  have len: "length (s @ [NUL, NUL]) = n + 2" using less.prems(3) by simp
  from ask_loop_acc [OF less.prems(2) len less.prems(4) wr] obtain tot' where
    tot': "unat tot' = unat tot + min k (n - unat tot + 1)" and
    run: "ask_loop sock (s @ [NUL, NUL]) n tot w =
      (let w' = wrote sock (take (min k (n - unat tot + 1)) (drop (unat tot) (s @ [NUL, NUL]))) 1 w
       in if unat tot' < n then ask_loop sock (s @ [NUL, NUL]) n tot' w' else (Ret tot', w'))" by blast
  show ?case
  proof (cases "n - unat tot < k")
    case True
    then have m: "min k (n - unat tot + 1) = n - unat tot + 1" by simp
    have "take (n - unat tot + 1) (drop (unat tot) (s @ [NUL, NUL])) = drop (unat tot) s @ [NUL]"
      using less.prems(2,3) by simp
    with run tot' m less.prems(2) show ?thesis by (intro exI [of _ tot'] exI [of _ 1]) simp
  next
    case False
    with k have lt: "k < n - unat tot" by simp
    then have m: "min k (n - unat tot + 1) = k" and t: "unat tot' = unat tot + k" using tot' by simp_all
    let ?w = "wrote sock (take k (drop (unat tot) s)) 1 w"
    have tk: "take k (drop (unat tot) (s @ [NUL, NUL])) = take k (drop (unat tot) s)"
      using lt less.prems(2,3) by simp
    have r2: "ask_loop sock (s @ [NUL, NUL]) n tot w = ask_loop sock (s @ [NUL, NUL]) n tot' ?w"
    proof -
      have "unat tot' < n" using lt t by simp
      then show ?thesis using run unfolding m tk Let_def by (simp only: if_True)
    qed
    have "takes_nul (wrs ?w sock) (n - unat tot')" using a False wr t by simp
    moreover have "length (wrs ?w sock) < length (wrs w sock)" using wr by simp
    moreover have "unat tot' < n" using lt t by simp
    ultimately obtain tot2 k2 where
      "ask_loop sock (s @ [NUL, NUL]) n tot' ?w = (Ret tot2, wrote sock (drop (unat tot') s @ [NUL]) k2 ?w)"
      using less.hyps [of ?w tot'] less.prems(3,4) by blast
    moreover have "take k (drop (unat tot) s) @ drop (unat tot') s = drop (unat tot) s"
      using t by (metis append_take_drop_id drop_drop add.commute)
    ultimately show ?thesis
      using r2 by (intro exI [of _ tot2] exI [of _ "1 + k2"]) (simp flip: append_assoc)
  qed
qed

text \<open>One round of the loop that receives the answer.\<close>

lemma answer_round:
  assumes "sys_read sock (unat rs) w = (Ret (Some bs), w1)" and "bs \<noteq> []"
    and "unat tot + length bs \<le> length buf" and "length buf < 2 ^ 32"
  shows "\<exists>tot'. unat tot' = unat tot + length bs \<and>
    answer_loop sock rs buf tot w =
      (let buf' = take (unat tot) buf @ bs @ drop (unat tot + length bs) buf
       in if last bs = NUL then (Ret buf', w1) else answer_loop sock rs buf' tot' w1)"
proof -
  let ?n = "of_nat (length bs) :: u32"
  let ?buf = "take (unat tot) buf @ bs @ drop (unat tot + length bs) buf"
  have t: "unat (tot + ?n) = unat tot + length bs" using assms(3,4) by (intro unat_add_of_nat) simp
  have l: "land buf (unat tot) bs = Ret ?buf" using assms(3) by (simp add: land_def)
  have i: "unat (tot + ?n - 1) = unat tot + (length bs - 1)"
    using unat_pred [of "tot + ?n"] t assms(2) by (cases bs) simp_all
  then have inb: "unat (tot + ?n - 1) < length ?buf"
    using assms(2,3) by (cases bs) simp_all
  have "?buf ! unat (tot + ?n - 1) = last bs"
    unfolding i using assms(2,3) by (simp add: nth_append last_conv_nth)
  moreover have "0 < ?n" using assms(2,3,4) by (simp add: less_of_nat32)
  ultimately have "answer_loop sock rs buf tot w =
      (if last bs = NUL then (Ret ?buf, w1) else answer_loop sock rs ?buf (tot + ?n) w1)"
    using assms(1) l inb by (subst answer_loop.simps) (simp add: Let_def)
  with t show ?thesis by (intro exI [of _ "tot + ?n"]) (simp add: Let_def)
qed

lemma answer_message:
  assumes "rds w sock = r @ q" and "flowing r" and "stream r = m @ [NUL]" and "NUL \<notin> set m"
    and "unat tot + length m + 1 \<le> length buf" and "length buf < 2 ^ 32" and "0 < unat rs"
  shows "answer_loop sock rs buf tot w =
    (Ret (take (unat tot) buf @ m @ [NUL] @ drop (unat tot + length m + 1) buf), with_rds sock q w)"
  using assms
proof (induction "rd_size r" arbitrary: r m buf tot w rule: less_induct)
  case less
  have "r \<noteq> []" using less.prems(3) by auto
  obtain bs r' where rd: "sys_read sock (unat rs) w = (Ret (Some bs), with_rds sock (r' @ q) w)"
    and r': "flowing r'" "stream r = bs @ stream r'" "rd_size r' < rd_size r"
    and bs: "bs \<noteq> []" "length bs \<le> unat rs"
    using sys_read_flowing [OF less.prems(1,2) \<open>r \<noteq> []\<close> less.prems(7)] by metis
  let ?w1 = "with_rds sock (r' @ q) w"
  have eq: "bs @ stream r' = m @ [NUL]" using r'(2) less.prems(3) by simp
  then have "length bs \<le> length m + 1" by (metis length_append length_append_singleton Suc_eq_plus1 le_add1)
  with less.prems(5) have le: "unat tot + length bs \<le> length buf" by simp
  let ?buf = "take (unat tot) buf @ bs @ drop (unat tot + length bs) buf"
  from answer_round [OF rd bs(1) le less.prems(6)] obtain tot' where
    tot': "unat tot' = unat tot + length bs" and
    run: "answer_loop sock rs buf tot w =
      (if last bs = NUL then (Ret ?buf, ?w1) else answer_loop sock rs ?buf tot' ?w1)"
    by (auto simp: Let_def)
  show ?case
  proof (cases "last bs = NUL")
    case True
    from NUL_message_split(1) [OF eq less.prems(4) bs(1) True] r'(1) have "bs = m @ [NUL]" "r' = []"
      by (simp_all add: flowing_stream_Nil)
    with run True show ?thesis by simp
  next
    case False
    from NUL_message_split(2) [OF eq less.prems(4) bs(1) False] obtain m' where
      m': "m = bs @ m'" "stream r' = m' @ [NUL]" by blast
    have "rds ?w1 sock = r' @ q" "NUL \<notin> set m'" "unat tot' + length m' + 1 \<le> length ?buf"
      "length ?buf < 2 ^ 32"
      using less.prems(4-6) m'(1) tot' le by simp_all
    from less.hyps [OF r'(3) this(1) r'(1) m'(2) this(2-4) less.prems(7)] run False m'(1) tot' le
    show ?thesis by (simp add: ac_simps)
  qed
qed

text \<open>Receiving sends nothing.\<close>

lemma answer_loop_outs: "outs (snd (answer_loop sock rs buf tot w)) = outs w"
proof (induction sock rs buf tot w rule: answer_loop.induct)
  case (1 sock rs buf tot w)
  obtain r w1 where rd: "sys_read sock (unat rs) w = (r, w1)" by fastforce
  then have w1: "outs w1 = outs w" by (metis sys_read_state with_rds_sel(2))
  show ?case
  proof (cases r)
    case (Ret x)
    then show ?thesis
      using "1" [OF rd [unfolded Ret] refl refl] rd w1
      by (subst answer_loop.simps) (auto simp: Let_def land_def)
  qed (use rd w1 in \<open>subst answer_loop.simps, simp\<close>)+
qed

section \<open>Properties\<close>

text \<open>The size in bytes of a message of so many kilobytes, when it does not wrap around.\<close>

lemma realsize: "0 < unat sz \<Longrightarrow> unat sz < 2 ^ 22 \<Longrightarrow> unat (sz * 1024 :: u32) = unat sz * 1024"
  by (simp add: unat_word_ariths take_bit_nat_eq_self)

text \<open>The answering side sends back exactly the message it receives, up to and with its
  NUL, whatever the segmentation of the input and however little each write accepts.\<close>

theorem ping_listen_echoes:
  assumes "rds w sock = r @ q" and "flowing r" and "stream r = m @ [NUL]" and "NUL \<notin> set m"
    and "length m + 2 < 2 ^ 32" and "accepting (wrs w sock) (length m + 1)"
  shows "\<exists>x w'. PingListen sock w = (Ret x, w') \<and> outs w' sock = outs w sock @ m @ [NUL] \<and> rds w' sock = q"
proof -
  from PingListen_message [OF assms] obtain x k where
    "PingListen sock w = (Ret x, wrote sock (m @ [NUL]) k (with_rds sock q w))" by blast
  then show ?thesis by simp
qed

lemma ping_listen_echoes_witness:
  "\<exists>x w'. PingListen 5 (idle\<lparr>rds := (\<lambda>_. [])(5 := [Rd_Data ''AB'', Rd_Data (''C'' @ [NUL])]),
      wrs := (\<lambda>_. [])(5 := replicate 4 (Wr_Acc 1))\<rparr>) = (Ret x, w') \<and> outs w' 5 = ''ABC'' @ [NUL]"
  using ping_listen_echoes [of "idle\<lparr>rds := (\<lambda>_. [])(5 := [Rd_Data ''AB'', Rd_Data (''C'' @ [NUL])]),
      wrs := (\<lambda>_. [])(5 := replicate 4 (Wr_Acc 1))\<rparr>" 5 "[Rd_Data ''AB'', Rd_Data (''C'' @ [NUL])]" "[]" "''ABC''"]
  by (auto simp: accepting_replicate)

text \<open>The state of the asking side once its message is out.\<close>

lemma pingSend_asked:
  assumes "0 < unat sz" and "unat sz < 2 ^ 22" and "takes_nul (wrs w sock) (unat sz * 1024 - 1)"
  defines "n \<equiv> unat sz * 1024"
  shows "\<exists>k. pingSend sock sz w =
    bindIO (answer_loop sock (sz * 1024) (replicate (n + 1) NUL) 0) (\<lambda>bufferRecv.
      retIO (ping_text (n - 1) @ [NUL] = take n bufferRecv)) (wrote sock (ping_text (n - 1) @ [NUL]) k w)"
proof -
  have rs: "unat (sz * 1024) = n" unfolding n_def by (rule realsize [OF assms(1,2)])
  have n: "0 < n" "n - 1 + 1 < 2 ^ 32" using assms(1,2) by (simp_all add: n_def)
  have buf: "ping_buf (sz * 1024) = Ret (ping_text (n - 1) @ [NUL, NUL])"
    using ping_buf_run [of "sz * 1024"] rs n by simp
  have "takes_nul (wrs w sock) (n - 1 - unat (0 :: u32))" using assms(3) by (simp add: n_def)
  moreover have "unat (0 :: u32) < n - 1" using assms(1) by (simp add: n_def)
  ultimately obtain t k where
    "ask_loop sock (ping_text (n - 1) @ [NUL, NUL]) (n - 1) 0 w =
      (Ret t, wrote sock (drop (unat (0 :: u32)) (ping_text (n - 1)) @ [NUL]) k w)"
    using ask_loop_whole [OF _ _ length_ping_text n(2)] by blast
  moreover have "take n (ping_text (n - 1) @ [NUL, NUL]) = ping_text (n - 1) @ [NUL]"
    using n by simp
  ultimately show ?thesis
    using buf by (intro exI [of _ k])
      (simp add: pingSend_def Let_def c_string_ping_buf rs)
qed

text \<open>It says this message whatever it hears, and is content when it hears the message.\<close>

lemma pingSend_says:
  assumes "0 < unat sz" and "unat sz < 2 ^ 22" and "takes_nul (wrs w sock) (unat sz * 1024 - 1)"
  shows "outs (snd (pingSend sock sz w)) sock = outs w sock @ ping_text (unat sz * 1024 - 1) @ [NUL]"
proof -
  let ?n = "unat sz * 1024" and ?m = "ping_text (unat sz * 1024 - 1) @ [NUL]"
  from pingSend_asked [OF assms] obtain k where
    run: "pingSend sock sz w = bindIO (answer_loop sock (sz * 1024) (replicate (?n + 1) NUL) 0) (\<lambda>b.
      retIO (?m = take ?n b)) (wrote sock ?m k w)" by blast
  obtain x v where "answer_loop sock (sz * 1024) (replicate (?n + 1) NUL) 0 (wrote sock ?m k w) = (x, v)"
    by fastforce
  with answer_loop_outs [of sock "sz * 1024" "replicate (?n + 1) NUL" 0 "wrote sock ?m k w"]
  show ?thesis unfolding run by (cases x) simp_all
qed

lemma pingSend_hears:
  assumes "0 < unat sz" and "unat sz < 2 ^ 22" and "takes_nul (wrs w sock) (unat sz * 1024 - 1)"
    and "rds w sock = r @ q" and "flowing r" and "stream r = ping_text (unat sz * 1024 - 1) @ [NUL]"
  shows "\<exists>k. pingSend sock sz w =
    (Ret True, with_rds sock q (wrote sock (ping_text (unat sz * 1024 - 1) @ [NUL]) k w))"
proof -
  let ?n = "unat sz * 1024" and ?m = "ping_text (unat sz * 1024 - 1)"
  from pingSend_asked [OF assms(1-3)] obtain k where
    run: "pingSend sock sz w = bindIO (answer_loop sock (sz * 1024) (replicate (?n + 1) NUL) 0) (\<lambda>b.
      retIO (?m @ [NUL] = take ?n b)) (wrote sock (?m @ [NUL]) k w)" by blast
  let ?w1 = "wrote sock (?m @ [NUL]) k w"
  have "rds ?w1 sock = r @ q" "NUL \<notin> set ?m" "unat (0 :: u32) + length ?m + 1 \<le> length (replicate (?n + 1) NUL)"
    "length (replicate (?n + 1) NUL) < 2 ^ 32" "0 < unat (sz * 1024)"
    using assms(4) realsize [OF assms(1,2)] assms(1,2) ping_text_letters by auto
  from answer_message [OF this(1) assms(5,6) this(2-5)] have
    "answer_loop sock (sz * 1024) (replicate (?n + 1) NUL) 0 ?w1 =
      (Ret (?m @ [NUL] @ drop (length ?m + 1) (replicate (?n + 1) NUL)), with_rds sock q ?w1)" by simp
  moreover have "length (?m @ [NUL]) = ?n" using assms(1) by simp
  then have "take ?n (?m @ [NUL] @ drop (length ?m + 1) (replicate (?n + 1) NUL)) = ?m @ [NUL]"
    by (metis append_assoc append_eq_conv_conj)
  ultimately show ?thesis unfolding run by (intro exI [of _ k]) simp
qed

text \<open>A ping between the two sides succeeds for every message size below 4 GB, when the
  answering side gets what the asking side sends and the asking side gets the answer,
  each in any segmentation: the text comes back equal.\<close>

theorem ping_roundtrip:
  assumes "0 < unat sz" and "unat sz < 2 ^ 22"
    and "takes_nul (wrs wc cs) (unat sz * 1024 - 1)" and "outs wc cs = []"
    and "rds ws ss = rs @ q" and "flowing rs" and "stream rs = outs (snd (pingSend cs sz wc)) cs"
    and "accepting (wrs ws ss) (unat sz * 1024)" and "outs ws ss = []"
    and "rds wc cs = rc @ p" and "flowing rc" and "stream rc = outs (snd (PingListen ss ws)) ss"
  shows "\<exists>wc'. pingSend cs sz wc = (Ret True, wc')"
proof -
  let ?m = "ping_text (unat sz * 1024 - 1)"
  have st: "stream rs = ?m @ [NUL]" using assms(4,7) pingSend_says [OF assms(1-3)] by simp
  have "NUL \<notin> set ?m" "length ?m + 2 < 2 ^ 32" "accepting (wrs ws ss) (length ?m + 1)"
    using assms(1,2,8) ping_text_letters by auto
  from PingListen_message [OF assms(5,6) st this] obtain x j where
    "PingListen ss ws = (Ret x, wrote ss (?m @ [NUL]) j (with_rds ss q ws))" by blast
  with assms(9,12) have "stream rc = ?m @ [NUL]" by simp
  with pingSend_hears [OF assms(1-3,10,11)] show ?thesis by blast
qed

text \<open>A ping of one kilobyte.\<close>

definition ping_cli :: os where
  "ping_cli = idle\<lparr>wrs := (\<lambda>_. [])(4 := [Wr_Acc 1000, Wr_Acc 24]),
     rds := (\<lambda>_. [])(4 := [Rd_Data (ping_text 1023), Rd_Data [NUL]])\<rparr>"

definition ping_srv :: os where
  "ping_srv = idle\<lparr>wrs := (\<lambda>_. [])(5 := replicate 1024 (Wr_Acc 7)),
     rds := (\<lambda>_. [])(5 := [Rd_Data (ping_text 1023 @ [NUL])])\<rparr>"

lemma ping_roundtrip_witness: "\<exists>wc'. pingSend 4 1 ping_cli = (Ret True, wc')"
proof -
  have t: "takes_nul (wrs ping_cli 4) (unat (1 :: u32) * 1024 - 1)" by (simp add: ping_cli_def)
  have ne: "ping_text 1023 \<noteq> []" by (metis length_ping_text list.size(3) zero_neq_numeral)
  have out: "outs (snd (pingSend 4 1 ping_cli)) 4 = ping_text 1023 @ [NUL]"
    using pingSend_says [of 1 ping_cli 4] t by (simp add: ping_cli_def)
  have srv: "\<exists>x k. PingListen 5 ping_srv = (Ret x, wrote 5 (ping_text 1023 @ [NUL]) k (with_rds 5 [] ping_srv))"
    by (rule PingListen_message [of _ _ "rds ping_srv 5"])
      (use ping_text_letters in \<open>auto simp: ping_srv_def accepting_replicate\<close>)
  show ?thesis
    by (rule ping_roundtrip [of _ _ _ ping_srv 5 "rds ping_srv 5" "[]" "rds ping_cli 4" "[]"])
      (use t out srv ne in \<open>auto simp: ping_cli_def ping_srv_def accepting_replicate\<close>)
qed

text \<open>C40: A write that takes the text and stops before the NUL loses the NUL, as the loop
  ends at the length of the text: the answering side waits for it and the asking side
  waits for the answer, for ever.\<close>

theorem ping_loses_nul:
  assumes "0 < unat sz" and "unat sz < 2 ^ 22"
    and "wrs wc cs = Wr_Acc (unat sz * 1024 - 1) # a" and "outs wc cs = []" and "outs ws ss = []"
    and "flowing (rds ws ss)" and "stream (rds ws ss) = outs (snd (pingSend cs sz wc)) cs"
    and "flowing (rds wc cs)" and "stream (rds wc cs) = outs (snd (PingListen ss ws)) ss"
  shows "fst (pingSend cs sz wc) = Blocked \<and> fst (PingListen ss ws) = Blocked"
proof -
  define n where "n = unat sz * 1024 - 1"
  let ?m = "ping_text n" and ?w1 = "wrote cs (ping_text n) 1 wc"
  have n: "0 < n" "n + 1 < 2 ^ 32" "n + 1 = unat sz * 1024" using assms(1,2) by (simp_all add: n_def)
  have rs: "unat (sz * 1024) = n + 1" using realsize [OF assms(1,2)] n(3) by simp
  have buf: "ping_buf (sz * 1024) = Ret (?m @ [NUL, NUL])" using ping_buf_run [of "sz * 1024"] rs by simp
  have "unat (0 :: u32) < n" "length (?m @ [NUL, NUL]) = n + 2" using n by simp_all
  from ask_loop_acc [OF this n(2) assms(3) [folded n_def]] obtain t where
    ask: "ask_loop cs (?m @ [NUL, NUL]) n 0 wc = (Ret t, ?w1)" by (auto simp: Let_def)
  have run: "pingSend cs sz wc = bindIO (answer_loop cs (sz * 1024) (replicate (n + 2) NUL) 0) (\<lambda>b.
      retIO (take (n + 1) (?m @ [NUL, NUL]) = take (n + 1) b)) ?w1"
    using buf ask by (simp add: pingSend_def Let_def c_string_ping_buf rs)
  have "outs (snd (pingSend cs sz wc)) cs = ?m"
  proof -
    obtain x v where "answer_loop cs (sz * 1024) (replicate (n + 2) NUL) 0 ?w1 = (x, v)" by fastforce
    with answer_loop_outs [of cs "sz * 1024" "replicate (n + 2) NUL" 0 ?w1] assms(4)
    show ?thesis unfolding run by (cases x) simp_all
  qed
  with assms(7) have st: "stream (rds ws ss) = ?m" by simp
  moreover have "NUL \<notin> set ?m" using ping_text_letters by blast
  ultimately have "collect ss [] 0 ws = (Blocked, with_rds ss [] ws)"
    using n(2) by (intro collect_waits [OF refl assms(6)]) simp_all
  then have pl: "PingListen ss ws = (Blocked, with_rds ss [] ws)" by (simp add: PingListen_def)
  with assms(5,9) have "rds ?w1 cs = []" using assms(8) by (simp add: flowing_stream_Nil)
  then have "answer_loop cs (sz * 1024) (replicate (n + 2) NUL) 0 ?w1 = (Blocked, ?w1)"
    by (subst answer_loop.simps) (simp add: sys_read_Nil)
  with pl show ?thesis unfolding run by simp
qed

definition lossy_cli :: os where
  "lossy_cli = idle\<lparr>wrs := (\<lambda>_. [])(4 := [Wr_Acc 1023])\<rparr>"

lemma ping_loses_nul_witness:
  "fst (pingSend 4 1 lossy_cli) = Blocked \<and>
   fst (PingListen 5 (with_rds 5 [Rd_Data (ping_text 1023)] idle)) = Blocked"
proof -
  let ?m = "ping_text 1023" and ?w1 = "wrote 4 (ping_text 1023) 1 lossy_cli"
  let ?ws = "with_rds 5 [Rd_Data (ping_text 1023)] idle"
  have ne: "?m \<noteq> []" by (metis length_ping_text list.size(3) zero_neq_numeral)
  have buf: "ping_buf 1024 = Ret (?m @ [NUL, NUL])" using ping_buf_run [of 1024] by simp
  have "\<exists>t. ask_loop 4 (?m @ [NUL, NUL]) 1023 0 lossy_cli = (Ret t, ?w1)"
    using ask_loop_acc [of 0 1023 "?m @ [NUL, NUL]" lossy_cli 4 1023 "[]"]
    by (auto simp: Let_def lossy_cli_def)
  then obtain t where "ask_loop 4 (?m @ [NUL, NUL]) 1023 0 lossy_cli = (Ret t, ?w1)" by blast
  moreover have "answer_loop 4 1024 b 0 ?w1 = (Blocked, ?w1)" for b
    by (subst answer_loop.simps) (simp add: sys_read_Nil lossy_cli_def)
  ultimately have out: "outs (snd (pingSend 4 1 lossy_cli)) 4 = ?m"
    using buf by (simp add: pingSend_def Let_def c_string_ping_buf lossy_cli_def)
  have "NUL \<notin> set ?m" using ping_text_letters by blast
  then have "collect 5 [] 0 ?ws = (Blocked, with_rds 5 [] ?ws)"
    using ne by (intro collect_waits [OF refl]) simp_all
  then have "outs (snd (PingListen 5 ?ws)) 5 = []" by (simp add: PingListen_def)
  moreover have "wrs lossy_cli 4 = Wr_Acc 1023 # []" "outs lossy_cli 4 = []" "rds lossy_cli 4 = []"
    by (simp_all add: lossy_cli_def)
  ultimately show ?thesis
    by (intro ping_loses_nul [of 1 lossy_cli 4 "[]" ?ws 5]) (simp_all add: out ne)
qed

text \<open>An answer that is longer than the question overruns the receive buffer: two reads
  that together exceed it by a byte suffice, as each read is allowed the size of the whole
  message.\<close>

theorem ping_answer_overflow:
  assumes "rds w sock = Rd_Data a # Rd_Data b # q" and "a \<noteq> []" and "last a \<noteq> NUL"
    and "length a \<le> unat rs" and "length b \<le> unat rs" and "b \<noteq> []" and "unat rs + 1 < 2 ^ 32"
    and "unat rs + 1 < length a + length b"
  shows "fst (answer_loop sock rs (replicate (unat rs + 1) NUL) 0 w) = Crash Buffer_Overflow"
proof -
  let ?w1 = "with_rds sock (Rd_Data b # q) w" and ?buf = "a @ drop (length a) (replicate (unat rs + 1) NUL)"
  have rd1: "sys_read sock (unat rs) w = (Ret (Some a), ?w1)"
    using assms(1,4) by (simp add: sys_read_def with_rds_def)
  have "unat (0 :: u32) + length a \<le> length (replicate (unat rs + 1) NUL)"
    "length (replicate (unat rs + 1) NUL) < 2 ^ 32" using assms(4,7) by simp_all
  from answer_round [OF rd1 assms(2) this] assms(3) obtain tot where
    tot: "unat tot = length a" and
    run: "answer_loop sock rs (replicate (unat rs + 1) NUL) 0 w = answer_loop sock rs ?buf tot ?w1" by auto
  have rd2: "sys_read sock (unat rs) ?w1 = (Ret (Some b), with_rds sock q ?w1)"
    using assms(5) by (simp add: sys_read_def with_rds_def)
  have "(0 :: u32) < of_nat (length b)" using assms(5-7) by (simp add: less_of_nat32)
  moreover have "land ?buf (unat tot) b = Crash Buffer_Overflow"
    using tot assms(4,8) by (simp add: land_def)
  ultimately show ?thesis unfolding run using rd2 by (subst answer_loop.simps) simp
qed

lemma ping_answer_overflow_witness:
  "fst (answer_loop 4 1024 (replicate (unat (1024 :: u32) + 1) NUL) 0
     (idle\<lparr>rds := (\<lambda>_. [])(4 := [Rd_Data (replicate 1024 (CHR ''A'')), Rd_Data ''AA''])\<rparr>)) = Crash Buffer_Overflow"
  by (rule ping_answer_overflow [where a = "replicate 1024 (CHR ''A'')" and b = "''AA''" and q = "[]"]) simp_all

text \<open>A message size that is a multiple of 4194304 kilobytes wraps around to 0, and
  filling the one-byte buffer runs past its end.\<close>

theorem ping_size_wraps:
  assumes "unat sz mod 2 ^ 22 = 0"
  shows "pingSend sock sz w = (Crash Buffer_Overflow, w)"
proof -
  have "unat sz * 1024 mod 2 ^ 32 = (unat sz mod 2 ^ 22) * 1024"
    using mult_mod_right [of 1024 "unat sz" "2 ^ 22"] by (simp add: mult.commute)
  then have "unat (sz * 1024) = 0" using assms by (simp add: unat_word_ariths)
  then have "sz * 1024 = 0" by (simp add: unat_eq_0)
  then show ?thesis by (simp add: pingSend_def ping_buf_def unat_minus1_32)
qed

lemma ping_size_wraps_witness: "pingSend 4 4194304 idle = (Crash Buffer_Overflow, idle)"
  by (rule ping_size_wraps) simp

end
