(* ===== verification/Hexdump.thy ===== *)
theory Hexdump
  imports Libc
begin

text \<open>
  \<open>dump\<close>, the hex dump of raw/main.c and of both sniffers, which hold identical copies: what
  it prints for the first \<open>len\<close> bytes of a memory region, and a reference that formats rows
  of sixteen bytes.
\<close>

section \<open>The function\<close>

definition byte :: "char \<Rightarrow> nat" where
  "byte c = of_char c"

lemma byte_less: "byte c < 256"
  by (simp add: byte_def)

definition hex_digit :: "nat \<Rightarrow> char" where
  "hex_digit d = char_of (if d < 10 then 48 + d else 87 + d)"

text \<open>\<open>%02x\<close> of an unsigned byte.\<close>

definition hex2 :: "nat \<Rightarrow> string" where
  "hex2 n = [hex_digit (n div 16), hex_digit (n mod 16)]"

definition shown :: "char \<Rightarrow> char" where
  "shown c = (if 31 < byte c \<and> byte c < 127 then c else CHR ''.'')"

text \<open>
  The loop from index \<open>i\<close>; the index stays below \<open>len\<close> and does not wrap around. The inner
  loops print the padding of a short last row and the row's characters.
\<close>

function dump_loop :: "string \<Rightarrow> nat \<Rightarrow> nat \<Rightarrow> string res" where
  "dump_loop mem len i =
     (if i < len then
        if length mem \<le> i then Crash Out_Of_Bounds
        else
          let hex = hex2 (byte (mem ! i)) @ '' '';
              rest = (if i mod 16 = 15 \<or> i = len - 1
                      then concat (replicate (15 - i mod 16) ''   '') @ ''| '' @
                           map (\<lambda>j. shown (mem ! j)) [i - i mod 16 ..< i + 1] @ [LF]
                      else [])
          in (case dump_loop mem len (i + 1) of
                Ret out \<Rightarrow> Ret (hex @ rest @ out)
              | r \<Rightarrow> r)
      else Ret [])"
  by pat_completeness auto
termination
  by (relation "measure (\<lambda>(mem, len, i). len - i)") auto

declare dump_loop.simps [simp del]

definition dump :: "string \<Rightarrow> u32 \<Rightarrow> string res" where
  "dump data_buffer len = dump_loop data_buffer (unat len) 0"

section \<open>The reference\<close>

fun rows :: "string \<Rightarrow> string list" where
  "rows [] = []"
| "rows (c # cs) = take 16 (c # cs) # rows (drop 16 (c # cs))"

definition dump_row :: "string \<Rightarrow> string" where
  "dump_row r = concat (map (\<lambda>c. hex2 (byte c) @ '' '') r) @
     concat (replicate (16 - length r) ''   '') @ ''| '' @ map shown r @ [LF]"

section \<open>The function meets the reference\<close>

text \<open>The bytes of one row up to its last one.\<close>

lemma dump_loop_row:
  assumes "i + k < len" and "len \<le> length mem" and "i mod 16 + k < 16"
    and "i mod 16 + k = 15 \<or> i + k = len - 1"
  shows "dump_loop mem len i =
     (case dump_loop mem len (i + k + 1) of
        Ret out \<Rightarrow> Ret (concat (map (\<lambda>c. hex2 (byte c) @ '' '') (take (k + 1) (drop i mem))) @
          concat (replicate (15 - (i mod 16 + k)) ''   '') @ ''| '' @
          map (\<lambda>j. shown (mem ! j)) [i - i mod 16 ..< i + k + 1] @ [LF] @ out)
      | r \<Rightarrow> r)"
  using assms
proof (induction k arbitrary: i)
  case 0
  have "take 1 (drop i mem) = [mem ! i]" using 0 by (simp add: take_Suc_conv_app_nth)
  with 0 show ?case by (subst dump_loop.simps) (auto simp: Let_def split: res.split)
next
  case (Suc k)
  have m: "(i + 1) mod 16 = i mod 16 + 1" using Suc.prems(3) by (simp add: mod_Suc)
  have st: "(i + 1) - (i + 1) mod 16 = i - i mod 16" unfolding m by simp
  have tk: "take (Suc k + 1) (drop i mem) = mem ! i # take (k + 1) (drop (i + 1) mem)"
    using Suc.prems by (simp add: Cons_nth_drop_Suc [symmetric])
  have "\<not> (i mod 16 = 15 \<or> i = len - 1)" using Suc.prems by auto
  then have one: "dump_loop mem len i = (case dump_loop mem len (i + 1) of
      Ret out \<Rightarrow> Ret ((hex2 (byte (mem ! i)) @ '' '') @ out) | r \<Rightarrow> r)"
    using Suc.prems by (subst dump_loop.simps) (simp add: Let_def split: res.split)
  have "dump_loop mem len (i + 1) =
     (case dump_loop mem len (i + 1 + k + 1) of
        Ret out \<Rightarrow> Ret (concat (map (\<lambda>c. hex2 (byte c) @ '' '') (take (k + 1) (drop (i + 1) mem))) @
          concat (replicate (15 - ((i + 1) mod 16 + k)) ''   '') @ ''| '' @
          map (\<lambda>j. shown (mem ! j)) [(i + 1) - (i + 1) mod 16 ..< i + 1 + k + 1] @ [LF] @ out)
      | r \<Rightarrow> r)"
    by (rule Suc.IH) (use Suc.prems m in auto)
  then show ?case
    unfolding one st tk unfolding m by (simp add: ac_simps split: res.split)
qed

lemma shown_nth: "i + k \<le> length mem \<Longrightarrow> map (\<lambda>j. shown (mem ! j)) [i ..< i + k] = map shown (take k (drop i mem))"
  by (rule nth_equalityI) (auto simp: nth_append)

lemma dump_loop_rows:
  assumes "i mod 16 = 0" and "len \<le> length mem"
  shows "dump_loop mem len i = Ret (concat (map dump_row (rows (drop i (take len mem)))))"
  using assms(1)
proof (induction "len - i" arbitrary: i rule: less_induct)
  case less
  show ?case
  proof (cases "i < len")
    case False
    then show ?thesis by (subst dump_loop.simps) simp
  next
    case True
    define k where "k = min 15 (len - 1 - i)"
    let ?r = "take 16 (drop i (take len mem))"
    have k: "i + k < len" "i mod 16 + k < 16" "i mod 16 + k = 15 \<or> i + k = len - 1" "k \<le> 15"
      using True less.prems by (auto simp: k_def)
    have row: "take (k + 1) (drop i mem) = ?r" and len: "length ?r = k + 1"
      using True assms(2) by (auto simp: k_def min_def take_drop)
    have sh: "map (\<lambda>j. shown (mem ! j)) [i ..< i + k + 1] = map shown ?r"
      using shown_nth [of i "k + 1" mem] k(1) assms(2) row by (simp add: add.assoc)
    have nxt: "drop (i + k + 1) (take len mem) = drop 16 (drop i (take len mem))"
      using True by (auto simp: k_def min_def)
    have "dump_loop mem len (i + k + 1) = Ret (concat (map dump_row (rows (drop 16 (drop i (take len mem))))))"
    proof (cases "k = 15")
      case True
      have "(i + k + 1) mod 16 = 0" using True less.prems by simp
      with less.hyps [of "i + k + 1"] k(1) nxt show ?thesis by simp
    next
      case False
      with k less.prems have "i + k + 1 = len" by auto
      with nxt show ?thesis by (subst dump_loop.simps) simp
    qed
    moreover have "rows (drop i (take len mem)) = ?r # rows (drop 16 (drop i (take len mem)))"
      using True assms(2) by (cases "drop i (take len mem)") auto
    moreover have "15 - k = 16 - length ?r" using len k(4) by simp
    ultimately show ?thesis
      using dump_loop_row [OF k(1) assms(2) k(2,3)] less.prems sh row
      by (simp add: dump_row_def)
  qed
qed

lemma dump_loop_beyond:
  assumes "length mem < len" and "i \<le> length mem"
  shows "dump_loop mem len i = Crash Out_Of_Bounds"
  using assms(2)
proof (induction "length mem - i" arbitrary: i rule: less_induct)
  case less
  show ?case
  proof (cases "i = length mem")
    case True
    then show ?thesis using assms(1) by (subst dump_loop.simps) simp
  next
    case False
    with less.prems assms(1) less.hyps [of "i + 1"] show ?thesis
      by (subst dump_loop.simps) (simp add: Let_def)
  qed
qed

lemma dump_run:
  "dump mem len =
     (if unat len \<le> length mem then Ret (concat (map dump_row (rows (take (unat len) mem))))
      else Crash Out_Of_Bounds)"
  using dump_loop_rows [of 0 "unat len" mem] dump_loop_beyond [of mem "unat len" 0]
  by (simp add: dump_def)

section \<open>Properties\<close>

text \<open>C29: The dump is exactly the rows of sixteen bytes in hexadecimal with their printable
  characters, the last row padded to the same column; a length beyond the memory makes it
  read out of bounds.\<close>

theorem dump_rows:
  "dump mem len =
     (if unat len \<le> length mem then Ret (concat (map dump_row (rows (take (unat len) mem))))
      else Crash Out_Of_Bounds)"
  by (rule dump_run)

end
