(* ===== verification/Console.thy ===== *)
theory Console
  imports Hexdump
begin

text \<open>
  What raw/main.c and the two sniffers share: the console they print to, the datagrams they
  send and receive, and memory as a list of bytes, with 16-bit fields in the byte order of a
  little-endian machine.
\<close>

unbundle bit_operations_syntax

section \<open>The console\<close>

text \<open>
  What the program does to its surroundings: the text it prints and the datagrams it sends.
  The answers of the kernel are arguments.
\<close>

record console =
  text_out :: string
  sent :: "string list"

definition say :: "string \<Rightarrow> (console, unit) io" where
  "say t s = (Ret (), s\<lparr>text_out := text_out s @ t\<rparr>)"

definition show_dump :: "string \<Rightarrow> u32 \<Rightarrow> (console, unit) io" where
  "show_dump mem len = bindIO (liftR (dump mem len)) say"

text \<open>An answer to \<open>recvfrom\<close>: an error (-1), or a datagram, cut to the size of the buffer.\<close>

datatype rcv = Rcv_Err | Rcv string

definition poke :: "nat \<Rightarrow> string \<Rightarrow> string \<Rightarrow> string" where
  "poke i bs mem = take i mem @ bs @ drop (i + length bs) mem"

section \<open>Fields in memory\<close>

definition word16 :: "char \<Rightarrow> char \<Rightarrow> nat" where
  "word16 a b = byte a + 256 * byte b"

definition store16 :: "u16 \<Rightarrow> string" where
  "store16 x = [char_of (unat x mod 256), char_of (unat x div 256)]"

lemma word16_less: "word16 a b < 65536"
  using byte_less [of a] byte_less [of b] by (simp add: word16_def)

lemma length_store16 [simp]: "length (store16 c) = 2"
  by (simp add: store16_def)

lemma unat_htons: "unat (htons x) = unat x mod 256 * 256 + unat x div 256"
proof -
  have l: "unat x < 65536" using unsigned_less [of x, where 'a = nat] by simp
  have "push_bit 8 x AND drop_bit 8 x = 0"
    by (rule bit_word_eqI) (auto simp: bit_simps dest: bit_imp_le_length)
  then have h: "htons x = push_bit 8 x + drop_bit 8 x"
    by (simp add: htons_def disjunctive_add_eq_or)
  have p: "unat (push_bit 8 x) = unat x mod 256 * 256"
  proof -
    have "unat (push_bit 8 x) = take_bit 16 (push_bit 8 (unat x))"
      by (subst unsigned_push_bit_eq) simp
    also have "\<dots> = (unat x * 256) mod 65536" by (simp add: take_bit_eq_mod push_bit_eq_mult)
    also have "\<dots> = (unat x mod 256) * 256"
      using mod_mult_mult2 [of "unat x" 256 256] by simp
    finally show ?thesis .
  qed
  have d: "unat (drop_bit 8 x) = unat x div 256"
    by (simp add: drop_bit_eq_div unat_div)
  have "unat x div 256 < 256" using l by (simp add: less_mult_imp_div_less)
  then show ?thesis unfolding h by (subst unat_word_ariths) (simp add: p d)
qed

lemma store_net:
  assumes "n < 65536"
  shows "store16 (htons (of_nat n)) = [char_of (n div 256), char_of (n mod 256)]"
proof -
  have u: "unat (of_nat n :: u16) = n" using assms by (simp add: unat_of_nat take_bit_nat_eq_self)
  have "n div 256 < 256" using assms by (simp add: less_mult_imp_div_less)
  then show ?thesis by (simp add: store16_def unat_htons u)
qed

lemma poke_append: "i + length bs \<le> length a \<Longrightarrow> poke i bs (a @ b) = poke i bs a @ b"
  by (simp add: poke_def)

lemma poke_simps:
  "poke 0 [] m = m"
  "poke 0 (c # bs) (x # m) = c # poke 0 bs m"
  "poke (Suc i) bs (x # m) = x # poke i bs m"
  "poke (numeral k) bs (x # m) = x # poke (pred_numeral k) bs m"
  by (simp_all add: poke_def numeral_eq_Suc)

lemma char_values: "char_of (65 :: nat) = CHR ''A''" "char_of (0 :: nat) = NUL"
  using char_of_char [of "CHR ''A''"] char_of_char [of NUL] by simp_all

lemma dec_0: "dec 0 = ''0''"
  using char_of_char [of "CHR ''0''"] by (simp add: dec.simps digit_char_def)

end
