(* ===== verification/Raw.thy ===== *)
theory Raw
  imports Console
begin

text \<open>
  raw/main.c: the Internet checksum and the ICMP echo request that the program builds by
  hand. Memory is a list of bytes; a 16-bit field is stored and loaded in the byte order
  of a little-endian machine.
\<close>

unbundle bit_operations_syntax

section \<open>The checksum\<close>

text \<open>Lines 150 to 159.\<close>

fun csum_loop :: "string \<Rightarrow> int \<Rightarrow> u64 \<Rightarrow> u64 res" where
  "csum_loop (a # b # m) bytes acc =
     (if 1 < bytes then csum_loop m (bytes - 2) (acc + of_nat (word16 a b))
      else if bytes = 1 then Ret (acc + of_nat (byte a)) else Ret acc)"
| "csum_loop [a] bytes acc =
     (if 1 < bytes then Crash Out_Of_Bounds
      else if bytes = 1 then Ret (acc + of_nat (byte a)) else Ret acc)"
| "csum_loop [] bytes acc = (if 0 < bytes then Crash Out_Of_Bounds else Ret acc)"

text \<open>Lines 162 to 166: \<open>sum = (sum >> 16) + (sum & 0xffff); sum += (sum >> 16); answer = ~sum\<close>.\<close>

definition fold16 :: "u64 \<Rightarrow> u16" where
  "fold16 acc =
     (let s1 = (drop_bit 16 acc) + (acc AND 0xFFFF);
          s2 = s1 + drop_bit 16 s1
      in ucast (NOT s2))"

definition csum :: "string \<Rightarrow> int \<Rightarrow> u16 res" where
  "csum buf bytes =
     (case csum_loop buf bytes 0 of
        Ret acc \<Rightarrow> Ret (fold16 acc)
      | Crash f \<Rightarrow> Crash f | Blocked \<Rightarrow> Blocked | Exit n \<Rightarrow> Exit n | No_Fuel \<Rightarrow> No_Fuel)"

section \<open>The reference: ones' complement addition\<close>

fun words16 :: "string \<Rightarrow> nat list" where
  "words16 (a # b # m) = word16 a b # words16 m"
| "words16 [a] = [byte a]"
| "words16 [] = []"

definition oc_add :: "nat \<Rightarrow> nat \<Rightarrow> nat" where
  "oc_add a b = (if a + b < 65536 then a + b else a + b - 65535)"

fun oc_sum :: "nat list \<Rightarrow> nat" where
  "oc_sum [] = 0"
| "oc_sum (x # xs) = oc_add x (oc_sum xs)"

lemma words16_less: "x \<in> set (words16 m) \<Longrightarrow> x < 65536"
  by (induction m rule: words16.induct) (auto simp: word16_less intro: less_trans [OF byte_less])

text \<open>Addition is addition modulo 65535, with zero only for a zero sum.\<close>

definition represents :: "nat \<Rightarrow> nat \<Rightarrow> bool" where
  "represents r s \<longleftrightarrow> r \<le> 65535 \<and> r mod 65535 = s mod 65535 \<and> (r = 0 \<longleftrightarrow> s = 0)"

lemma represents_unique: "represents r s \<Longrightarrow> represents r' s \<Longrightarrow> r = r'"
  unfolding represents_def by (metis le_neq_implies_less less_numeral_extra(3) mod_less mod_self)

lemma represents_oc_add:
  assumes "represents a s" and "represents b t"
  shows "represents (oc_add a b) (s + t)"
proof -
  have "(a + b) mod 65535 = (s + t) mod 65535"
    using assms by (auto simp: represents_def intro: mod_add_cong)
  moreover have "(a + b - 65535) mod 65535 = (a + b) mod 65535" if "65535 \<le> a + b"
    using that by (metis le_mod_geq)
  ultimately have m: "oc_add a b mod 65535 = (s + t) mod 65535" by (simp add: oc_add_def)
  have "a \<le> 65535" "b \<le> 65535" using assms by (simp_all add: represents_def)
  then have "oc_add a b \<le> 65535" "oc_add a b = 0 \<longleftrightarrow> a = 0 \<and> b = 0"
    unfolding oc_add_def by auto
  with m assms show ?thesis by (simp add: represents_def)
qed

lemma represents_self: "r < 65536 \<Longrightarrow> represents r r"
  by (simp add: represents_def)

lemma represents_oc_sum: "\<forall>x\<in>set xs. x < 65536 \<Longrightarrow> represents (oc_sum xs) (sum_list xs)"
  by (induction xs) (auto simp: represents_def [of 0 0] intro!: represents_oc_add represents_self)

lemma represents_completed:
  assumes "represents r s"
  shows "represents 65535 (s + (65535 - r))"
proof -
  have r: "r \<le> 65535" "r = 0 \<longleftrightarrow> s = 0" "s mod 65535 = r mod 65535"
    using assms by (simp_all add: represents_def)
  have "(s + (65535 - r)) mod 65535 = (r + (65535 - r)) mod 65535"
    using r(3) by (intro mod_add_cong) simp_all
  also have "\<dots> = 0" using r(1) by simp
  finally have "(s + (65535 - r)) mod 65535 = 0" .
  moreover have "s + (65535 - r) \<noteq> 0" using r(2) by (cases "s = 0") simp_all
  ultimately show ?thesis by (simp add: represents_def)
qed

text \<open>The two folds of the code add the halves of the sum once, with the carry.\<close>

lemma represents_halves:
  assumes "s < 2 ^ 32"
  shows "represents (oc_add (s div 65536) (s mod 65536)) s"
proof -
  have "represents (oc_add (s div 65536) (s mod 65536)) (s div 65536 + s mod 65536)"
    using assms by (intro represents_oc_add represents_self) (auto simp: less_mult_imp_div_less)
  moreover have "(s div 65536 + s mod 65536) mod 65535 = s mod 65535"
  proof -
    have "s mod 65535 = ((s div 65536) * 65535 + (s div 65536 + s mod 65536)) mod 65535"
      using div_mult_mod_eq [of s 65536] by (simp add: algebra_simps)
    then show ?thesis by (simp only: mod_mult_self3)
  qed
  moreover have "s div 65536 + s mod 65536 = 0 \<longleftrightarrow> s = 0"
    using div_mult_mod_eq [of s 65536] by auto
  ultimately show ?thesis by (auto simp: represents_def)
qed

lemma oc_add_folds:
  assumes "x < 65536" and "y < 65536"
  shows "(x + y + (x + y) div 65536) mod 65536 = oc_add x y \<and> oc_add x y \<le> 65535"
proof (cases "x + y < 65536")
  case True
  then show ?thesis by (simp add: oc_add_def)
next
  case False
  then obtain d where d: "x + y = 65536 + d" using le_Suc_ex [of 65536 "x + y"] by auto
  with assms have "d < 65535" by linarith
  moreover have "(65536 + d) div 65536 = Suc (d div 65536)" using div_add_self1 [of 65536 d] by simp
  moreover have "(Suc d + 65536) mod 65536 = Suc d" using \<open>d < 65535\<close> by (simp only: mod_add_self2) simp
  ultimately have "(65536 + d + (65536 + d) div 65536) mod 65536 = Suc d" by (simp add: add.commute)
  with d \<open>d < 65535\<close> show ?thesis by (simp add: oc_add_def)
qed

lemma fold16_halves:
  assumes "s < 2 ^ 32"
  shows "fold16 (of_nat s) = of_nat (65535 - oc_add (s div 65536) (s mod 65536))"
proof -
  define w :: u64 where "w = of_nat s"
  have w: "unat w = s" using assms by (simp add: w_def unat_of_nat)
  define s1 where "s1 = drop_bit 16 w + (w AND 0xFFFF)"
  have hi: "unat (drop_bit 16 w) = s div 65536" by (simp add: unat_high_half w)
  have lo: "unat (w AND 0xFFFF) = s mod 65536"
  proof -
    have "w AND 0xFFFF = take_bit 16 w" by (simp add: take_bit_eq_mask mask_numeral)
    moreover have "take_bit 16 w = w mod 65536" by (simp add: take_bit_eq_mod)
    ultimately show ?thesis using w by (simp only: unat_mod) simp
  qed
  have h: "s div 65536 < 65536" "s mod 65536 < 65536" using assms by (auto simp: less_mult_imp_div_less)
  have s1: "unat s1 = s div 65536 + s mod 65536"
    unfolding s1_def using h hi lo by (subst unat_add_64) simp_all
  have c: "unat (drop_bit 16 s1) = (s div 65536 + s mod 65536) div 65536"
    by (simp add: unat_high_half s1)
  have s2: "unat (s1 + drop_bit 16 s1) = s div 65536 + s mod 65536 + (s div 65536 + s mod 65536) div 65536"
  proof -
    define t where "t = s div 65536 + s mod 65536"
    have "t < 131072" unfolding t_def using h by linarith
    then have "unat s1 + unat (drop_bit 16 s1) < 2 ^ 64"
      using div_le_dividend [of t 65536] unfolding s1 c t_def [symmetric] by simp
    then show ?thesis by (simp only: unat_add_64 s1 c)
  qed
  let ?r = "oc_add (s div 65536) (s mod 65536)"
  have r: "unat (s1 + drop_bit 16 s1) mod 65536 = ?r" "?r \<le> 65535"
    unfolding s2 using oc_add_folds [OF h] by simp_all
  have u: "ucast (s1 + drop_bit 16 s1) = (of_nat ?r :: u16)"
  proof -
    have "(ucast (s1 + drop_bit 16 s1) :: u16) = of_nat (unat (s1 + drop_bit 16 s1))" by simp
    also have "\<dots> = of_nat (unat (s1 + drop_bit 16 s1) mod 65536)" by (rule of_nat_mod_65536 [symmetric])
    finally show ?thesis by (simp only: r(1))
  qed
  have "fold16 w = ucast (NOT (s1 + drop_bit 16 s1))" by (simp add: fold16_def s1_def Let_def)
  also have "\<dots> = NOT (ucast (s1 + drop_bit 16 s1))"
    by (rule bit_word_eqI) (simp add: bit_simps)
  also have "\<dots> = - of_nat ?r - 1" unfolding u by (simp add: not_eq_complement)
  also have "\<dots> = of_nat (65535 - ?r)" using r(2) by (simp add: of_nat_diff)
  finally show ?thesis by (simp add: w_def)
qed

lemma csum_loop_sum:
  assumes "0 \<le> bytes" and "bytes \<le> int (length m)"
  shows "csum_loop m bytes (of_nat s) = Ret (of_nat (s + sum_list (words16 (take (nat bytes) m))))"
  using assms
proof (induction m bytes "of_nat s :: u64" arbitrary: s rule: csum_loop.induct)
  case (1 a b m bytes)
  show ?case
  proof (cases "1 < bytes")
    case True
    have "nat bytes = Suc (Suc (nat (bytes - 2)))" using True by simp
    with 1 True show ?thesis using "1.hyps" [OF True, of "s + word16 a b"] by (simp add: ac_simps)
  next
    case False
    with 1 have "bytes = 0 \<or> bytes = 1" by auto
    then show ?thesis by auto
  qed
next
  case (2 a bytes)
  then have "bytes = 0 \<or> bytes = 1" by auto
  then show ?case by auto
qed simp

lemma sum_words16: "sum_list (words16 m) \<le> 65535 * ((length m + 1) div 2)"
proof (induction m rule: words16.induct)
  case (1 a b m)
  then show ?case using word16_less [of a b] by simp
next
  case (2 a)
  then show ?case using byte_less [of a] by simp
qed simp

section \<open>The echo request\<close>

text \<open>A byte of memory that lies inside the buffer of 4096 bytes.\<close>

definition octet :: "string \<Rightarrow> nat \<Rightarrow> nat" where
  "octet mem i = byte (mem ! i)"

text \<open>The two four-bit fields of the first byte, low half first (lines 17 and 18).\<close>

definition set_version :: "nat \<Rightarrow> string \<Rightarrow> string" where
  "set_version v mem = poke 0 [char_of (octet mem 0 mod 16 + 16 * v)] mem"

definition set_ihl :: "nat \<Rightarrow> string \<Rightarrow> string" where
  "set_ihl v mem = poke 0 [char_of (octet mem 0 div 16 * 16 + v)] mem"

definition ihl :: "string \<Rightarrow> nat" where
  "ihl mem = octet mem 0 mod 16"

definition sizeof_ip :: nat where "sizeof_ip = 20"
definition sizeof_icmp :: nat where "sizeof_icmp = 8"

definition packet_length :: nat where
  "packet_length = sizeof_ip + sizeof_icmp + 64"

text \<open>Lines 82 to 92.\<close>

definition ip_header :: "string \<Rightarrow> string" where
  "ip_header mem0 =
     (let m = set_version 4 mem0;
          m = set_ihl 5 m;
          m = poke 1 [char_of (0::nat)] m;
          m = poke 2 (store16 (htons (of_nat packet_length))) m;
          m = poke 4 (store16 (htons 1)) m;
          m = poke 6 (store16 0) m;
          m = poke 8 [char_of (10::nat)] m;
          m = poke 9 [char_of (1::nat)] m;
          m = poke 10 (store16 0) m;
          m = poke 12 (map char_of [192, 168, 56, 101 :: nat]) m
      in poke 16 (map char_of [192, 168, 56, 1 :: nat]) m)"

text \<open>Lines 94 to 102; in \<open>struct echoreq\<close> the sequence number comes before the identifier.\<close>

definition icmp_request :: "string \<Rightarrow> string" where
  "icmp_request mem0 =
     (let m = poke sizeof_ip [char_of (8::nat)] mem0;
          m = poke (sizeof_ip + 1) [char_of (0::nat)] m;
          m = poke (sizeof_ip + 2) (store16 0) m;
          m = poke (sizeof_ip + 4) (store16 (htons 10)) m;
          m = poke (sizeof_ip + 6) (store16 (htons 20)) m
      in poke (sizeof_ip + sizeof_icmp) (replicate 64 (CHR ''A'')) m)"

text \<open>Lines 76 to 105: the whole packet, the two checksums last.\<close>

definition packet :: "string res" where
  "packet =
     (let m = icmp_request (ip_header (replicate 4096 (char_of (0::nat)))) in
      bind_res (csum m (int (ihl m * 4))) (\<lambda>c.
      let m = poke 10 (store16 c) m in
      bind_res (csum (drop sizeof_ip m) (int (sizeof_icmp + 64))) (\<lambda>c.
      Ret (poke (sizeof_ip + 2) (store16 c) m))))"

text \<open>
  Lines 132 to 141. \<open>(struct icmp_hd *) buffer+20\<close> adds twenty headers of eight bytes, not
  twenty bytes, so the identifier is read at offset 160 + 6.
\<close>

definition reply :: "rcv \<Rightarrow> (console, unit) io" where
  "reply r =
     (let zero = replicate 4096 (char_of (0::nat));
          (mem, status) = (case r of Rcv_Err \<Rightarrow> (zero, -1 :: u32)
             | Rcv d \<Rightarrow> (poke 0 (take 4096 d) zero, of_nat (length (take 4096 d))));
          icmp = 20 * sizeof_icmp
      in
      bindIO (say (''Se recivieron '' @ (if r = Rcv_Err then ''-1'' else dec (unat status)) @ '' bytes'' @ [LF])) (\<lambda>_.
      bindIO (say (''Respuesta al ID '' @ dec (octet mem (icmp + 6) * 256 + octet mem (icmp + 7)) @
        '' desde '' @ inet_ntop4 (map (octet mem) [12, 13, 14, 15]) @ '' de '' @ dec (unat status) @ '' bytes'' @ [LF])) (\<lambda>_.
      show_dump mem status)))"

text \<open>
  \<open>main\<close>, from line 75 on: \<open>sock\<close>, \<open>opt\<close> and \<open>snd_r\<close> are what \<open>socket\<close>, \<open>setsockopt\<close> and
  \<open>sendto\<close> return, \<open>err\<close> what \<open>strerror\<close> prints.
\<close>

definition main_raw :: "int \<Rightarrow> int \<Rightarrow> int \<Rightarrow> string \<Rightarrow> rcv \<Rightarrow> (console, int) io" where
  "main_raw sock opt snd_r err r =
     bindIO (liftR packet) (\<lambda>buffer.
     bindIO (say (''Paquete a enviar'' @ [LF])) (\<lambda>_.
     bindIO (show_dump buffer (of_nat packet_length)) (\<lambda>_.
     bindIO (say [LF]) (\<lambda>_.
     if sock < 0 then
       bindIO (say (''Can'' @ [CHR 0x27] @ ''t create Socket ('' @ err @ '')'' @ [LF])) (\<lambda>_. retIO (-1))
     else if opt < 0 then
       bindIO (say (''Can'' @ [CHR 0x27] @ ''t set option of set own IP Header'' @ [LF])) (\<lambda>_. retIO (-1))
     else if snd_r < 0 then
       bindIO (say (''Error Sending Msg ('' @ err @ '')'' @ [LF])) (\<lambda>_. retIO (-1))
     else
       bindIO (\<lambda>s. (Ret (), s\<lparr>sent := sent s @ [take packet_length buffer]\<rparr>)) (\<lambda>_.
       bindIO (say (''Se enviaron '' @ dec (nat snd_r) @ '' bytes'' @ [LF])) (\<lambda>_.
       bindIO (reply r) (\<lambda>_. retIO 0)))))))"

section \<open>The bytes of the packet\<close>

definition request_ip :: "nat list" where
  "request_ip = [69, 0, 0, 92, 0, 1, 0, 0, 10, 1, 190, 233, 192, 168, 56, 101, 192, 168, 56, 1]"

definition request_icmp :: "nat list" where
  "request_icmp = [8, 0, 207, 185, 0, 10, 0, 20] @ replicate 64 65"

definition request :: string where
  "request = map char_of (request_ip @ request_icmp)"

section \<open>Lemmas\<close>

lemma words16_append_even: "even (length a) \<Longrightarrow> words16 (a @ b) = words16 a @ words16 b"
  by (induction a rule: words16.induct) simp_all

lemma word16_store16: "store16 c = [x, y] \<Longrightarrow> word16 x y = unat c"
proof -
  assume *: "store16 c = [x, y]"
  have "unat c < 65536" using unsigned_less [of c, where 'a = nat] by simp
  then have "unat c div 256 < 256" by (simp add: less_mult_imp_div_less)
  with * show ?thesis by (auto simp: store16_def word16_def byte_def)
qed

lemma words16_store: "words16 (store16 c @ m) = unat c # words16 m"
  using word16_store16 [of c] by (simp add: store16_def)

lemma csum_run:
  assumes "0 \<le> bytes" and "bytes \<le> int (length m)" and "bytes \<le> 131072"
    and "ws = words16 (take (nat bytes) m)"
  shows "csum m bytes = Ret (of_nat (65535 - oc_sum ws))"
proof -
  let ?s = "sum_list ws"
  have "length (take (nat bytes) m) \<le> 131072" using assms(1,3) by simp
  then have "(length (take (nat bytes) m) + 1) div 2 \<le> 65536" by linarith
  then have "?s \<le> 65535 * 65536"
    unfolding assms(4) using sum_words16 [of "take (nat bytes) m"] by (meson le_trans mult_le_mono2)
  then have lt: "?s < 2 ^ 32" by simp
  have "\<forall>x\<in>set ws. x < 65536" using assms(4) words16_less by blast
  with represents_unique [OF represents_halves [OF lt] represents_oc_sum]
  have "oc_add (?s div 65536) (?s mod 65536) = oc_sum ws" by simp
  with fold16_halves [OF lt] csum_loop_sum [OF assms(1,2), of 0] assms(4) show ?thesis
    by (simp add: csum_def)
qed

lemma csum_value:
  assumes "0 \<le> bytes" and "bytes \<le> int (length m)" and "bytes \<le> 131072"
    and "words16 (take (nat bytes) m) = ws" and "represents r (sum_list ws)"
  shows "csum m bytes = Ret (of_nat (65535 - r))"
proof -
  have "\<forall>x\<in>set ws. x < 65536" using assms(4) words16_less by blast
  then have "oc_sum ws = r" using represents_unique represents_oc_sum assms(5) by blast
  with csum_run [OF assms(1-3)] assms(4) show ?thesis by simp
qed

lemma words16_replicate: "words16 (replicate (2 * n) c) = replicate n (word16 c c)"
  by (induction n) simp_all

lemma zeros: "replicate 20 z @ b = z#z#z#z#z#z#z#z#z#z#z#z#z#z#z#z#z#z#z#z#b"
  by (simp add: numeral_eq_Suc)

lemma set_first:
  "set_version v (c # m) = char_of (byte c mod 16 + 16 * v) # m"
  "set_ihl v (c # m) = char_of (byte c div 16 * 16 + v) # m"
  by (simp_all add: set_version_def set_ihl_def octet_def poke_simps)

lemma ip_header_value:
  "ip_header (replicate 20 (char_of (0::nat)) @ b) =
     map char_of [69, 0, 0, 92, 0, 1, 0, 0, 10, 1, 0, 0, 192, 168, 56, 101, 192, 168, 56, 1 :: nat] @ b"
proof -
  have n: "store16 (htons (of_nat packet_length)) = [char_of (0::nat), char_of (92::nat)]"
    "store16 (htons 1) = [char_of (0::nat), char_of (1::nat)]"
    "store16 0 = [char_of (0::nat), char_of (0::nat)]"
    using store_net [of 92] store_net [of 1]
    by (simp_all add: packet_length_def sizeof_ip_def sizeof_icmp_def store16_def)
  show ?thesis
    unfolding zeros ip_header_def Let_def n set_first byte_def
    by (simp add: poke_simps)
qed

lemma icmp_request_value:
  assumes "length h = 20"
  shows "icmp_request (h @ replicate 4076 (char_of (0::nat))) =
     h @ map char_of [8, 0, 0, 0, 0, 10, 0, 20 :: nat] @ replicate 64 (CHR ''A'') @
     replicate 4004 (char_of (0::nat))"
proof -
  have n: "store16 (htons 10) = [char_of (0::nat), char_of (10::nat)]"
    "store16 (htons 20) = [char_of (0::nat), char_of (20::nat)]"
    "store16 0 = [char_of (0::nat), char_of (0::nat)]"
    using store_net [of 10] store_net [of 20] by (simp_all add: store16_def)
  have z: "replicate 4076 (char_of (0::nat)) = [char_of (0::nat), char_of (0::nat), char_of (0::nat),
      char_of (0::nat), char_of (0::nat), char_of (0::nat), char_of (0::nat), char_of (0::nat)] @
      replicate 64 (char_of (0::nat)) @ replicate 4004 (char_of (0::nat))"
    unfolding replicate_add [symmetric] by (simp add: numeral_eq_Suc)
  have p: "poke (20 + i) bs (h @ m) = h @ poke i bs m" for i bs m
    using assms by (simp add: poke_def)
  have f: "poke 8 bs (a0#a1#a2#a3#a4#a5#a6#a7#old @ q) = a0#a1#a2#a3#a4#a5#a6#a7#bs @ q"
    if "length bs = length old" for bs old q a0 a1 a2 a3 a4 a5 a6 and a7 :: char
    using that by (simp add: poke_def numeral_eq_Suc)
  have f0: "poke 0 bs (old @ q) = bs @ q" if "length bs = length old" for bs old q
    using that by (simp add: poke_def)
  show ?thesis
    unfolding z icmp_request_def Let_def n sizeof_ip_def sizeof_icmp_def
    using p [of 0] by (simp add: p [of 1, simplified] p [of 2, simplified] p [of 4, simplified] p [of 6, simplified]
      p [of 8, simplified] poke_simps f f0)
qed

lemma packet_value: "packet = Ret (request @ replicate 4004 NUL)"
proof -
  let ?h = "map char_of [69, 0, 0, 92, 0, 1, 0, 0, 10, 1, 0, 0, 192, 168, 56, 101, 192, 168, 56, 1 :: nat]"
  let ?i = "map char_of [8, 0, 0, 0, 0, 10, 0, 20 :: nat] @ replicate 64 (CHR ''A'')"
  let ?z = "replicate 4004 (char_of (0::nat))"
  have "replicate 4096 (char_of (0::nat)) = replicate 20 (char_of (0::nat)) @ replicate 4076 (char_of (0::nat))"
    unfolding replicate_add [symmetric] by simp
  then have m: "icmp_request (ip_header (replicate 4096 (char_of (0::nat)))) = ?h @ ?i @ ?z"
    using icmp_request_value [of ?h] by (simp only: ip_header_value append_assoc) simp
  have c1: "csum (?h @ ?i @ ?z) 20 = Ret (of_nat (65535 - 5697))"
    by (rule csum_value [where ws = "words16 ?h"]) (simp_all add: word16_def byte_def represents_def)
  have c2: "csum (?i @ ?z) 72 = Ret (of_nat (65535 - 17968))"
    by (rule csum_value [where ws = "words16 (map char_of [8, 0, 0, 0, 0, 10, 0, 20 :: nat]) @ replicate 32 16705"])
      (simp_all add: word16_def byte_def represents_def words16_append_even words16_replicate [of 32, simplified] sum_list_replicate)
  have s: "store16 (of_nat (65535 - 5697)) = [char_of (190::nat), char_of (233::nat)]"
    "store16 (of_nat (65535 - 17968)) = [char_of (207::nat), char_of (185::nat)]"
    by (simp_all add: store16_def)
  have n: "int (sizeof_icmp + 64) = 72" by (simp add: sizeof_icmp_def)
  have i: "int (ihl (?h @ ?i @ ?z) * 4) = 20" by (simp add: ihl_def octet_def byte_def)
  have p10: "poke 10 (store16 (of_nat (65535 - 5697))) (?h @ ?i @ ?z) = map char_of (take 20 request_ip) @ ?i @ ?z"
    unfolding s by (simp add: poke_simps request_ip_def)
  have d: "drop sizeof_ip (map char_of (take 20 request_ip) @ ?i @ ?z) = ?i @ ?z"
    by (simp add: sizeof_ip_def request_ip_def)
  have p22: "poke (sizeof_ip + 2) (store16 (of_nat (65535 - 17968))) (map char_of (take 20 request_ip) @ ?i @ ?z) =
      request @ ?z"
    unfolding s by (simp add: request_def poke_simps request_ip_def request_icmp_def sizeof_ip_def char_values)
  show ?thesis
    unfolding packet_def Let_def m i c1 bind_res_simps p10 d n c2 p22 by (simp add: char_values)
qed

lemma request_facts:
  shows "length request = 92"
    and "packet_length = 92"
    and "dump (request @ m) 92 = Ret (concat (map dump_row (rows request)))"
proof -
  show l: "length request = 92" by (simp add: request_def request_ip_def request_icmp_def)
  then show "packet_length = 92"
    and "dump (request @ m) 92 = Ret (concat (map dump_row (rows request)))"
    by (simp_all add: dump_run packet_length_def sizeof_ip_def sizeof_icmp_def)
qed

lemma show_dump_sent: "show_dump mem n s = (x, t) \<Longrightarrow> sent t = sent s"
  by (auto simp: show_dump_def dump_run say_def split: if_splits)

lemma reply_sent: "reply r s = (x, t) \<Longrightarrow> sent t = sent s"
  by (auto simp: reply_def Let_def say_def bindIO_def split: prod.splits dest!: show_dump_sent)

text \<open>Once the packet is handed to the kernel it is the only one, however the program ends.\<close>

lemma main_raw_sent:
  assumes "0 \<le> sock" and "0 \<le> opt" and "0 \<le> snd_r" and "main_raw sock opt snd_r err r s = (x, t)"
  shows "sent t = sent s @ [request]"
proof -
  have "sent u = sent v" if "bindIO (reply r) (\<lambda>_. retIO (0::int)) v = (y, u)" for v y u
    using that by (auto simp: bindIO_def split: prod.splits res.splits dest!: reply_sent)
  with assms show ?thesis
    by (auto simp: main_raw_def packet_value say_def show_dump_def request_facts bindIO_def [of "liftR _"]
        bindIO_def [of "say _"])
qed

lemma main_raw_reply:
  assumes "0 \<le> sock" and "0 \<le> opt" and "0 \<le> snd_r"
    and "16 \<le> length d" and "length d \<le> 166"
  shows "main_raw sock opt snd_r err (Rcv d) s =
     (Ret 0, s\<lparr>sent := sent s @ [request],
        text_out := text_out s @ ''Paquete a enviar'' @ [LF] @ concat (map dump_row (rows request)) @ [LF] @
          ''Se enviaron '' @ dec (nat snd_r) @ '' bytes'' @ [LF] @
          ''Se recivieron '' @ dec (length d) @ '' bytes'' @ [LF] @
          ''Respuesta al ID 0 desde '' @ inet_ntop4 (map (\<lambda>i. byte (d ! i)) [12, 13, 14, 15]) @
          '' de '' @ dec (length d) @ '' bytes'' @ [LF] @ concat (map dump_row (rows d))\<rparr>)"
proof -
  let ?z = "replicate 4096 NUL" and ?mem = "d @ replicate (4096 - length d) NUL"
  have mem: "poke 0 d ?z = ?mem" using assms(5) by (simp add: poke_def)
  have u: "unat (of_nat (length d) :: u32) = length d" using assms(5) by (intro unat_of_nat32) simp
  have far: "octet ?mem 166 = 0" "octet ?mem 167 = 0"
    using assms(5) by (simp_all add: octet_def nth_append byte_def)
  have near: "octet ?mem i = byte (d ! i)" if "i < 16" for i
    using that assms(4) by (simp add: octet_def nth_append)
  have d1: "dump ?mem (of_nat (length d)) = Ret (concat (map dump_row (rows d)))"
    using assms(5) by (simp add: dump_run u)
  have rp: "reply (Rcv d) t = (Ret (), t\<lparr>text_out := text_out t @
      ''Se recivieron '' @ dec (length d) @ '' bytes'' @ [LF] @
      ''Respuesta al ID 0 desde '' @ inet_ntop4 (map (\<lambda>i. byte (d ! i)) [12, 13, 14, 15]) @
      '' de '' @ dec (length d) @ '' bytes'' @ [LF] @ concat (map dump_row (rows d))\<rparr>)" for t
    using assms(5) by (simp add: reply_def Let_def char_values mem u far near d1 dec_0 show_dump_def
        take_all sizeof_icmp_def say_def bindIO_def)
  show ?thesis
    using assms(1-3) by (simp add: main_raw_def packet_value say_def show_dump_def request_facts bindIO_def rp)
qed

section \<open>Properties\<close>

text \<open>C16: The checksum of a block of at most 131072 bytes is the ones' complement of the ones'
  complement sum of its sixteen-bit words, an odd last byte counting as a word padded with
  zero: the folds of the code lose no carry.\<close>

theorem csum_reference:
  assumes "0 \<le> bytes" and "bytes \<le> int (length mem)" and "bytes \<le> 131072"
  shows "csum mem bytes = Ret (of_nat (65535 - oc_sum (words16 (take (nat bytes) mem))))"
  using assms by (simp add: csum_run)

theorem csum_reference_witness:
  "csum [CHR ''A'', CHR ''B'', CHR ''C''] 3 =
     Ret (of_nat (65535 - oc_sum (words16 (take (nat 3) [CHR ''A'', CHR ''B'', CHR ''C'']))))"
  by (rule csum_reference) simp_all

text \<open>C17: A block whose checksum was computed over a zeroed field at an even offset and then
  stored in that field checks to zero, which is the test that the receiver makes.\<close>

theorem csum_verifies:
  assumes "even (length pre)" and "n = int (length pre + 2 + length post)" and "n \<le> 131072"
  shows "\<exists>c. csum (pre @ store16 0 @ post) n = Ret c \<and> csum (pre @ store16 c @ post) n = Ret 0"
proof -
  define r where "r = oc_sum (words16 pre @ 0 # words16 post)"
  define c :: u16 where "c = of_nat (65535 - r)"
  let ?S = "sum_list (words16 pre) + sum_list (words16 post)"
  have b: "\<forall>x\<in>set (words16 pre @ z # words16 post). x < 65536" if "z < 65536" for z
    using that words16_less by auto
  have r: "represents r ?S" using represents_oc_sum [OF b [of 0]] by (simp add: r_def)
  then have "r \<le> 65535" by (simp add: represents_def)
  then have c: "unat c = 65535 - r"
    unfolding c_def by (subst unat_of_nat) (simp add: take_bit_nat_eq_self del: of_nat_diff)
  have "represents (oc_sum (words16 pre @ unat c # words16 post)) (?S + (65535 - r))"
    using represents_oc_sum [OF b [of "unat c"]] c by (simp add: ac_simps)
  moreover have "represents 65535 (?S + (65535 - r))" using r by (rule represents_completed)
  ultimately have one: "oc_sum (words16 pre @ unat c # words16 post) = 65535" by (rule represents_unique)
  have "csum (pre @ store16 0 @ post) n = Ret c"
    using csum_run [of n "pre @ store16 0 @ post" "words16 pre @ 0 # words16 post"] assms
    by (simp add: words16_append_even words16_store c_def r_def)
  moreover have "csum (pre @ store16 c @ post) n = Ret 0"
    using csum_run [of n "pre @ store16 c @ post" "words16 pre @ unat c # words16 post"] assms one
    by (simp add: words16_append_even words16_store)
  ultimately show ?thesis by blast
qed

theorem csum_verifies_witness:
  "\<exists>c. csum (''ab'' @ store16 0 @ ''cde'') 7 = Ret c \<and> csum (''ab'' @ store16 c @ ''cde'') 7 = Ret 0"
  by (rule csum_verifies) simp_all


text \<open>The packet that the program builds is a well-formed echo request: an IPv4 header of
  twenty bytes that announces 92, and an ICMP message of 72 bytes, both with a checksum under
  which they check to zero.\<close>

theorem packet_valid:
  "packet = Ret (request @ replicate 4004 NUL) \<and>
   request = map char_of request_ip @ map char_of request_icmp \<and>
   csum (map char_of request_ip) 20 = Ret 0 \<and> csum (map char_of request_icmp) 72 = Ret 0"
proof (intro conjI)
  show "packet = Ret (request @ replicate 4004 NUL)" by (rule packet_value)
  show "request = map char_of request_ip @ map char_of request_icmp" by (simp add: request_def)
  show "csum (map char_of request_ip) 20 = Ret 0"
    using csum_value [of 20 "map char_of request_ip" "words16 (map char_of request_ip)" 65535]
    by (simp add: request_ip_def word16_def byte_def represents_def)
  show "csum (map char_of request_icmp) 72 = Ret 0"
    using csum_value [of 72 "map char_of request_icmp" "words16 (map char_of request_icmp)" 65535]
    by (simp add: request_icmp_def word16_def byte_def represents_def words16_append_even
      words16_replicate [of 32, simplified] sum_list_replicate)
qed

text \<open>C31: When no call fails, the program sends exactly the 92 bytes of the request once and
  prints its dump and the dump of the reply; but for any reply of at most 166 bytes the
  identifier it reports is 0, whatever the reply holds, as it is read 140 bytes too far.\<close>

theorem raw_run:
  assumes "0 \<le> sock" and "0 \<le> opt" and "0 \<le> snd_r"
    and "16 \<le> length d" and "length d \<le> 166"
  shows "main_raw sock opt snd_r err (Rcv d) s =
     (Ret 0, s\<lparr>sent := sent s @ [request],
        text_out := text_out s @ ''Paquete a enviar'' @ [LF] @ concat (map dump_row (rows request)) @ [LF] @
          ''Se enviaron '' @ dec (nat snd_r) @ '' bytes'' @ [LF] @
          ''Se recivieron '' @ dec (length d) @ '' bytes'' @ [LF] @
          ''Respuesta al ID 0 desde '' @ inet_ntop4 (map (\<lambda>i. byte (d ! i)) [12, 13, 14, 15]) @
          '' de '' @ dec (length d) @ '' bytes'' @ [LF] @ concat (map dump_row (rows d))\<rparr>)"
  using assms by (rule main_raw_reply)

theorem raw_run_witness:
  "main_raw 3 0 92 [] (Rcv (replicate 92 (CHR ''x''))) \<lparr>text_out = [], sent = []\<rparr> =
     (Ret 0, \<lparr>text_out = [], sent = []\<rparr>\<lparr>sent := [] @ [request],
        text_out := [] @ ''Paquete a enviar'' @ [LF] @ concat (map dump_row (rows request)) @ [LF] @
          ''Se enviaron '' @ dec (nat 92) @ '' bytes'' @ [LF] @
          ''Se recivieron '' @ dec (length (replicate 92 (CHR ''x''))) @ '' bytes'' @ [LF] @
          ''Respuesta al ID 0 desde '' @
          inet_ntop4 (map (\<lambda>i. byte (replicate 92 (CHR ''x'') ! i)) [12, 13, 14, 15]) @
          '' de '' @ dec (length (replicate 92 (CHR ''x''))) @ '' bytes'' @ [LF] @
          concat (map dump_row (rows (replicate 92 (CHR ''x''))))\<rparr>)"
  using raw_run [of 3 0 92 "replicate 92 (CHR ''x'')" "[]" "\<lparr>text_out = [], sent = []\<rparr>"] by simp

text \<open>A failed receive crashes the program: its result -1 becomes the length 2^32 - 1 of the
  dump of a buffer of 4096 bytes.\<close>

theorem raw_receive_error:
  assumes "0 \<le> sock" and "0 \<le> opt" and "0 \<le> snd_r"
  shows "fst (main_raw sock opt snd_r err Rcv_Err s) = Crash Out_Of_Bounds"
proof -
  have "dump (replicate 4096 NUL) (-1) = Crash Out_Of_Bounds"
    by (simp add: dump_run unat_minus1_32)
  then show ?thesis
    using assms by (simp add: main_raw_def packet_value request_facts reply_def say_def show_dump_def
        Let_def char_values bindIO_def)
qed

theorem raw_receive_error_witness:
  "fst (main_raw 3 0 92 [] Rcv_Err \<lparr>text_out = [], sent = []\<rparr>) = Crash Out_Of_Bounds"
  by (rule raw_receive_error) simp_all

end
