(* ===== verification/Packet.thy ===== *)
theory Packet
  imports Console
begin

text \<open>
  What the two sniffers share below their printing: reads of a captured packet, the headers
  as records with their bytes on the wire, and the contract of a header decoder.
\<close>

section \<open>Reads of a packet\<close>

definition peek :: "string \<Rightarrow> nat \<Rightarrow> (console, nat) io" where
  "peek mem i s = (if i < length mem then (Ret (byte (mem ! i)), s) else (Crash Out_Of_Bounds, s))"

text \<open>A 16-bit and a 32-bit field, loaded in the byte order of the machine.\<close>

definition load16 :: "string \<Rightarrow> nat \<Rightarrow> (console, u16) io" where
  "load16 mem i = bindIO (peek mem i) (\<lambda>a. bindIO (peek mem (i + 1)) (\<lambda>b. retIO (of_nat (a + 256 * b))))"

definition load32 :: "string \<Rightarrow> nat \<Rightarrow> (console, u32) io" where
  "load32 mem i =
     bindIO (peek mem i) (\<lambda>a. bindIO (peek mem (i + 1)) (\<lambda>b.
     bindIO (peek mem (i + 2)) (\<lambda>c. bindIO (peek mem (i + 3)) (\<lambda>d.
     retIO (of_nat (a + 256 * b + 65536 * c + 16777216 * d))))))"

text \<open>The four bytes that \<open>inet_ntoa\<close> prints.\<close>

definition load_addr :: "string \<Rightarrow> nat \<Rightarrow> (console, string) io" where
  "load_addr mem i =
     bindIO (peek mem i) (\<lambda>a. bindIO (peek mem (i + 1)) (\<lambda>b.
     bindIO (peek mem (i + 2)) (\<lambda>c. bindIO (peek mem (i + 3)) (\<lambda>d.
     retIO (inet_ntop4 [a, b, c, d])))))"

definition hex_upper :: "nat \<Rightarrow> char" where
  "hex_upper d = char_of (if d < 10 then 48 + d else 55 + d)"

text \<open>\<open>%02X\<close>.\<close>

definition hex2_upper :: "nat \<Rightarrow> string" where
  "hex2_upper n = [hex_upper (n div 16), hex_upper (n mod 16)]"

text \<open>The loop that prints the last five bytes of a hardware address.\<close>

fun mac_loop :: "string \<Rightarrow> nat \<Rightarrow> nat list \<Rightarrow> (console, unit) io" where
  "mac_loop mem i [] = retIO ()"
| "mac_loop mem i (k # ks) =
     bindIO (peek mem (i + k)) (\<lambda>b. bindIO (say (CHR '':'' # hex2_upper b)) (\<lambda>_. mac_loop mem i ks))"

definition print_mac :: "string \<Rightarrow> string \<Rightarrow> nat \<Rightarrow> (console, unit) io" where
  "print_mac label mem i =
     bindIO (peek mem i) (\<lambda>b. bindIO (say (label @ hex2_upper b)) (\<lambda>_. mac_loop mem i [1, 2, 3, 4, 5]))"

section \<open>Headers\<close>

definition be16 :: "nat \<Rightarrow> nat list" where
  "be16 n = [n div 256, n mod 256]"

definition be32 :: "nat \<Rightarrow> nat list" where
  "be32 n = be16 (n div 65536) @ be16 (n mod 65536)"

record eth_hd =
  eth_dst :: "nat list"
  eth_src :: "nat list"
  eth_type :: nat

record ip_hd =
  ip_version :: nat
  ip_tos :: nat
  ip_length :: nat
  ip_id :: nat
  ip_frag :: nat
  ip_ttl :: nat
  ip_protocol :: nat
  ip_check :: nat
  ip_saddr :: "nat list"
  ip_daddr :: "nat list"
  ip_options :: "nat list"

record icmp_hd =
  icmp_type :: nat
  icmp_code :: nat
  icmp_checksum :: nat
  icmp_rest :: nat

record tcp_hd =
  tcp_sport :: nat
  tcp_dport :: nat
  tcp_seqn :: nat
  tcp_ack :: nat
  tcp_ns :: nat
  tcp_flags :: nat
  tcp_windows :: nat
  tcp_checksum :: nat
  tcp_urgent :: nat
  tcp_options :: "nat list"

definition ip_ihl :: "ip_hd \<Rightarrow> nat" where
  "ip_ihl h = 5 + length (ip_options h) div 4"

definition tcp_offset :: "tcp_hd \<Rightarrow> nat" where
  "tcp_offset h = 5 + length (tcp_options h) div 4"

definition eth_bytes :: "eth_hd \<Rightarrow> nat list" where
  "eth_bytes h = eth_dst h @ eth_src h @ be16 (eth_type h)"

definition ip_fixed :: "ip_hd \<Rightarrow> nat list" where
  "ip_fixed h = [16 * ip_version h + ip_ihl h, ip_tos h] @ be16 (ip_length h) @ be16 (ip_id h) @
     be16 (ip_frag h) @ [ip_ttl h, ip_protocol h] @ be16 (ip_check h) @ ip_saddr h @ ip_daddr h"

definition icmp_bytes :: "icmp_hd \<Rightarrow> nat list" where
  "icmp_bytes h = [icmp_type h, icmp_code h] @ be16 (icmp_checksum h) @ be32 (icmp_rest h)"

definition tcp_fixed :: "tcp_hd \<Rightarrow> nat list" where
  "tcp_fixed h = be16 (tcp_sport h) @ be16 (tcp_dport h) @ be32 (tcp_seqn h) @ be32 (tcp_ack h) @
     [16 * tcp_offset h + tcp_ns h, tcp_flags h] @ be16 (tcp_windows h) @ be16 (tcp_checksum h) @
     be16 (tcp_urgent h)"

definition bytes_ok :: "nat list \<Rightarrow> bool" where
  "bytes_ok bs \<longleftrightarrow> (\<forall>b\<in>set bs. b < 256)"

definition options_ok :: "nat list \<Rightarrow> bool" where
  "options_ok bs \<longleftrightarrow> length bs mod 4 = 0 \<and> length bs \<le> 40 \<and> bytes_ok bs"

definition eth_ok :: "eth_hd \<Rightarrow> bool" where
  "eth_ok h \<longleftrightarrow> length (eth_dst h) = 6 \<and> length (eth_src h) = 6 \<and> bytes_ok (eth_bytes h)"

definition ip_ok :: "ip_hd \<Rightarrow> bool" where
  "ip_ok h \<longleftrightarrow> ip_version h < 16 \<and> length (ip_saddr h) = 4 \<and> length (ip_daddr h) = 4 \<and>
     options_ok (ip_options h) \<and> bytes_ok (ip_fixed h)"

definition icmp_ok :: "icmp_hd \<Rightarrow> bool" where
  "icmp_ok h \<longleftrightarrow> bytes_ok (icmp_bytes h)"

definition tcp_ok :: "tcp_hd \<Rightarrow> bool" where
  "tcp_ok h \<longleftrightarrow> tcp_ns h < 16 \<and> options_ok (tcp_options h) \<and> bytes_ok (tcp_fixed h)"

definition wire :: "nat list \<Rightarrow> string" where
  "wire bs = map char_of bs"

lemma length_wire [simp]: "length (wire bs) = length bs"
  by (simp add: wire_def)

lemma wire_append: "wire (a @ b) = wire a @ wire b"
  by (simp add: wire_def)

lemma byte_wire: "bytes_ok bs \<Longrightarrow> i < length bs \<Longrightarrow> byte (wire bs ! i) = bs ! i"
  by (simp add: wire_def byte_def bytes_ok_def of_char_of)

section \<open>Lemmas on the reads\<close>

abbreviation printed :: "string \<Rightarrow> console \<Rightarrow> console" where
  "printed t s \<equiv> s\<lparr>text_out := text_out s @ t\<rparr>"

lemma say_app [simp]: "say t s = (Ret (), printed t s)"
  by (simp add: say_def)

definition b_at :: "string \<Rightarrow> nat \<Rightarrow> nat" where
  "b_at h i = byte (h ! i)"

text \<open>A field in network order.\<close>

definition n_at :: "string \<Rightarrow> nat \<Rightarrow> nat" where
  "n_at h i = b_at h i * 256 + b_at h (i + 1)"

lemma b_at_less: "b_at h i < 256"
  by (simp add: b_at_def byte_less)

lemma peek_in:
  "k < length h \<Longrightarrow> peek (p @ h @ q) (length p + k) s = (Ret (b_at h k), s)"
  by (simp add: peek_def b_at_def nth_append)

lemma peek_out: "length mem \<le> i \<Longrightarrow> peek mem i s = (Crash Out_Of_Bounds, s)"
  by (simp add: peek_def)

lemma peek_ok: "i < length mem \<Longrightarrow> peek mem i s = (Ret (b_at mem i), s)"
  by (simp add: peek_def b_at_def)

lemma unat_ntohs_le: "a < 256 \<Longrightarrow> b < 256 \<Longrightarrow> unat (ntohs (of_nat (a + 256 * b))) = a * 256 + b"
  by (simp add: unat_htons unat_of_nat take_bit_nat_eq_self del: of_nat_add of_nat_mult)

definition le16 :: "string \<Rightarrow> nat \<Rightarrow> u16" where
  "le16 h k = of_nat (b_at h k + 256 * b_at h (k + 1))"

definition le32 :: "string \<Rightarrow> nat \<Rightarrow> u32" where
  "le32 h k = of_nat (b_at h k + 256 * b_at h (k + 1) + 65536 * b_at h (k + 2) + 16777216 * b_at h (k + 3))"

lemma unat_le16: "unat (le16 h k) = b_at h k + 256 * b_at h (k + 1)"
proof -
  have "b_at h k + 256 * b_at h (k + 1) < 65536" using b_at_less [of h k] b_at_less [of h "k + 1"] by simp
  then show ?thesis unfolding le16_def by (subst unat_of_nat) (simp add: take_bit_nat_eq_self)
qed

lemma ntohs_le16 [simp]: "unat (ntohs (le16 h k)) = n_at h k"
  unfolding le16_def n_at_def by (rule unat_ntohs_le) (simp_all add: b_at_less)

text \<open>\<open>ntohs\<close> of a 32-bit field takes the low half of the loaded word.\<close>

lemma low_half:
  "(ucast (of_nat (a + 256 * b + 65536 * c + 16777216 * d) :: u32) :: u16) = of_nat (a + 256 * b)"
proof -
  have m: "a + 256 * b + 65536 * c + 16777216 * d = (a + 256 * b) + 65536 * (c + 256 * d)" by simp
  have "(ucast (of_nat n :: u32) :: u16) = of_nat n" for n
    by (rule bit_word_eqI) (simp add: bit_simps)
  moreover have "(of_nat (k + 65536 * j) :: u16) = of_nat k" for k j
    by (subst (1 2) of_nat_mod_65536 [symmetric]) simp
  ultimately show ?thesis unfolding m by (simp only:)
qed

lemma ntohs_le32 [simp]: "unat (ntohs (ucast (le32 h k))) = n_at h k"
  unfolding le32_def low_half using ntohs_le16 [of h k] by (simp only: le16_def)

lemma peek_slice:
  assumes "i + n \<le> length mem" and "h = take n (drop i mem)" and "k < n"
  shows "peek mem (i + k) s = (Ret (b_at h k), s)"
  using assms by (simp add: peek_def b_at_def)

definition mac_text :: "string \<Rightarrow> nat \<Rightarrow> string" where
  "mac_text h k = hex2_upper (b_at h k) @ concat (map (\<lambda>j. CHR '':'' # hex2_upper (b_at h (k + j))) [1, 2, 3, 4, 5])"

definition addr_text :: "string \<Rightarrow> nat \<Rightarrow> string" where
  "addr_text h k = inet_ntop4 [b_at h k, b_at h (k + 1), b_at h (k + 2), b_at h (k + 3)]"

lemma peek_slice0:
  assumes "i + n \<le> length mem" and "h = take n (drop i mem)" and "0 < n"
  shows "peek mem i s = (Ret (b_at h 0), s)"
  using peek_slice [OF assms(1,2), of 0 s] assms(3) by simp

lemma load16_slice:
  assumes "i + n \<le> length mem" and "h = take n (drop i mem)" and "k + 1 < n"
  shows "load16 mem (i + k) s = (Ret (le16 h k), s)"
  using peek_slice [OF assms(1,2), of k s] peek_slice [OF assms(1,2), of "k + 1" s] assms(3)
  by (simp add: load16_def le16_def add.assoc)

lemma load32_slice:
  assumes "i + n \<le> length mem" and "h = take n (drop i mem)" and "k + 3 < n"
  shows "load32 mem (i + k) s = (Ret (le32 h k), s)"
  using peek_slice [OF assms(1,2), of k s] peek_slice [OF assms(1,2), of "k + 1" s]
    peek_slice [OF assms(1,2), of "k + 2" s] peek_slice [OF assms(1,2), of "k + 3" s] assms(3)
  by (simp add: load32_def le32_def add.assoc)

lemma load_addr_slice:
  assumes "i + n \<le> length mem" and "h = take n (drop i mem)" and "k + 3 < n"
  shows "load_addr mem (i + k) s = (Ret (addr_text h k), s)"
  using peek_slice [OF assms(1,2), of k s] peek_slice [OF assms(1,2), of "k + 1" s]
    peek_slice [OF assms(1,2), of "k + 2" s] peek_slice [OF assms(1,2), of "k + 3" s] assms(3)
  by (simp add: load_addr_def addr_text_def add.assoc)

lemma print_mac_slice:
  assumes "i + n \<le> length mem" and "h = take n (drop i mem)" and "k + 5 < n"
  shows "print_mac label mem (i + k) s = (Ret (), printed (label @ mac_text h k) s)"
proof -
  have "peek mem (i + (k + j)) t = (Ret (b_at h (k + j)), t)" if "j \<le> 5" for j t
    using that assms(3) by (intro peek_slice [OF assms(1,2)]) simp
  from this [of 0] this [of 1] this [of 2] this [of 3] this [of 4] this [of 5] show ?thesis
    by (simp add: print_mac_def mac_text_def add.assoc)
qed

lemmas slice_rules = peek_slice peek_slice0 load16_slice load32_slice load_addr_slice print_mac_slice

section \<open>The fields of a header on the wire\<close>

definition mac_of :: "nat list \<Rightarrow> string" where
  "mac_of bs = hex2_upper (hd bs) @ concat (map (\<lambda>b. CHR '':'' # hex2_upper b) (tl bs))"

lemma b_at_wire: "bytes_ok bs \<Longrightarrow> k < length bs \<Longrightarrow> b_at (wire bs) k = bs ! k"
  by (simp add: b_at_def byte_wire)

lemma length_4E:
  assumes "length xs = 4"
  obtains a b c d where "xs = [a, b, c, d]"
  using assms by (auto simp: numeral_eq_Suc length_Suc_conv)

lemma length_6E:
  assumes "length xs = 6"
  obtains a b c d e f where "xs = [a, b, c, d, e, f]"
  using assms by (auto simp: numeral_eq_Suc length_Suc_conv)

lemma eth_fields:
  assumes "eth_ok e" and "h = wire (eth_bytes e)"
  shows "length h = 14" and "mac_text h 6 = mac_of (eth_src e)" and "mac_text h 0 = mac_of (eth_dst e)"
    and "b_at h 12 = eth_type e div 256" and "b_at h 13 = eth_type e mod 256"
proof -
  obtain a b c d x y where dst: "eth_dst e = [a, b, c, d, x, y]"
    using assms(1) by (auto simp: eth_ok_def elim: length_6E)
  obtain a' b' c' d' x' y' where src: "eth_src e = [a', b', c', d', x', y']"
    using assms(1) by (auto simp: eth_ok_def elim: length_6E)
  have l: "length (eth_bytes e) = 14" by (simp add: eth_bytes_def dst src be16_def)
  then show "length h = 14" by (simp add: assms(2))
  have "b_at h k = eth_bytes e ! k" if "k < 14" for k
    using that assms l by (simp add: b_at_wire eth_ok_def)
  then show "mac_text h 6 = mac_of (eth_src e)" and "mac_text h 0 = mac_of (eth_dst e)"
    and "b_at h 12 = eth_type e div 256" and "b_at h 13 = eth_type e mod 256"
    by (simp_all add: mac_text_def mac_of_def eth_bytes_def dst src be16_def)
qed

lemma ip_fields:
  assumes "ip_ok p" and "h = wire (ip_fixed p)"
  shows "length h = 20" and "b_at h 0 div 16 = ip_version p" and "b_at h 0 mod 16 = ip_ihl p"
    and "n_at h 4 = ip_id p" and "b_at h 8 = ip_ttl p" and "b_at h 9 = ip_protocol p"
    and "addr_text h 12 = inet_ntop4 (ip_saddr p)" and "addr_text h 16 = inet_ntop4 (ip_daddr p)"
proof -
  obtain a b c d where sa: "ip_saddr p = [a, b, c, d]" using assms(1) by (auto simp: ip_ok_def elim: length_4E)
  obtain a' b' c' d' where da: "ip_daddr p = [a', b', c', d']" using assms(1) by (auto simp: ip_ok_def elim: length_4E)
  have l: "length (ip_fixed p) = 20" by (simp add: ip_fixed_def sa da be16_def)
  then show "length h = 20" by (simp add: assms(2))
  have "length (ip_options p) \<le> 40" using assms(1) by (simp add: ip_ok_def options_ok_def)
  then have "ip_ihl p < 16" by (simp add: ip_ihl_def)
  moreover have b: "b_at h k = ip_fixed p ! k" if "k < 20" for k
    using that assms l by (simp add: b_at_wire ip_ok_def)
  ultimately show "b_at h 0 div 16 = ip_version p" and "b_at h 0 mod 16 = ip_ihl p"
    by (simp_all add: ip_fixed_def)
  show "n_at h 4 = ip_id p" and "b_at h 8 = ip_ttl p" and "b_at h 9 = ip_protocol p"
    and "addr_text h 12 = inet_ntop4 (ip_saddr p)" and "addr_text h 16 = inet_ntop4 (ip_daddr p)"
    by (simp_all add: b n_at_def addr_text_def ip_fixed_def be16_def sa da)
qed

lemma icmp_fields:
  assumes "icmp_ok c" and "h = wire (icmp_bytes c)"
  shows "length h = 8" and "b_at h 0 = icmp_type c" and "b_at h 1 = icmp_code c"
proof -
  have l: "length (icmp_bytes c) = 8" by (simp add: icmp_bytes_def be16_def be32_def)
  then show "length h = 8" by (simp add: assms(2))
  show "b_at h 0 = icmp_type c" and "b_at h 1 = icmp_code c"
    using assms l by (simp_all add: b_at_wire icmp_ok_def) (simp_all add: icmp_bytes_def)
qed

lemma tcp_fields:
  assumes "tcp_ok t" and "h = wire (tcp_fixed t)"
  shows "length h = 20" and "n_at h 0 = tcp_sport t" and "n_at h 2 = tcp_dport t"
    and "n_at h 4 = tcp_seqn t div 65536" and "n_at h 8 = tcp_ack t div 65536"
    and "b_at h 12 div 16 = tcp_offset t"
proof -
  have l: "length (tcp_fixed t) = 20" by (simp add: tcp_fixed_def be16_def be32_def)
  then show "length h = 20" by (simp add: assms(2))
  have b: "b_at h k = tcp_fixed t ! k" if "k < 20" for k
    using that assms l by (simp add: b_at_wire tcp_ok_def)
  show "n_at h 0 = tcp_sport t" and "n_at h 2 = tcp_dport t"
    and "n_at h 4 = tcp_seqn t div 65536" and "n_at h 8 = tcp_ack t div 65536"
    by (simp_all add: b n_at_def tcp_fixed_def be16_def be32_def)
  have "tcp_ns t < 16" using assms(1) by (simp add: tcp_ok_def)
  then show "b_at h 12 div 16 = tcp_offset t"
    by (simp add: b tcp_fixed_def be16_def be32_def)
qed

text \<open>Whole frames, and what follows the Ethernet header.\<close>

definition ip_wire :: "ip_hd \<Rightarrow> string" where
  "ip_wire p = wire (ip_fixed p) @ wire (ip_options p)"

definition tcp_wire :: "tcp_hd \<Rightarrow> string" where
  "tcp_wire t = wire (tcp_fixed t) @ wire (tcp_options t)"

lemma length_ip_wire: "ip_ok p \<Longrightarrow> length (ip_wire p) = ip_ihl p * 4"
  using ip_fields(1) [of p] by (auto simp: ip_wire_def ip_ok_def options_ok_def ip_ihl_def)

lemma length_tcp_wire: "tcp_ok t \<Longrightarrow> length (tcp_wire t) = tcp_offset t * 4"
  using tcp_fields(1) [of t] by (auto simp: tcp_wire_def tcp_ok_def options_ok_def tcp_offset_def)

lemma ihl_bounds: "ip_ok p \<Longrightarrow> 20 \<le> ip_ihl p * 4 \<and> ip_ihl p * 4 \<le> 60"
  by (auto simp: ip_ok_def options_ok_def ip_ihl_def)

lemma offset_bounds: "tcp_ok t \<Longrightarrow> 20 \<le> tcp_offset t * 4 \<and> tcp_offset t * 4 \<le> 60"
  by (auto simp: tcp_ok_def options_ok_def tcp_offset_def)

lemma b_at_take: "k < n \<Longrightarrow> b_at (take n h) k = b_at h k"
  by (simp add: b_at_def)

lemma n_at_take: "k + 1 < n \<Longrightarrow> n_at (take n h) k = n_at h k"
  by (simp add: n_at_def b_at_take)

lemma slice_byte: "k < n \<Longrightarrow> i + n \<le> length mem \<Longrightarrow> b_at (take n (drop i mem)) k = b_at mem (i + k)"
  by (simp add: b_at_def)

text \<open>The dump after the decoders.\<close>

lemma show_dump_in: "unat n = k \<Longrightarrow> k \<le> length mem \<Longrightarrow>
    show_dump mem n s = (Ret (), printed (concat (map dump_row (rows (take k mem)))) s)"
  by (simp add: show_dump_def dump_run)

lemma unat_minus_pos:
  assumes "k \<le> 134"
  shows "unat (len - of_nat k :: u32) = (if k \<le> unat len then unat len - k else unat len + 2 ^ 32 - k)"
proof -
  have "unat (of_nat k :: u32) = k" using assms by (intro unat_of_nat32) simp
  then show ?thesis by (simp add: unat_sub_if')
qed

section \<open>Faulting reads\<close>

text \<open>A step that returns or reads out of bounds, and a sequence with a read that does.\<close>

definition reads :: "(console, 'a) io \<Rightarrow> bool" where
  "reads m \<longleftrightarrow> (\<forall>s. (\<exists>x s'. m s = (Ret x, s')) \<or> fst (m s) = Crash Out_Of_Bounds)"

definition faults :: "(console, 'a) io \<Rightarrow> bool" where
  "faults m \<longleftrightarrow> (\<forall>s. fst (m s) = Crash Out_Of_Bounds)"

lemma faultsD: "faults m \<Longrightarrow> fst (m s) = Crash Out_Of_Bounds"
  by (simp add: faults_def)

lemma reads_ret: "reads (retIO x)"
  by (simp add: reads_def)

lemma reads_say: "reads (say t)"
  by (simp add: reads_def)

lemma reads_peek: "reads (peek mem i)"
  by (simp add: reads_def peek_def)

lemma io_resE:
  obtains x s' where "m s = (Ret x, s')" | f s' where "m s = (Crash f, s')"
    | s' where "m s = (Blocked, s')" | n s' where "m s = (Exit n, s')" | s' where "m s = (No_Fuel, s')"
  by (metis old.prod.exhaust res.exhaust)

lemma reads_bind:
  assumes "reads m" and "\<And>x. reads (k x)"
  shows "reads (bindIO m k)"
  unfolding reads_def
proof
  fix s
  have "(\<exists>x s'. m s = (Ret x, s')) \<or> fst (m s) = Crash Out_Of_Bounds"
    using assms(1) by (simp add: reads_def)
  then show "(\<exists>x s'. bindIO m k s = (Ret x, s')) \<or> fst (bindIO m k s) = Crash Out_Of_Bounds"
    using assms(2) by (cases rule: io_resE [of m s]) (auto simp: reads_def)
qed

lemma reads_load16: "reads (load16 mem i)"
  unfolding load16_def by (intro reads_bind reads_peek reads_ret)

lemma reads_load32: "reads (load32 mem i)"
  unfolding load32_def by (intro reads_bind reads_peek reads_ret)

lemma reads_load_addr: "reads (load_addr mem i)"
  unfolding load_addr_def by (intro reads_bind reads_peek reads_ret)

lemma reads_mac_loop: "reads (mac_loop mem i ks)"
  by (induction ks) (simp_all only: mac_loop.simps, intro reads_ret, intro reads_bind reads_peek reads_say)

lemma reads_print_mac: "reads (print_mac label mem i)"
  unfolding print_mac_def by (intro reads_bind reads_peek reads_say reads_mac_loop)

lemma faults_first:
  assumes "faults m"
  shows "faults (bindIO m k)"
  unfolding faults_def
proof
  fix s
  have "fst (m s) = Crash Out_Of_Bounds" using assms by (rule faultsD)
  then show "fst (bindIO m k s) = Crash Out_Of_Bounds" by (cases rule: io_resE [of m s]) auto
qed

lemma faults_later:
  assumes "reads m" and "\<And>x. faults (k x)"
  shows "faults (bindIO m k)"
  unfolding faults_def
proof
  fix s
  have "(\<exists>x s'. m s = (Ret x, s')) \<or> fst (m s) = Crash Out_Of_Bounds"
    using assms(1) by (simp add: reads_def)
  then show "fst (bindIO m k s) = Crash Out_Of_Bounds"
    using assms(2) by (cases rule: io_resE [of m s]) (auto simp: faults_def)
qed

lemma faults_peek: "length mem \<le> i \<Longrightarrow> faults (peek mem i)"
  by (simp add: faults_def peek_out)

lemma faults_load16: "length mem < i + 2 \<Longrightarrow> faults (load16 mem i)"
  unfolding load16_def
  by (rule faults_later [OF reads_peek], rule faults_first, rule faults_peek) simp

lemma faults_load_addr: "length mem < i + 4 \<Longrightarrow> faults (load_addr mem i)"
  unfolding load_addr_def
  by (rule faults_later [OF reads_peek], rule faults_later [OF reads_peek], rule faults_later [OF reads_peek],
      rule faults_first, rule faults_peek) simp

lemmas reads_rules = reads_peek reads_say reads_load16 reads_load32 reads_load_addr reads_print_mac reads_ret

lemma show_dump_out: "length mem < unat n \<Longrightarrow> faults (show_dump mem n)"
  by (simp add: show_dump_def faults_def dump_run)

section \<open>The contract of a header decoder\<close>

text \<open>
  A decoder reads \<open>need\<close> bytes from its position, prints \<open>text_of\<close> them and returns \<open>val\<close> of
  them, and does not survive a packet that holds fewer.
\<close>

locale decoder =
  fixes decode :: "string \<Rightarrow> nat \<Rightarrow> (console, 'r) io"
    and need :: nat
    and val :: "string \<Rightarrow> 'r"
    and text_of :: "string \<Rightarrow> string"
  assumes runs: "i + need \<le> length mem \<Longrightarrow> h = take need (drop i mem) \<Longrightarrow>
      decode mem i s = (Ret (val h), printed (text_of h) s)"
    and short: "length mem < i + need \<Longrightarrow> faults (decode mem i)"
begin

lemma runs_then:
  assumes "i + need \<le> length mem"
  shows "bindIO (decode mem i) k s =
     k (val (take need (drop i mem))) (printed (text_of (take need (drop i mem))) s)"
  by (rule bindIO_Ret, rule runs) (simp_all add: assms)

lemma runs_on:
  assumes "mem = p @ h @ q" and "i = length p" and "length h = need"
  shows "bindIO (decode mem i) k s = k (val h) (printed (text_of h) s)"
  using runs_then [of i mem k s] assms by simp

lemma short_then: "length mem < i + need \<Longrightarrow> faults (bindIO (decode mem i) k)"
  by (intro faults_first short)

end

section \<open>Headers for the witnesses\<close>

definition demo_eth :: eth_hd where
  "demo_eth = \<lparr>eth_dst = [1, 2, 3, 4, 5, 6], eth_src = [7, 8, 9, 10, 11, 12], eth_type = 2048\<rparr>"

definition demo_ip :: "nat \<Rightarrow> ip_hd" where
  "demo_ip protocol = \<lparr>ip_version = 4, ip_tos = 0, ip_length = 60, ip_id = 1, ip_frag = 0, ip_ttl = 64,
     ip_protocol = protocol, ip_check = 0, ip_saddr = [10, 0, 0, 1], ip_daddr = [10, 0, 0, 2],
     ip_options = [1, 1, 1, 0]\<rparr>"

definition demo_tcp :: tcp_hd where
  "demo_tcp = \<lparr>tcp_sport = 4000, tcp_dport = 80, tcp_seqn = 65537, tcp_ack = 0, tcp_ns = 0, tcp_flags = 2,
     tcp_windows = 1024, tcp_checksum = 0, tcp_urgent = 0, tcp_options = []\<rparr>"

definition demo_icmp :: icmp_hd where
  "demo_icmp = \<lparr>icmp_type = 8, icmp_code = 0, icmp_checksum = 0, icmp_rest = 5\<rparr>"

lemma demo_ok:
  "eth_ok demo_eth" "protocol < 256 \<Longrightarrow> ip_ok (demo_ip protocol)" "tcp_ok demo_tcp" "icmp_ok demo_icmp"
  by (simp_all add: eth_ok_def eth_bytes_def demo_eth_def ip_ok_def ip_fixed_def ip_ihl_def demo_ip_def
      options_ok_def tcp_ok_def tcp_fixed_def tcp_offset_def demo_tcp_def icmp_ok_def icmp_bytes_def
      demo_icmp_def bytes_ok_def be16_def be32_def)

lemma demo_lengths:
  "length (eth_bytes demo_eth) = 14" "length (ip_wire (demo_ip protocol)) = 24"
  "length (tcp_wire demo_tcp) = 20" "length (icmp_bytes demo_icmp) = 8" "ip_ihl (demo_ip protocol) = 6"
  "ip_protocol (demo_ip protocol) = protocol"
  by (simp_all add: eth_bytes_def demo_eth_def ip_wire_def ip_fixed_def ip_ihl_def demo_ip_def
      tcp_wire_def tcp_fixed_def tcp_offset_def demo_tcp_def icmp_bytes_def demo_icmp_def be16_def be32_def)

end
