(* ===== verification/Linux_Sniffer.thy ===== *)
theory Linux_Sniffer
  imports Packet
begin

text \<open>
  Sniffer/linux_raw/main.c: the decoders, \<open>processPacket\<close> and the program, which receives
  every frame into one buffer of 65536 bytes. \<open>mem\<close> is that buffer, with the bytes of earlier
  frames behind the received ones.
\<close>

section \<open>The decoders\<close>

definition decode_ethernet :: "string \<Rightarrow> nat \<Rightarrow> (console, nat) io" where
  "decode_ethernet mem i =
     bindIO (say (''== Layer 2 ::: Ethernet Header =='' @ [LF])) (\<lambda>_.
     bindIO (print_mac (TAB # ''SRC: '') mem (i + 6)) (\<lambda>_.
     bindIO (print_mac (TAB # ''DST: '') mem i) (\<lambda>_.
     bindIO (load16 mem (i + 12)) (\<lambda>t.
     bindIO (say (TAB # ''PROTO: '' @ dec (unat t) @ [LF])) (\<lambda>_.
     retIO 14)))))"

definition decode_ip :: "string \<Rightarrow> nat \<Rightarrow> (console, nat \<times> nat) io" where
  "decode_ip mem i =
     bindIO (say (''== Layer 3 :: IP Header =='' @ [LF])) (\<lambda>_.
     bindIO (peek mem (i + 0)) (\<lambda>v. bindIO (say (TAB # ''VER: '' @ dec (v div 16))) (\<lambda>_.
     bindIO (load_addr mem (i + 12)) (\<lambda>a. bindIO (say (TAB # ''SRC: '' @ a)) (\<lambda>_.
     bindIO (load_addr mem (i + 16)) (\<lambda>a. bindIO (say (TAB # ''DST: '' @ a @ [LF])) (\<lambda>_.
     bindIO (load16 mem (i + 4)) (\<lambda>n. bindIO (peek mem (i + 8)) (\<lambda>ttl. bindIO (peek mem (i + 9)) (\<lambda>p.
     bindIO (say (TAB # ''ID: '' @ dec (unat (ntohs n)) @ TAB # ''TTL: '' @ dec ttl @
       TAB # ''PROTO: '' @ dec p @ [LF])) (\<lambda>_.
     bindIO (peek mem (i + 9)) (\<lambda>protocol.
     bindIO (peek mem (i + 0)) (\<lambda>v. retIO (v mod 16 * 4, protocol))))))))))))))"

definition icmp_name :: "nat \<Rightarrow> string" where
  "icmp_name ty = (if ty = 0 then ''(Echo Reply) '' else if ty = 8 then ''(Echo Request) '' else [])"

definition decode_icmp :: "string \<Rightarrow> nat \<Rightarrow> (console, nat) io" where
  "decode_icmp mem i =
     bindIO (say (''== Layer 4 :: ICMP Header =='' @ [LF])) (\<lambda>_.
     bindIO (peek mem (i + 0)) (\<lambda>ty. bindIO (say (TAB # ''Type: '' @ dec ty @ '' '')) (\<lambda>_.
     bindIO (say (icmp_name ty)) (\<lambda>_.
     bindIO (peek mem (i + 1)) (\<lambda>c. bindIO (say (TAB # ''Code: '' @ dec c @ [LF])) (\<lambda>_.
     retIO 8))))))"

definition decode_tcp :: "string \<Rightarrow> nat \<Rightarrow> (console, nat) io" where
  "decode_tcp mem i =
     bindIO (say (''== Layer 4 :: TCP Header =='' @ [LF])) (\<lambda>_.
     bindIO (load16 mem (i + 0)) (\<lambda>sp. bindIO (load16 mem (i + 2)) (\<lambda>dp.
     bindIO (say (TAB # ''Source Port '' @ dec (unat (ntohs sp)) @
       TAB # ''Dst Port '' @ dec (unat (ntohs dp)) @ [LF])) (\<lambda>_.
     bindIO (load32 mem (i + 4)) (\<lambda>sn. bindIO (load32 mem (i + 8)) (\<lambda>ak.
     bindIO (say (TAB # ''Seq Num: '' @ dec (unat (ntohs (ucast sn))) @
       TAB # '' Ack Num: '' @ dec (unat (ntohs (ucast ak))) @ [LF])) (\<lambda>_.
     bindIO (peek mem (i + 12)) (\<lambda>f.
     bindIO (say (TAB # ''Offset: '' @ dec (f div 16) @ [LF])) (\<lambda>_.
     retIO (f div 16 * 4))))))))))"

section \<open>The packet\<close>

definition decode_l4 :: "nat \<Rightarrow> string \<Rightarrow> nat \<Rightarrow> (console, nat) io" where
  "decode_l4 protocol mem pos =
     (if protocol = 1 then decode_icmp mem pos
      else if protocol = 6 then decode_tcp mem pos
      else if protocol = 17 then retIO 0
      else bindIO (say (''==Layer 4 ::: Unknown Protocol ('' @ dec protocol @ '') =='' @ [LF])) (\<lambda>_. retIO 0))"

definition processPacket :: "string \<Rightarrow> int \<Rightarrow> (console, unit) io" where
  "processPacket mem n =
     bindIO (say (''==== Got a '' @ dec_int n @ '' bytes packet ===='' @ [LF])) (\<lambda>_.
     bindIO (decode_ethernet mem 0) (\<lambda>e. let pos = e in
     bindIO (decode_ip mem pos) (\<lambda>(k, protocol). let pos = pos + k in
     bindIO (decode_l4 protocol mem pos) (\<lambda>k. let pos = pos + k in
     bindIO (show_dump (drop pos mem) (of_int (n - int pos))) (\<lambda>_.
     say [LF, LF])))))"

section \<open>The program\<close>

definition BUFFER_SIZE :: nat where
  "BUFFER_SIZE = 65536"

fun receive_loop :: "string \<Rightarrow> rcv list \<Rightarrow> (console, int) io" where
  "receive_loop mem [] = liftR Blocked"
| "receive_loop mem (Rcv_Err # rs) = bindIO (say ''Error Reading from Socket'') (\<lambda>_. retIO 1)"
| "receive_loop mem (Rcv d # rs) =
     (let d = take BUFFER_SIZE d; mem = poke 0 d mem in
      bindIO (processPacket mem (int (length d))) (\<lambda>_. receive_loop mem rs))"

text \<open>
  \<open>main\<close>: \<open>strlen(argv[1])\<close> is evaluated before the socket is tested. \<open>sock\<close> is what
  \<open>socket\<close> returns, \<open>junk\<close> the bytes that \<open>malloc\<close> leaves in the buffer.
\<close>

definition main :: "string list \<Rightarrow> int \<Rightarrow> string \<Rightarrow> rcv list \<Rightarrow> (console, int) io" where
  "main argv sock junk rs =
     (if length argv \<le> 1 then crashIO Null_Deref
      else if sock < 0 then bindIO (say (''Can'' @ [CHR 0x27] @ ''t creat socket!'')) (\<lambda>_. retIO (-1))
      else bindIO (say (''..:: Basic Network Sniffer ::..'' @ [LF])) (\<lambda>_. receive_loop junk rs))"

section \<open>What the decoders print\<close>

definition ethernet_text :: "string \<Rightarrow> string" where
  "ethernet_text h = ''== Layer 2 ::: Ethernet Header =='' @ [LF] @ TAB # ''SRC: '' @ mac_text h 6 @
     TAB # ''DST: '' @ mac_text h 0 @ TAB # ''PROTO: '' @ dec (b_at h 12 + 256 * b_at h 13) @ [LF]"

definition ip_text :: "string \<Rightarrow> string" where
  "ip_text h = ''== Layer 3 :: IP Header =='' @ [LF] @ TAB # ''VER: '' @ dec (b_at h 0 div 16) @
     TAB # ''SRC: '' @ addr_text h 12 @ TAB # ''DST: '' @ addr_text h 16 @ [LF] @
     TAB # ''ID: '' @ dec (n_at h 4) @ TAB # ''TTL: '' @ dec (b_at h 8) @
     TAB # ''PROTO: '' @ dec (b_at h 9) @ [LF]"

definition icmp_text :: "string \<Rightarrow> string" where
  "icmp_text h = ''== Layer 4 :: ICMP Header =='' @ [LF] @ TAB # ''Type: '' @ dec (b_at h 0) @ '' '' @
     icmp_name (b_at h 0) @ TAB # ''Code: '' @ dec (b_at h 1) @ [LF]"

definition tcp_text :: "string \<Rightarrow> string" where
  "tcp_text h = ''== Layer 4 :: TCP Header =='' @ [LF] @
     TAB # ''Source Port '' @ dec (n_at h 0) @ TAB # ''Dst Port '' @ dec (n_at h 2) @ [LF] @
     TAB # ''Seq Num: '' @ dec (n_at h 4) @ TAB # '' Ack Num: '' @ dec (n_at h 8) @ [LF] @
     TAB # ''Offset: '' @ dec (b_at h 12 div 16) @ [LF]"

interpretation l_eth: decoder decode_ethernet 14 "\<lambda>_. 14" ethernet_text
proof (unfold_locales, goal_cases)
  case (1 i mem h s)
  show ?case
    using print_mac_slice [OF 1, of 0]
    by (simp add: decode_ethernet_def ethernet_text_def slice_rules [OF 1] unat_le16)
next
  case (2 mem i)
  then have "faults (load16 mem (i + 12))" by (intro faults_load16) simp
  then show ?case unfolding decode_ethernet_def by (iprover intro: faults_first faults_later reads_rules)
qed

interpretation l_ip: decoder decode_ip 20 "\<lambda>h. (b_at h 0 mod 16 * 4, b_at h 9)" ip_text
proof (unfold_locales, goal_cases)
  case (1 i mem h s)
  show ?case
    by (simp add: decode_ip_def ip_text_def slice_rules [OF 1])
next
  case (2 mem i)
  then have "faults (load_addr mem (i + 16))" by (intro faults_load_addr) simp
  then show ?case unfolding decode_ip_def by (iprover intro: faults_first faults_later reads_rules)
qed

interpretation l_icmp: decoder decode_icmp 2 "\<lambda>_. 8" icmp_text
proof (unfold_locales, goal_cases)
  case (1 i mem h s)
  show ?case
    using peek_slice [OF 1, of 1]
    by (simp add: decode_icmp_def icmp_text_def slice_rules [OF 1])
next
  case (2 mem i)
  then have "faults (peek mem (i + 1))" by (intro faults_peek) simp
  then show ?case unfolding decode_icmp_def by (iprover intro: faults_first faults_later reads_rules)
qed

interpretation l_tcp: decoder decode_tcp 13 "\<lambda>h. b_at h 12 div 16 * 4" tcp_text
proof (unfold_locales, goal_cases)
  case (1 i mem h s)
  show ?case
    using slice_rules(3) [OF 1, of 0]
    by (simp add: decode_tcp_def tcp_text_def slice_rules [OF 1] del: add_2_eq_Suc')
next
  case (2 mem i)
  then have "faults (peek mem (i + 12))" by (intro faults_peek) simp
  then show ?case unfolding decode_tcp_def by (iprover intro: faults_first faults_later reads_rules)
qed

section \<open>Any frame\<close>

text \<open>Where the headers end, by the length fields that are in the buffer.\<close>

definition l4_at :: "string \<Rightarrow> nat" where
  "l4_at mem = 14 + b_at mem 14 mod 16 * 4"

definition data_at :: "string \<Rightarrow> nat" where
  "data_at mem = l4_at mem +
     (if b_at mem 23 = 1 then 8 else if b_at mem 23 = 6 then b_at mem (l4_at mem + 12) div 16 * 4 else 0)"

lemma l_bounds: "14 \<le> l4_at mem" "l4_at mem \<le> 74" "l4_at mem \<le> data_at mem" "data_at mem \<le> 134"
proof -
  have "b_at mem 14 mod 16 \<le> 15" by simp
  moreover have "b_at mem (l4_at mem + 12) div 16 \<le> 15"
    using b_at_less [of mem "l4_at mem + 12"] by simp
  ultimately show "14 \<le> l4_at mem" "l4_at mem \<le> 74" "l4_at mem \<le> data_at mem" "data_at mem \<le> 134"
    by (simp_all add: l4_at_def data_at_def)
qed

lemma decode_l4_runs:
  assumes "l4_at mem + 13 \<le> length mem"
  shows "\<exists>t. bindIO (decode_l4 (b_at mem 23) mem (l4_at mem)) k s = k (data_at mem - l4_at mem) (printed t s)"
proof -
  have "b_at (take 13 (drop (l4_at mem) mem)) 12 = b_at mem (l4_at mem + 12)"
    using assms by (simp add: slice_byte)
  with assms show ?thesis
    by (auto simp: decode_l4_def data_at_def l_icmp.runs_then l_tcp.runs_then bindIO_assoc intro: exI [of _ "[]"])
qed

lemma processPacket_decoded:
  assumes "100 \<le> length mem"
  shows "\<exists>t. processPacket mem n s =
     bindIO (show_dump (drop (data_at mem) mem) (of_int (n - int (data_at mem)))) (\<lambda>_. say [LF, LF]) (printed t s)"
proof -
  have i: "b_at (take 20 (drop 14 mem)) 0 mod 16 * 4 = l4_at mem - 14" "b_at (take 20 (drop 14 mem)) 9 = b_at mem 23"
    using assms by (simp_all add: slice_byte l4_at_def)
  let ?K = "\<lambda>pos. bindIO (show_dump (drop pos mem) (of_int (n - int pos))) (\<lambda>_. say [LF, LF])"
  have "\<exists>t. processPacket mem n s =
      bindIO (decode_l4 (b_at mem 23) mem (l4_at mem)) (\<lambda>k. ?K (l4_at mem + k)) (printed t s)"
    using assms l_bounds(1) [of mem]
    by (simp add: processPacket_def Let_def l_eth.runs_then l_ip.runs_then i) (rule exI, rule refl)
  then obtain t where t: "processPacket mem n s =
      bindIO (decode_l4 (b_at mem 23) mem (l4_at mem)) (\<lambda>k. ?K (l4_at mem + k)) (printed t s)" by blast
  have "l4_at mem + 13 \<le> length mem" using l_bounds(2) [of mem] assms by simp
  from decode_l4_runs [OF this, of "\<lambda>k. ?K (l4_at mem + k)" "printed t s"]
  obtain t' where "processPacket mem n s =
      ?K (l4_at mem + (data_at mem - l4_at mem)) (printed t' (printed t s))" using t by auto
  moreover have "l4_at mem + (data_at mem - l4_at mem) = data_at mem" using l_bounds(3) [of mem] by simp
  ultimately have "processPacket mem n s = ?K (data_at mem) (printed (t @ t') s)" by simp
  then show ?thesis by blast
qed

lemma unat_of_diff:
  assumes "0 \<le> n" and "n \<le> 65536" and "k \<le> 134"
  shows "unat (of_int (n - int k) :: u32) = (if int k \<le> n then nat n - k else 2 ^ 32 + nat n - k)"
proof -
  have "uint (of_int (n - int k) :: u32) = (n - int k) mod 2 ^ 32"
    by (simp only: uint_word_of_int) simp
  also have "\<dots> = (if int k \<le> n then n - int k else n - int k + 2 ^ 32)"
  proof (cases "int k \<le> n")
    case True
    then show ?thesis using assms by (simp add: mod_pos_pos_trivial)
  next
    case False
    have "(n - int k) mod 2 ^ 32 = (n - int k + 2 ^ 32) mod 2 ^ 32" by simp
    also have "\<dots> = n - int k + 2 ^ 32" using False assms by (intro mod_pos_pos_trivial) auto
    finally show ?thesis using False by simp
  qed
  finally have "nat (uint (of_int (n - int k) :: u32)) = nat (if int k \<le> n then n - int k else n - int k + 2 ^ 32)"
    by (rule arg_cong)
  also have "\<dots> = (if int k \<le> n then nat n - k else 2 ^ 32 + nat n - k)"
    using assms by auto
  finally show ?thesis by (simp only: nat_uint_eq)
qed

lemma processPacket_safety:
  assumes "length mem = BUFFER_SIZE" and "0 \<le> n" and "n \<le> int BUFFER_SIZE"
  shows "fst (processPacket mem n s) = (if int (data_at mem) \<le> n then Ret () else Crash Out_Of_Bounds)"
proof -
  let ?w = "of_int (n - int (data_at mem)) :: u32"
  have l: "length mem = 65536" "n \<le> 65536" using assms(1,3) by (simp_all add: BUFFER_SIZE_def)
  have u: "unat ?w = (if int (data_at mem) \<le> n then nat n - data_at mem else 2 ^ 32 + nat n - data_at mem)"
    using assms(2) l(2) l_bounds(4) by (rule unat_of_diff)
  obtain t where t: "processPacket mem n s =
      bindIO (show_dump (drop (data_at mem) mem) ?w) (\<lambda>_. say [LF, LF]) (printed t s)"
    using processPacket_decoded [of mem n s] l(1) by auto
  show ?thesis
  proof (cases "int (data_at mem) \<le> n")
    case True
    then have "unat ?w = nat n - data_at mem" "nat n - data_at mem \<le> length (drop (data_at mem) mem)"
      using u l assms(2) by auto
    from show_dump_in [OF this] True show ?thesis by (simp add: t)
  next
    case False
    then have "length (drop (data_at mem) mem) < unat ?w" using u l l_bounds(4) [of mem] by simp
    note f = faultsD [OF faults_first [OF show_dump_out [OF this]]]
    from False show ?thesis by (simp only: t f if_False)
  qed
qed

section \<open>Whole frames\<close>

datatype l4 = L4_Icmp icmp_hd | L4_Tcp tcp_hd | L4_Other

record frame =
  fr_eth :: eth_hd
  fr_ip :: ip_hd
  fr_l4 :: l4
  fr_data :: string

fun l4_wire :: "l4 \<Rightarrow> string" where
  "l4_wire (L4_Icmp c) = wire (icmp_bytes c)"
| "l4_wire (L4_Tcp t) = tcp_wire t"
| "l4_wire L4_Other = []"

definition frame_wire :: "frame \<Rightarrow> string" where
  "frame_wire f = wire (eth_bytes (fr_eth f)) @ ip_wire (fr_ip f) @ l4_wire (fr_l4 f) @ fr_data f"

fun l4_ok :: "nat \<Rightarrow> l4 \<Rightarrow> bool" where
  "l4_ok protocol (L4_Icmp c) \<longleftrightarrow> protocol = 1 \<and> icmp_ok c"
| "l4_ok protocol (L4_Tcp t) \<longleftrightarrow> protocol = 6 \<and> tcp_ok t"
| "l4_ok protocol L4_Other \<longleftrightarrow> protocol \<noteq> 1 \<and> protocol \<noteq> 6"

definition frame_ok :: "frame \<Rightarrow> bool" where
  "frame_ok f \<longleftrightarrow> eth_ok (fr_eth f) \<and> ip_ok (fr_ip f) \<and> l4_ok (ip_protocol (fr_ip f)) (fr_l4 f) \<and>
     length (frame_wire f) \<le> BUFFER_SIZE"

definition ethernet_spec :: "eth_hd \<Rightarrow> string" where
  "ethernet_spec e = ''== Layer 2 ::: Ethernet Header =='' @ [LF] @ TAB # ''SRC: '' @ mac_of (eth_src e) @
     TAB # ''DST: '' @ mac_of (eth_dst e) @
     TAB # ''PROTO: '' @ dec (eth_type e div 256 + 256 * (eth_type e mod 256)) @ [LF]"

definition ip_spec :: "ip_hd \<Rightarrow> string" where
  "ip_spec p = ''== Layer 3 :: IP Header =='' @ [LF] @ TAB # ''VER: '' @ dec (ip_version p) @
     TAB # ''SRC: '' @ inet_ntop4 (ip_saddr p) @ TAB # ''DST: '' @ inet_ntop4 (ip_daddr p) @ [LF] @
     TAB # ''ID: '' @ dec (ip_id p) @ TAB # ''TTL: '' @ dec (ip_ttl p) @
     TAB # ''PROTO: '' @ dec (ip_protocol p) @ [LF]"

fun l4_spec :: "nat \<Rightarrow> l4 \<Rightarrow> string" where
  "l4_spec protocol (L4_Icmp c) = ''== Layer 4 :: ICMP Header =='' @ [LF] @ TAB # ''Type: '' @
     dec (icmp_type c) @ '' '' @ icmp_name (icmp_type c) @ TAB # ''Code: '' @ dec (icmp_code c) @ [LF]"
| "l4_spec protocol (L4_Tcp t) = ''== Layer 4 :: TCP Header =='' @ [LF] @
     TAB # ''Source Port '' @ dec (tcp_sport t) @ TAB # ''Dst Port '' @ dec (tcp_dport t) @ [LF] @
     TAB # ''Seq Num: '' @ dec (tcp_seqn t div 65536) @ TAB # '' Ack Num: '' @ dec (tcp_ack t div 65536) @ [LF] @
     TAB # ''Offset: '' @ dec (tcp_offset t) @ [LF]"
| "l4_spec protocol L4_Other =
     (if protocol = 17 then [] else ''==Layer 4 ::: Unknown Protocol ('' @ dec protocol @ '') =='' @ [LF])"

definition frame_spec :: "frame \<Rightarrow> string" where
  "frame_spec f = ''==== Got a '' @ dec (length (frame_wire f)) @ '' bytes packet ===='' @ [LF] @
     ethernet_spec (fr_eth f) @ ip_spec (fr_ip f) @ l4_spec (ip_protocol (fr_ip f)) (fr_l4 f) @
     concat (map dump_row (rows (fr_data f))) @ [LF, LF]"

lemma l_eth_wire: "eth_ok e \<Longrightarrow> ethernet_text (wire (eth_bytes e)) = ethernet_spec e"
  by (simp add: ethernet_text_def ethernet_spec_def eth_fields [OF _ refl])

lemma l_ip_wire: "ip_ok p \<Longrightarrow> ip_text (wire (ip_fixed p)) = ip_spec p"
  by (simp add: ip_text_def ip_spec_def ip_fields [OF _ refl])

lemma decode_l4_frame:
  assumes "l4_ok protocol l" and "mem = p @ l4_wire l @ q" and "i = length p"
  shows "bindIO (decode_l4 protocol mem i) k s = k (length (l4_wire l)) (printed (l4_spec protocol l) s)"
proof (cases l)
  case (L4_Icmp c)
  let ?h = "wire (icmp_bytes c)"
  have c: "icmp_ok c" "protocol = 1" using assms(1) L4_Icmp by simp_all
  note f = icmp_fields [OF c(1) refl]
  have "mem = p @ take 2 ?h @ (drop 2 ?h @ q)" using assms(2) L4_Icmp by simp
  from l_icmp.runs_on [OF this assms(3), of k s] f show ?thesis
    by (simp add: L4_Icmp c decode_l4_def icmp_text_def b_at_take)
next
  case (L4_Tcp t)
  let ?h = "wire (tcp_fixed t)"
  have t: "tcp_ok t" "protocol = 6" using assms(1) L4_Tcp by simp_all
  note f = tcp_fields [OF t(1) refl]
  have "mem = p @ take 13 ?h @ (drop 13 ?h @ wire (tcp_options t) @ q)" using assms(2) L4_Tcp by (simp add: tcp_wire_def)
  from l_tcp.runs_on [OF this assms(3), of k s] f length_tcp_wire [OF t(1)] show ?thesis
    by (simp add: L4_Tcp t decode_l4_def tcp_text_def b_at_take n_at_take)
next
  case L4_Other
  then show ?thesis using assms(1) by (auto simp: decode_l4_def bindIO_assoc)
qed

lemma processPacket_frame:
  assumes "frame_ok f" and "mem = frame_wire f @ rest"
  shows "processPacket mem (int (length (frame_wire f))) s = (Ret (), printed (frame_spec f) s)"
proof -
  let ?e = "wire (eth_bytes (fr_eth f))" and ?i = "wire (ip_fixed (fr_ip f))" and ?l = "l4_wire (fr_l4 f)"
  let ?ih = "ip_ihl (fr_ip f) * 4" and ?pr = "ip_protocol (fr_ip f)"
  have ok: "eth_ok (fr_eth f)" "ip_ok (fr_ip f)" "l4_ok ?pr (fr_l4 f)" "length (frame_wire f) \<le> 65536"
    using assms(1) by (simp_all add: frame_ok_def BUFFER_SIZE_def)
  note ef = eth_fields [OF ok(1) refl] and fi = ip_fields [OF ok(2) refl]
  have w: "length (ip_wire (fr_ip f)) = ?ih" using ok(2) by (rule length_ip_wire)
  have E: "bindIO (decode_ethernet mem 0) k u = k 14 (printed (ethernet_spec (fr_eth f)) u)" for k u
    using l_eth.runs_on [of mem "[]" ?e _ 0 k u] ef(1) ok(1)
    by (simp add: assms(2) frame_wire_def l_eth_wire)
  have I: "bindIO (decode_ip mem 14) k u = k (?ih, ?pr) (printed (ip_spec (fr_ip f)) u)" for k u
    using l_ip.runs_on [of mem ?e ?i _ 14 k u] ef(1) fi(1,3,6) ok(2)
    by (simp add: assms(2) frame_wire_def ip_wire_def l_ip_wire)
  have L: "bindIO (decode_l4 ?pr mem (14 + ?ih)) k u = k (length ?l) (printed (l4_spec ?pr (fr_l4 f)) u)" for k u
    using decode_l4_frame [OF ok(3), of mem "?e @ ip_wire (fr_ip f)" "fr_data f @ rest" "14 + ?ih" k u] ef(1) w
    by (simp add: assms(2) frame_wire_def)
  have len: "length (frame_wire f) = 14 + ?ih + length ?l + length (fr_data f)"
    using ef(1) w by (simp add: frame_wire_def)
  have "14 + ?ih + length ?l \<le> 134"
    using ihl_bounds [OF ok(2)] ok(3) icmp_fields(1) length_tcp_wire offset_bounds
    by (cases "fr_l4 f") fastforce+
  then have n: "unat (of_int (int (length (frame_wire f)) - int (14 + ?ih + length ?l)) :: u32) = length (fr_data f)"
    using ok(4) len by (subst unat_of_diff) auto
  have d: "drop (14 + ?ih + length ?l) mem = fr_data f @ rest"
    using ef(1) w by (simp add: assms(2) frame_wire_def)
  have D: "show_dump (drop (14 + ?ih + length ?l) mem)
      (of_int (int (length (frame_wire f)) - int (14 + ?ih + length ?l))) u =
      (Ret (), printed (concat (map dump_row (rows (fr_data f)))) u)" for u
    using show_dump_in [OF n, of "fr_data f @ rest" u] by (simp only: d) simp
  show ?thesis
    unfolding processPacket_def Let_def bindIO_Ret [OF say_app] E I prod.case L bindIO_Ret [OF D]
    by (simp add: frame_spec_def dec_int_def)
qed

lemma receive_frames:
  assumes "\<forall>f\<in>set fs. frame_ok f"
  shows "receive_loop mem (map (\<lambda>f. Rcv (frame_wire f)) fs) s = (Blocked, printed (concat (map frame_spec fs)) s)"
  using assms
proof (induction fs arbitrary: mem s)
  case (Cons f fs)
  then have f: "frame_ok f" "take BUFFER_SIZE (frame_wire f) = frame_wire f" by (simp_all add: frame_ok_def)
  have "poke 0 (frame_wire f) mem = frame_wire f @ drop (length (frame_wire f)) mem" by (simp add: poke_def)
  from processPacket_frame [OF f(1) this] Cons.IH Cons.prems f(2) show ?case by (simp add: Let_def)
qed simp

definition demo_frame :: frame where
  "demo_frame = \<lparr>fr_eth = demo_eth, fr_ip = demo_ip 1, fr_l4 = L4_Icmp demo_icmp, fr_data = ''ping''\<rparr>"

lemma demo_frame_ok: "frame_ok demo_frame"
  by (simp add: frame_ok_def demo_frame_def demo_ok demo_lengths frame_wire_def BUFFER_SIZE_def)

section \<open>Properties\<close>

text \<open>
  C18: What the sniffer prints of each frame it receives, in order: of the Ethernet header the two
  addresses and the type with its bytes swapped; of the IP header the version, the two addresses,
  the identifier, the time to live and the protocol; of an ICMP header the type and the code; of a
  TCP header the two ports, the data offset and the upper sixteen bits of the sequence and
  acknowledgment numbers; for UDP nothing and for other protocols a notice with their number;
  then the dump of exactly the bytes after the headers decoded, with any options, and none of the
  bytes that earlier frames left in the buffer. Then it waits for the next frame. The other header fields (type of
  service, total length, fragment, checksums, TCP flags, window and urgent pointer, the rest of an
  ICMP header) are not printed.
\<close>

theorem frames_printed:
  assumes "1 < length argv" and "0 \<le> sock" and "\<forall>f\<in>set fs. frame_ok f"
  shows "main argv sock junk (map (\<lambda>f. Rcv (frame_wire f)) fs) s =
     (Blocked, printed (''..:: Basic Network Sniffer ::..'' @ [LF] @ concat (map frame_spec fs)) s)"
  using assms by (simp add: main_def receive_frames)

theorem frames_printed_witness:
  "main [''sniffer'', ''eth0''] 3 [] (map (\<lambda>f. Rcv (frame_wire f)) [demo_frame, demo_frame])
     \<lparr>text_out = [], sent = []\<rparr> =
   (Blocked, printed (''..:: Basic Network Sniffer ::..'' @ [LF] @
     concat (map frame_spec [demo_frame, demo_frame])) \<lparr>text_out = [], sent = []\<rparr>)"
  by (rule frames_printed) (simp_all add: demo_frame_ok)

text \<open>C20: Processing a frame never reads out of bounds exactly when the frame is as long as the
  headers that the buffer shows; a shorter one, such as any of less than 14 bytes, makes the
  length of the dump wrap around and kills the sniffer.\<close>

theorem packet_safety:
  assumes "length mem = BUFFER_SIZE" and "0 \<le> n" and "n \<le> int BUFFER_SIZE"
  shows "fst (processPacket mem n s) = (if int (data_at mem) \<le> n then Ret () else Crash Out_Of_Bounds) \<and>
     (n < 14 \<longrightarrow> fst (processPacket mem n s) = Crash Out_Of_Bounds)"
  using processPacket_safety [OF assms, of s] l_bounds(1,3) [of mem] by auto

theorem packet_safety_witness:
  "fst (processPacket (replicate BUFFER_SIZE NUL) 5 \<lparr>text_out = [], sent = []\<rparr>) = Crash Out_Of_Bounds"
  using packet_safety [of "replicate BUFFER_SIZE NUL" 5 "\<lparr>text_out = [], sent = []\<rparr>"]
  by (auto simp: BUFFER_SIZE_def)

end
