(* ===== verification/Pcap_Sniffer.thy ===== *)
theory Pcap_Sniffer
  imports Packet
begin

text \<open>
  Sniffer/pcap_clase.c: the decoders of the Ethernet, IP and TCP headers, the callback that
  prints a captured packet, and the set-up of the capture. What libpcap answers is an
  argument; \<open>mem\<close> is the captured part of a packet, of \<open>caplen\<close> bytes, and \<open>len\<close> its length
  on the wire.
\<close>

section \<open>The decoders\<close>

definition decode_ethernet :: "string \<Rightarrow> nat \<Rightarrow> (console, nat) io" where
  "decode_ethernet mem i =
     bindIO (say (''[[Layer 2 ::: Ethernet Header]]'' @ [LF])) (\<lambda>_.
     bindIO (print_mac ''[SRC: '' mem (i + 6)) (\<lambda>_.
     bindIO (print_mac (TAB # ''DST: '') mem i) (\<lambda>_.
     bindIO (peek mem (i + 12)) (\<lambda>t0. bindIO (peek mem (i + 13)) (\<lambda>t1.
     bindIO (say (TAB # ''TYPE: '' @ hex2 t0 @ hex2 t1 @ '']'' @ [LF])) (\<lambda>_.
     retIO 14))))))"

definition decode_ip :: "string \<Rightarrow> nat \<Rightarrow> (console, nat) io" where
  "decode_ip mem i =
     bindIO (say (TAB # ''[[Layer 3 :: IP Header]]'' @ [LF])) (\<lambda>_.
     bindIO (peek mem (i + 0)) (\<lambda>v. bindIO (say (TAB # ''VER: '' @ dec (v div 16))) (\<lambda>_.
     bindIO (load_addr mem (i + 12)) (\<lambda>a. bindIO (say (TAB # ''SRC: '' @ a)) (\<lambda>_.
     bindIO (load_addr mem (i + 16)) (\<lambda>a. bindIO (say (TAB # ''DST: '' @ a @ [LF])) (\<lambda>_.
     bindIO (load16 mem (i + 4)) (\<lambda>n. bindIO (peek mem (i + 8)) (\<lambda>ttl. bindIO (peek mem (i + 9)) (\<lambda>p.
     bindIO (say (TAB # ''ID: '' @ dec (unat (ntohs n)) @ TAB # ''TTL: '' @ dec ttl @
       TAB # ''PROTO: 0x'' @ hex2 p @ [LF])) (\<lambda>_.
     bindIO (peek mem (i + 0)) (\<lambda>v. retIO (v mod 16 * 4)))))))))))))"

definition decode_tcp :: "string \<Rightarrow> nat \<Rightarrow> (console, nat) io" where
  "decode_tcp mem i =
     bindIO (say (TAB # TAB # ''[[Layer 4 :: TCP Header]]'' @ [LF])) (\<lambda>_.
     bindIO (load16 mem (i + 0)) (\<lambda>sp. bindIO (load16 mem (i + 2)) (\<lambda>dp.
     bindIO (say (TAB # TAB # ''Source Port '' @ dec (unat (ntohs sp)) @
       TAB # ''Dst Port '' @ dec (unat (ntohs dp)) @ [LF])) (\<lambda>_.
     bindIO (load32 mem (i + 4)) (\<lambda>sn. bindIO (load32 mem (i + 8)) (\<lambda>ak.
     bindIO (say (TAB # TAB # ''Seq Num: '' @ dec (unat (ntohs (ucast sn))) @
       TAB # '' Ack Num: '' @ dec (unat (ntohs (ucast ak))) @ [LF])) (\<lambda>_.
     bindIO (peek mem (i + 12)) (\<lambda>f.
     bindIO (say (TAB # TAB # ''Offset: '' @ dec (f div 16) @ [LF])) (\<lambda>_.
     retIO (f div 16 * 4))))))))))"

section \<open>The callback\<close>

definition got_packet :: "u32 \<Rightarrow> string \<Rightarrow> (console, unit) io" where
  "got_packet len mem =
     bindIO (say (''==== Got a '' @ dec_int (sint len) @ '' byte packet ===='' @ [LF])) (\<lambda>_.
     bindIO (decode_ethernet mem 0) (\<lambda>e. let pos = e in
     bindIO (decode_ip mem pos) (\<lambda>n. let pos = pos + n in
     bindIO (decode_tcp mem pos) (\<lambda>n. let pos = pos + n in
     bindIO (say (''[PAYLOAD]'' @ [LF])) (\<lambda>_.
     show_dump (drop pos mem) (len - of_nat pos))))))"

section \<open>Setting up the capture\<close>

text \<open>
  What libpcap answers: the default device, and for \<open>pcap_open_live\<close>, \<open>pcap_compile\<close> and
  \<open>pcap_setfilter\<close> the error text of a failure; then the packets it delivers and whether reading
  from the device fails after them. \<open>pcap_loop\<close> is called with the count -1: it delivers packets
  without end, waiting for the next one, and returns only with -1 when a read fails
  (\<open>pcap_breakloop\<close> is never called). \<open>main\<close> ignores the result and runs off its end, status 0.
\<close>

record pcap_env =
  lookupdev :: "string + string"
  open_live :: "string \<Rightarrow> string option"
  compile_filter :: "string \<Rightarrow> string option"
  setfilter :: "string option"
  captured :: "(u32 \<times> string) list"
  read_fails :: bool

definition pcap_fatal :: "string \<Rightarrow> string \<Rightarrow> (console, 'a) io" where
  "pcap_fatal failed_in errbuf =
     bindIO (say (''Fatal Error in '' @ failed_in @ '': '' @ errbuf @ [LF])) (\<lambda>_. liftR (Exit 1))"

fun pcap_loop :: "bool \<Rightarrow> (u32 \<times> string) list \<Rightarrow> (console, int) io" where
  "pcap_loop err [] = (if err then retIO (-1) else liftR Blocked)"
| "pcap_loop err ((len, mem) # ps) = bindIO (got_packet len mem) (\<lambda>_. pcap_loop err ps)"

definition choose_device :: "pcap_env \<Rightarrow> string list \<Rightarrow> (console, string) io" where
  "choose_device env args =
     (if 1 < length args then retIO (args ! 1)
      else case lookupdev env of Inr d \<Rightarrow> retIO d | Inl e \<Rightarrow> pcap_fatal ''pcap_lookupdev'' e)"

definition install_filter :: "pcap_env \<Rightarrow> string list \<Rightarrow> (console, unit) io" where
  "install_filter env args =
     (if 2 < length args then
        (case compile_filter env (args ! 2) of
           Some e \<Rightarrow> pcap_fatal ''pcap_compile'' e
         | None \<Rightarrow> (case setfilter env of
             Some e \<Rightarrow> pcap_fatal ''pcap_setfilter'' e
           | None \<Rightarrow> say (''Setup filter: '' @ [CHR 0x22] @ args ! 2 @ [CHR 0x22] @ [LF])))
      else retIO ())"

definition main :: "pcap_env \<Rightarrow> string list \<Rightarrow> (console, int) io" where
  "main env args =
     bindIO (choose_device env args) (\<lambda>device.
     bindIO (say (''Sniffing on device '' @ device @ [LF])) (\<lambda>_.
     bindIO (case open_live env device of Some e \<Rightarrow> pcap_fatal ''pcap_open_live'' e | None \<Rightarrow> retIO ()) (\<lambda>_.
     bindIO (install_filter env args) (\<lambda>_.
     bindIO (pcap_loop (read_fails env) (captured env)) (\<lambda>_. retIO 0)))))"

section \<open>What the decoders print\<close>

definition ethernet_text :: "string \<Rightarrow> string" where
  "ethernet_text h = ''[[Layer 2 ::: Ethernet Header]]'' @ [LF] @ ''[SRC: '' @ mac_text h 6 @
     TAB # ''DST: '' @ mac_text h 0 @
     TAB # ''TYPE: '' @ hex2 (b_at h 12) @ hex2 (b_at h 13) @ '']'' @ [LF]"

definition ip_text :: "string \<Rightarrow> string" where
  "ip_text h = TAB # ''[[Layer 3 :: IP Header]]'' @ [LF] @ TAB # ''VER: '' @ dec (b_at h 0 div 16) @
     TAB # ''SRC: '' @ addr_text h 12 @ TAB # ''DST: '' @ addr_text h 16 @ [LF] @
     TAB # ''ID: '' @ dec (n_at h 4) @ TAB # ''TTL: '' @ dec (b_at h 8) @
     TAB # ''PROTO: 0x'' @ hex2 (b_at h 9) @ [LF]"

definition tcp_text :: "string \<Rightarrow> string" where
  "tcp_text h = TAB # TAB # ''[[Layer 4 :: TCP Header]]'' @ [LF] @
     TAB # TAB # ''Source Port '' @ dec (n_at h 0) @ TAB # ''Dst Port '' @ dec (n_at h 2) @ [LF] @
     TAB # TAB # ''Seq Num: '' @ dec (n_at h 4) @ TAB # '' Ack Num: '' @ dec (n_at h 8) @ [LF] @
     TAB # TAB # ''Offset: '' @ dec (b_at h 12 div 16) @ [LF]"

interpretation eth: decoder decode_ethernet 14 "\<lambda>_. 14" ethernet_text
proof (unfold_locales, goal_cases)
  case (1 i mem h s)
  show ?case
    using print_mac_slice [OF 1, of 0]
    by (simp add: decode_ethernet_def ethernet_text_def slice_rules [OF 1])
next
  case (2 mem i)
  then have "faults (peek mem (i + 13))" by (intro faults_peek) simp
  then show ?case unfolding decode_ethernet_def by (iprover intro: faults_first faults_later reads_rules)
qed

interpretation ip: decoder decode_ip 20 "\<lambda>h. b_at h 0 mod 16 * 4" ip_text
proof (unfold_locales, goal_cases)
  case (1 i mem h s)
  show ?case
    by (simp add: decode_ip_def ip_text_def slice_rules [OF 1])
next
  case (2 mem i)
  then have "faults (load_addr mem (i + 16))" by (intro faults_load_addr) simp
  then show ?case unfolding decode_ip_def by (iprover intro: faults_first faults_later reads_rules)
qed

interpretation tcp: decoder decode_tcp 13 "\<lambda>h. b_at h 12 div 16 * 4" tcp_text
proof (unfold_locales, goal_cases)
  case (1 i mem h s)
  show ?case
    using slice_rules(3) [OF 1, of 0]
    by (simp add: decode_tcp_def tcp_text_def slice_rules [OF 1] del: add_2_eq_Suc')
next
  case (2 mem i)
  then have "faults (peek mem (i + 12))" by (intro faults_peek) simp
  then show ?case unfolding decode_tcp_def by (iprover intro: faults_first faults_later reads_rules)
qed

section \<open>The callback on any packet\<close>

text \<open>Where the TCP header and the payload begin, by the length fields of the headers.\<close>

definition tcp_at :: "string \<Rightarrow> nat" where
  "tcp_at mem = 14 + b_at mem 14 mod 16 * 4"

definition payload_at :: "string \<Rightarrow> nat" where
  "payload_at mem = tcp_at mem + b_at mem (tcp_at mem + 12) div 16 * 4"

text \<open>The packet holds the headers that its own length fields announce.\<close>

definition headers_fit :: "string \<Rightarrow> nat \<Rightarrow> bool" where
  "headers_fit mem n \<longleftrightarrow> 34 \<le> n \<and> tcp_at mem + 13 \<le> n \<and> payload_at mem \<le> n"

text \<open>The part after the decoders.\<close>

lemma got_packet_decoded:
  assumes "34 \<le> length mem" and "tcp_at mem + 13 \<le> length mem"
  shows "\<exists>t. got_packet len mem s =
     show_dump (drop (payload_at mem) mem) (len - of_nat (payload_at mem)) (printed t s)"
proof -
  have i: "b_at (take 20 (drop 14 mem)) 0 mod 16 * 4 = tcp_at mem - 14"
    using assms(1) by (simp add: slice_byte tcp_at_def)
  have t: "b_at (take 13 (drop (tcp_at mem) mem)) 12 div 16 * 4 = payload_at mem - tcp_at mem"
    using assms(2) by (simp add: slice_byte payload_at_def)
  have "14 \<le> tcp_at mem" "tcp_at mem \<le> payload_at mem" by (simp_all add: tcp_at_def payload_at_def)
  then show ?thesis
    using assms
    by (auto simp: got_packet_def Let_def eth.runs_then ip.runs_then tcp.runs_then i t intro: exI)
qed

lemma p_bounds: "14 \<le> tcp_at mem" "tcp_at mem \<le> payload_at mem" "payload_at mem \<le> 134"
proof -
  have "b_at mem 14 mod 16 \<le> 15" by simp
  moreover have "b_at mem (tcp_at mem + 12) div 16 \<le> 15"
    using b_at_less [of mem "tcp_at mem + 12"] by simp
  ultimately show "14 \<le> tcp_at mem" "tcp_at mem \<le> payload_at mem" "payload_at mem \<le> 134"
    by (simp_all add: tcp_at_def payload_at_def)
qed

lemma got_packet_short:
  assumes "length mem < 34 \<or> length mem < tcp_at mem + 13"
  shows "fst (got_packet len mem s) = Crash Out_Of_Bounds"
proof -
  consider "length mem < 14" | "14 \<le> length mem" "length mem < 34" | "34 \<le> length mem" "length mem < tcp_at mem + 13"
    using assms by linarith
  then show ?thesis
  proof cases
    case 1
    then show ?thesis by (simp add: got_packet_def Let_def faultsD [OF eth.short_then])
  next
    case 2
    then show ?thesis by (simp add: got_packet_def Let_def eth.runs_then faultsD [OF ip.short_then])
  next
    case 3
    have "b_at (take 20 (drop 14 mem)) 0 mod 16 * 4 = tcp_at mem - 14"
      using 3 by (simp add: slice_byte tcp_at_def)
    with 3 p_bounds(1) [of mem] show ?thesis
      by (simp add: got_packet_def Let_def eth.runs_then ip.runs_then faultsD [OF tcp.short_then])
  qed
qed

lemma got_packet_safety:
  assumes "length mem = min (unat len) 4096"
  shows "fst (got_packet len mem s) =
     (if headers_fit mem (unat len) \<and> unat len \<le> 4096 then Ret () else Crash Out_Of_Bounds)"
proof (cases "34 \<le> length mem \<and> tcp_at mem + 13 \<le> length mem")
  case False
  then have "\<not> (headers_fit mem (unat len) \<and> unat len \<le> 4096)" using assms by (auto simp: headers_fit_def)
  with False got_packet_short [of mem len s] show ?thesis by auto
next
  case True
  let ?n = "len - of_nat (payload_at mem)"
  obtain t where t: "got_packet len mem s = show_dump (drop (payload_at mem) mem) ?n (printed t s)"
    using got_packet_decoded True by blast
  have n: "unat ?n = (if payload_at mem \<le> unat len then unat len - payload_at mem
      else unat len + 2 ^ 32 - payload_at mem)"
    by (rule unat_minus_pos) (rule p_bounds)
  show ?thesis
  proof (cases "headers_fit mem (unat len) \<and> unat len \<le> 4096")
    case fits: True
    then have "unat ?n = length (drop (payload_at mem) mem)" using n assms by (simp add: headers_fit_def)
    with fits show ?thesis by (simp add: t show_dump_in [OF _ order_refl])
  next
    case False
    then have "unat len < payload_at mem \<or> 4096 < unat len"
      using True assms by (auto simp: headers_fit_def)
    then have "length (drop (payload_at mem) mem) < unat ?n"
      using n assms p_bounds(3) [of mem] by auto
    with False show ?thesis by (simp add: t faultsD [OF show_dump_out])
  qed
qed

lemma capture_safety:
  assumes "\<forall>(len, mem) \<in> set ps. length mem = min (unat len) 4096"
  shows "fst (bindIO (pcap_loop err ps) (\<lambda>_. retIO 0) s) =
     (if \<forall>(len, mem) \<in> set ps. headers_fit mem (unat len) \<and> unat len \<le> 4096 then (if err then Ret (0 :: int) else Blocked)
      else Crash Out_Of_Bounds)"
  using assms
proof (induction ps arbitrary: s)
  case (Cons pkt ps)
  obtain len mem where pkt: "pkt = (len, mem)" by fastforce
  have one: "fst (got_packet len mem t) =
     (if headers_fit mem (unat len) \<and> unat len \<le> 4096 then Ret () else Crash Out_Of_Bounds)" for t
    using Cons.prems by (intro got_packet_safety) (simp add: pkt)
  obtain r s' where g: "got_packet len mem s = (r, s')" by fastforce
  have rest: "fst (bindIO (pcap_loop err ps) (\<lambda>_. retIO 0) s') =
     (if \<forall>(len, mem) \<in> set ps. headers_fit mem (unat len) \<and> unat len \<le> 4096 then (if err then Ret (0 :: int) else Blocked)
      else Crash Out_Of_Bounds)" using Cons.prems by (intro Cons.IH) simp
  show ?case
  proof (cases "headers_fit mem (unat len) \<and> unat len \<le> 4096")
    case True
    with one [of s] g have "bindIO (pcap_loop err (pkt # ps)) (\<lambda>_. retIO (0 :: int)) s =
      bindIO (pcap_loop err ps) (\<lambda>_. retIO 0) s'" by (simp add: pkt bindIO_def)
    note this [THEN arg_cong, of fst, unfolded rest]
    with True show ?thesis by (simp only: pkt list.set ball_simps split_conv simp_thms)
  next
    case False
    with one [of s] g show ?thesis by (auto simp: pkt bindIO_def)
  qed
qed simp

section \<open>The callback on a TCP segment\<close>

definition ethernet_spec :: "eth_hd \<Rightarrow> string" where
  "ethernet_spec e = ''[[Layer 2 ::: Ethernet Header]]'' @ [LF] @ ''[SRC: '' @ mac_of (eth_src e) @
     TAB # ''DST: '' @ mac_of (eth_dst e) @
     TAB # ''TYPE: '' @ hex2 (eth_type e div 256) @ hex2 (eth_type e mod 256) @ '']'' @ [LF]"

definition ip_spec :: "ip_hd \<Rightarrow> string" where
  "ip_spec p = TAB # ''[[Layer 3 :: IP Header]]'' @ [LF] @ TAB # ''VER: '' @ dec (ip_version p) @
     TAB # ''SRC: '' @ inet_ntop4 (ip_saddr p) @ TAB # ''DST: '' @ inet_ntop4 (ip_daddr p) @ [LF] @
     TAB # ''ID: '' @ dec (ip_id p) @ TAB # ''TTL: '' @ dec (ip_ttl p) @
     TAB # ''PROTO: 0x'' @ hex2 (ip_protocol p) @ [LF]"

definition tcp_spec :: "tcp_hd \<Rightarrow> string" where
  "tcp_spec t = TAB # TAB # ''[[Layer 4 :: TCP Header]]'' @ [LF] @
     TAB # TAB # ''Source Port '' @ dec (tcp_sport t) @ TAB # ''Dst Port '' @ dec (tcp_dport t) @ [LF] @
     TAB # TAB # ''Seq Num: '' @ dec (tcp_seqn t div 65536) @
     TAB # '' Ack Num: '' @ dec (tcp_ack t div 65536) @ [LF] @
     TAB # TAB # ''Offset: '' @ dec (tcp_offset t) @ [LF]"

lemma p_eth_wire: "eth_ok e \<Longrightarrow> ethernet_text (wire (eth_bytes e)) = ethernet_spec e"
  by (simp add: ethernet_text_def ethernet_spec_def eth_fields [OF _ refl])

lemma p_ip_wire: "ip_ok p \<Longrightarrow> ip_text (wire (ip_fixed p)) = ip_spec p"
  by (simp add: ip_text_def ip_spec_def ip_fields [OF _ refl])

lemma p_tcp_wire: "tcp_ok t \<Longrightarrow> tcp_text (take 13 (wire (tcp_fixed t))) = tcp_spec t"
  by (simp add: tcp_text_def tcp_spec_def n_at_take b_at_take tcp_fields [OF _ refl])

lemma got_packet_frame:
  assumes "eth_ok e" and "ip_ok p" and "tcp_ok t"
    and "frame = wire (eth_bytes e) @ ip_wire p @ tcp_wire t @ data" and "length frame < 2 ^ 31"
  shows "got_packet (of_nat (length frame)) frame s = (Ret (), printed
     (''==== Got a '' @ dec (length frame) @ '' byte packet ===='' @ [LF] @
      ethernet_spec e @ ip_spec p @ tcp_spec t @ ''[PAYLOAD]'' @ [LF] @ concat (map dump_row (rows data))) s)"
proof -
  let ?e = "wire (eth_bytes e)" and ?i = "wire (ip_fixed p)" and ?t = "wire (tcp_fixed t)"
  let ?tp = "14 + ip_ihl p * 4" and ?pp = "14 + ip_ihl p * 4 + tcp_offset t * 4"
  have l: "length ?e = 14" "length ?i = 20" "length ?t = 20"
    using eth_fields(1) ip_fields(1) tcp_fields(1) assms(1-3) by blast+
  have w: "length (ip_wire p) = ip_ihl p * 4" "length (tcp_wire t) = tcp_offset t * 4"
    using length_ip_wire length_tcp_wire assms(2,3) by blast+
  have fe: "frame = [] @ ?e @ (ip_wire p @ tcp_wire t @ data)" by (simp add: assms(4))
  have fi: "frame = ?e @ ?i @ (wire (ip_options p) @ tcp_wire t @ data)" by (simp add: assms(4) ip_wire_def)
  have ft: "frame = (?e @ ip_wire p) @ take 13 ?t @ (drop 13 ?t @ wire (tcp_options t) @ data)"
    by (simp add: assms(4) tcp_wire_def)
  have d: "drop ?pp frame = data" using l w by (simp add: assms(4))
  have len: "length frame = ?pp + length data" using l w by (simp add: assms(4))
  have "?pp \<le> 134" using ihl_bounds [OF assms(2)] offset_bounds [OF assms(3)] by simp
  then have n: "unat (of_nat (length frame) - of_nat ?pp :: u32) = length data"
    using assms(5) unat_of_nat32 [of "length frame"] len by (subst unat_minus_pos) simp_all
  have sl: "sint (of_nat (length frame) :: u32) = int (length frame)" using assms(5) by (rule sint_of_small)
  have iv: "b_at ?i 0 mod 16 * 4 = ip_ihl p * 4" using ip_fields(3) [OF assms(2) refl] by simp
  have tv: "b_at (take 13 ?t) 12 div 16 * 4 = tcp_offset t * 4"
    using tcp_fields(6) [OF assms(3) refl] by (simp add: b_at_take)
  have sd: "show_dump (drop ?pp frame) (of_nat (length frame) - of_nat ?pp) u =
      (Ret (), printed (concat (map dump_row (rows data))) u)" for u
    using show_dump_in [OF n, of data u] by (simp only: d) simp
  have E: "bindIO (decode_ethernet frame 0) k u = k 14 (printed (ethernet_spec e) u)" for k u
    using eth.runs_on [OF fe _ l(1), of 0 k u] assms(1) by (simp add: p_eth_wire)
  have I: "bindIO (decode_ip frame 14) k u = k (ip_ihl p * 4) (printed (ip_spec p) u)" for k u
    using ip.runs_on [OF fi l(1) [symmetric] l(2), of k u] assms(2) by (simp add: p_ip_wire iv)
  have T: "bindIO (decode_tcp frame ?tp) k u = k (tcp_offset t * 4) (printed (tcp_spec t) u)" for k u
    using tcp.runs_on [OF ft, of ?tp k u] assms(3) l w by (simp add: p_tcp_wire tv)
  show ?thesis
    unfolding got_packet_def Let_def bindIO_Ret [OF say_app] E I T sd
    by (simp add: sl dec_int_def)
qed

section \<open>The whole program\<close>

definition setup_fails :: "pcap_env \<Rightarrow> string list \<Rightarrow> bool" where
  "setup_fails env args \<longleftrightarrow>
     (case if 1 < length args then Inr (args ! 1) else lookupdev env of
        Inl e \<Rightarrow> True
      | Inr d \<Rightarrow> open_live env d \<noteq> None \<or>
          2 < length args \<and> (compile_filter env (args ! 2) \<noteq> None \<or> setfilter env \<noteq> None))"

lemma pcap_fatal_exits: "fst (bindIO (pcap_fatal f e) k s) = Exit 1"
  by (simp add: pcap_fatal_def bindIO_def)

lemma choose_device_runs:
  "choose_device env args =
     (case if 1 < length args then Inr (args ! 1) else lookupdev env of
        Inl e \<Rightarrow> pcap_fatal ''pcap_lookupdev'' e | Inr d \<Rightarrow> retIO d)"
  by (auto simp: choose_device_def split: sum.split)

lemma install_filter_cases:
  shows "2 < length args \<and> (compile_filter env (args ! 2) \<noteq> None \<or> setfilter env \<noteq> None) \<Longrightarrow>
      fst (bindIO (install_filter env args) k s) = Exit 1"
    and "\<not> (2 < length args \<and> (compile_filter env (args ! 2) \<noteq> None \<or> setfilter env \<noteq> None)) \<Longrightarrow>
      \<exists>t. bindIO (install_filter env args) k s = k () t"
  by (auto simp: install_filter_def pcap_fatal_exits split: option.split)

section \<open>Properties\<close>

text \<open>
  C19: What the callback prints of a TCP segment: of the Ethernet header the two addresses and the
  type, of the IP header the version, the two addresses, the identifier, the time to live and the
  protocol, of the TCP header the two ports, the data offset and the upper sixteen bits of the
  sequence and acknowledgment numbers (\<open>ntohs\<close> is applied to 32-bit fields); then it dumps exactly
  the payload, whatever the IP and TCP options. The other fields are not printed.
\<close>

theorem segment_printed:
  assumes "eth_ok e" and "ip_ok p" and "tcp_ok t"
    and "frame = wire (eth_bytes e) @ ip_wire p @ tcp_wire t @ data" and "length frame < 2 ^ 31"
  shows "got_packet (of_nat (length frame)) frame s = (Ret (), printed
     (''==== Got a '' @ dec (length frame) @ '' byte packet ===='' @ [LF] @
      ethernet_spec e @ ip_spec p @ tcp_spec t @ ''[PAYLOAD]'' @ [LF] @ concat (map dump_row (rows data))) s)"
  using assms by (rule got_packet_frame)

theorem segment_printed_witness:
  "\<exists>frame. got_packet (of_nat (length frame)) frame \<lparr>text_out = [], sent = []\<rparr> = (Ret (), printed
     (''==== Got a '' @ dec (length frame) @ '' byte packet ===='' @ [LF] @
      ethernet_spec demo_eth @ ip_spec (demo_ip 6) @ tcp_spec demo_tcp @ ''[PAYLOAD]'' @ [LF] @
      concat (map dump_row (rows ''GET /''))) \<lparr>text_out = [], sent = []\<rparr>)"
  by (rule exI, rule segment_printed [of demo_eth "demo_ip 6" demo_tcp
        "wire (eth_bytes demo_eth) @ ip_wire (demo_ip 6) @ tcp_wire demo_tcp @ ''GET /''" "''GET /''"])
    (simp_all add: demo_ok demo_lengths)

text \<open>
  C21: How the capture program ends, when libpcap delivers the first 4096 bytes of each packet, as
  it was asked to. It exits with 1 when the capture cannot be set up. Otherwise
  the first packet that is longer than the 4096 bytes captured of it, or shorter than its own
  length fields say, makes its dump or decoding read out of bounds: any sender on the network can
  end it. When there is no such packet it goes on waiting, unless reading from the device fails;
  that error is not reported, the program then returns 0.
\<close>

theorem capture_ends:
  assumes "\<forall>(len, mem) \<in> set (captured env). length mem = min (unat len) 4096"
  shows "fst (main env args s) =
     (if setup_fails env args then Exit 1
      else if \<forall>(len, mem) \<in> set (captured env). headers_fit mem (unat len) \<and> unat len \<le> 4096
      then (if read_fails env then Ret 0 else Blocked)
      else Crash Out_Of_Bounds)"
proof (cases "if 1 < length args then Inr (args ! 1) else lookupdev env")
  case (Inl e)
  then show ?thesis by (simp add: main_def setup_fails_def choose_device_runs pcap_fatal_exits)
next
  case (Inr d)
  let ?f = "2 < length args \<and> (compile_filter env (args ! 2) \<noteq> None \<or> setfilter env \<noteq> None)"
  let ?loop = "bindIO (pcap_loop (read_fails env) (captured env)) (\<lambda>_. retIO (0 :: int))"
  have "fst (bindIO (install_filter env args) (\<lambda>_. ?loop) u) = (if ?f then Exit 1
      else if \<forall>(len, mem) \<in> set (captured env). headers_fit mem (unat len) \<and> unat len \<le> 4096
      then (if read_fails env then Ret 0 else Blocked)
      else Crash Out_Of_Bounds)" for u
  proof (cases ?f)
    case True
    then show ?thesis by (simp only: install_filter_cases(1) if_True simp_thms)
  next
    case False
    from install_filter_cases(2) [OF False]
    obtain v where "bindIO (install_filter env args) (\<lambda>_. ?loop) u = ?loop v"
      by blast
    with False capture_safety [OF assms, of "read_fails env" v] show ?thesis by (simp only: if_False)
  qed
  with Inr show ?thesis
    by (cases "open_live env d") (auto simp: main_def setup_fails_def choose_device_runs pcap_fatal_exits)
qed

theorem capture_ends_witness:
  "fst (main \<lparr>lookupdev = Inr ''en0'', open_live = \<lambda>_. None, compile_filter = \<lambda>_. None, setfilter = None,
       captured = [(3, ''abc'')], read_fails = True\<rparr> [''sniffer''] \<lparr>text_out = [], sent = []\<rparr>) = Crash Out_Of_Bounds"
  using capture_ends [of "\<lparr>lookupdev = Inr ''en0'', open_live = \<lambda>_. None, compile_filter = \<lambda>_. None,
      setfilter = None, captured = [(3, ''abc'')], read_fails = True\<rparr>" "[''sniffer'']" "\<lparr>text_out = [], sent = []\<rparr>"]
  by (simp add: setup_fails_def headers_fit_def)

end
