(* ===== verification/Args.thy ===== *)
theory Args
  imports Posix
begin

text \<open>
  What the five \<open>processArguments\<close> of the programs share: access to \<open>argv\<close>, the conversion
  of numbers, the loop over the options, and lemmas for command lines that are made of
  well-formed options.
\<close>

section \<open>Arguments\<close>

text \<open>\<open>argv[argc]\<close> is a null pointer, which every use of an argument dereferences.\<close>

definition arg :: "string list \<Rightarrow> nat \<Rightarrow> string res" where
  "arg argv i =
     (if i < length argv then Ret (argv ! i)
      else if i = length argv then Crash Null_Deref else Crash Out_Of_Bounds)"

text \<open>\<open>temp = strtoimax(s, NULL, 10)\<close>, where \<open>temp\<close> is an \<open>unsigned int\<close>.\<close>

definition to_u_int :: "string \<Rightarrow> u32" where
  "to_u_int s = of_int (strtol10 s)"

text \<open>The test of a port between \<open>MINPORT\<close> and \<open>MAXPORT\<close>, and its assignment to an
  \<open>unsigned short\<close>.\<close>

definition port_of :: "u32 \<Rightarrow> u32 \<Rightarrow> string \<Rightarrow> u16 option" where
  "port_of minport maxport s =
     (let temp = to_u_int s
      in if temp = 0 \<or> temp < minport \<or> maxport < temp then None else Some (ucast temp))"

text \<open>\<open>strstr(argv[i], "-v") != NULL\<close>, and the level it sets.\<close>

definition is_verbose :: "string \<Rightarrow> bool" where
  "is_verbose a \<longleftrightarrow> strstr a ''-v'' \<noteq> None"

definition verbosity :: "string \<Rightarrow> int" where
  "verbosity a = int (length a) - 1"

text \<open>
  \<open>stpncpy(a, s, 18)\<close> into an array of 18 characters, which a longer text fills to the last
  one, and such an array read as a string.
\<close>

definition stpncpy18 :: "string \<Rightarrow> string" where
  "stpncpy18 s = take 18 (s @ replicate 18 NUL)"

definition text_in :: "string \<Rightarrow> string res" where
  "text_in buf = (if NUL \<in> set buf then Ret (c_string buf) else Crash Out_Of_Bounds)"

text \<open>\<open>debug(2, "\<dots>%s\<dots>", buf)\<close> of such an array: what it prints goes to \<open>stderr\<close>, which is not
  recorded, but when the level is reached it reads the array up to a NUL.\<close>

definition debug_text :: "int \<Rightarrow> string \<Rightarrow> unit res" where
  "debug_text level buf = (if 2 \<le> level \<and> NUL \<notin> set buf then Crash Out_Of_Bounds else Ret ())"

text \<open>The mode that two of the programs are started in.\<close>

datatype mode_enum = NOT_DEFINE | SERVER | CLIENT

section \<open>The loop over the options\<close>

text \<open>
  One turn of a loop prints the help and returns true, or prints it and returns false, or
  goes on after using up so many arguments behind the option. The loop ends at the first
  argument that is not an option's.
\<close>

datatype 'c turn = Help | Refused | Used nat 'c
datatype 'c scanned = Scan_Help 'c | Scan_Refused | Scan_End nat 'c

function scan :: "(string list \<Rightarrow> nat \<Rightarrow> 'c \<Rightarrow> 'c turn res) \<Rightarrow> string list \<Rightarrow> nat \<Rightarrow> nat \<Rightarrow> 'c \<Rightarrow> 'c scanned res" where
  "scan body argv limit i c =
     (if i < limit then
        bind_res (body argv i c) (\<lambda>t.
          case t of
            Help \<Rightarrow> Ret (Scan_Help c)
          | Refused \<Rightarrow> Ret Scan_Refused
          | Used k c' \<Rightarrow> scan body argv limit (i + k + 1) c')
      else Ret (Scan_End i c))"
  by pat_completeness auto
termination
  by (relation "measure (\<lambda>(body, argv, limit, i, c). limit - i)") auto

declare scan.simps [simp del]

lemma scan_end: "limit \<le> i \<Longrightarrow> scan body argv limit i c = Ret (Scan_End i c)"
  by (subst scan.simps) simp

lemma scan_used:
  "i < limit \<Longrightarrow> body argv i c = Ret (Used k c') \<Longrightarrow> scan body argv limit i c = scan body argv limit (i + k + 1) c'"
  by (subst scan.simps) simp

lemma scan_help: "i < limit \<Longrightarrow> body argv i c = Ret Help \<Longrightarrow> scan body argv limit i c = Ret (Scan_Help c)"
  by (subst scan.simps) simp

lemma scan_refused: "i < limit \<Longrightarrow> body argv i c = Ret Refused \<Longrightarrow> scan body argv limit i c = Ret Scan_Refused"
  by (subst scan.simps) simp

lemma scan_crash: "i < limit \<Longrightarrow> body argv i c = Crash f \<Longrightarrow> scan body argv limit i c = Crash f"
  by (subst scan.simps) simp

text \<open>
  The contract of a loop body: it uses up at most one argument behind the option, keeps an
  invariant of the settings, and reads at most one place behind the option.
\<close>

locale option_body =
  fixes body :: "string list \<Rightarrow> nat \<Rightarrow> 'c \<Rightarrow> 'c turn res"
    and inv :: "'c \<Rightarrow> bool"
  assumes used: "body argv i c = Ret (Used k c') \<Longrightarrow> k \<le> 1 \<and> i + k < length argv \<and> (inv c \<longrightarrow> inv c')"
    and ends: "i < length argv \<Longrightarrow> (\<exists>t. body argv i c = Ret t) \<or> i + 1 = length argv \<and> body argv i c = Crash Null_Deref"
begin

lemma scan_inv:
  assumes "scan body argv limit i c = Ret r" and "inv c"
  shows "case r of Scan_Help c' \<Rightarrow> inv c' | Scan_Refused \<Rightarrow> True
     | Scan_End j c' \<Rightarrow> inv c' \<and> (i \<le> limit \<longrightarrow> limit \<le> j \<and> j \<le> limit + 1)"
  using assms
proof (induction "limit - i" arbitrary: i c rule: less_induct)
  case less
  show ?case
  proof (cases "i < limit")
    case False
    with less.prems show ?thesis by (auto simp: scan_end)
  next
    case True
    from less.prems(1) obtain t where t: "body argv i c = Ret t"
      using True by (subst (asm) scan.simps) (auto elim: bind_res_RetE)
    show ?thesis
    proof (cases t)
      case (Used k c')
      have u: "k \<le> 1" "inv c'" using used t Used less.prems(2) by blast+
      have "scan body argv limit (i + k + 1) c' = Ret r"
        using less.prems(1) scan_used [where body = body, OF True] t Used by simp
      note step = this
      show ?thesis
      proof (cases "i + k + 1 \<le> limit")
        case in_range: True
        from less.hyps [OF _ step u(2)] True in_range show ?thesis by (auto split: scanned.splits)
      next
        case False
        with step have "r = Scan_End (i + k + 1) c'" by (simp add: scan_end)
        with False True u show ?thesis by simp
      qed
    qed (use t less.prems True scan_help scan_refused in force)+
  qed
qed

lemma scan_total:
  assumes "limit \<le> length argv"
  shows "(\<exists>r. scan body argv limit i c = Ret r) \<or> limit = length argv \<and> scan body argv limit i c = Crash Null_Deref"
proof (induction "limit - i" arbitrary: i c rule: less_induct)
  case less
  show ?case
  proof (cases "i < limit")
    case False
    then show ?thesis by (simp add: scan_end)
  next
    case True
    then have "i < length argv" using assms by simp
    from ends [OF this, of c] show ?thesis
    proof (elim disjE exE conjE)
      fix t assume t: "body argv i c = Ret t"
      show ?thesis
      proof (cases t)
        case (Used k c')
        with t less.hyps [of "i + k + 1" c'] True show ?thesis by (simp add: scan_used)
      qed (use t True in \<open>simp_all add: scan_help scan_refused\<close>)
    next
      assume "i + 1 = length argv" and "body argv i c = Crash Null_Deref"
      with True assms show ?thesis by (simp add: scan_crash)
    qed
  qed
qed

end

text \<open>Options as data, and the words that give one on the command line.\<close>

locale option_syntax = option_body body inv
  for body :: "string list \<Rightarrow> nat \<Rightarrow> 'c \<Rightarrow> 'c turn res" and inv :: "'c \<Rightarrow> bool" +
  fixes words :: "'o \<Rightarrow> string list"
    and set_option :: "'o \<Rightarrow> 'c \<Rightarrow> 'c"
    and valid :: "'o \<Rightarrow> bool"
  assumes parses: "valid x \<Longrightarrow> argv = before @ words x @ behind \<Longrightarrow>
      body argv (length before) c = Ret (Used (length (words x) - 1) (set_option x c))"
    and words_nonempty: "words x \<noteq> []"
begin

lemma scan_words:
  assumes "\<forall>x\<in>set xs. valid x" and "argv = before @ concat (map words xs) @ behind"
    and "limit = length before + length (concat (map words xs))"
  shows "scan body argv limit (length before) c = Ret (Scan_End limit (fold set_option xs c))"
  using assms
proof (induction xs arbitrary: before c)
  case Nil
  then show ?case by (simp add: scan_end)
next
  case (Cons x xs)
  have w: "0 < length (words x)" using words_nonempty by simp
  have "body argv (length before) c = Ret (Used (length (words x) - 1) (set_option x c))"
    using Cons.prems(1,2) by (intro parses [where behind = "concat (map words xs) @ behind"]) simp_all
  moreover have "length before < limit" using Cons.prems(3) w by simp
  moreover have "length before + (length (words x) - 1) + 1 = length (before @ words x)" using w by simp
  ultimately have "scan body argv limit (length before) c =
      scan body argv limit (length (before @ words x)) (set_option x c)"
    by (simp only: scan_used)
  also have "\<dots> = Ret (Scan_End limit (fold set_option xs (set_option x c)))"
    using Cons.prems by (intro Cons.IH) simp_all
  finally show ?case by simp
qed

end

section \<open>Numbers and texts\<close>

lemma text_in_stpncpy: "NUL \<notin> set s \<Longrightarrow> length s < 18 \<Longrightarrow> text_in (stpncpy18 s) = Ret s"
  by (cases "18 - length s") (auto simp: text_in_def stpncpy18_def c_string_def intro!: takeWhile_stop)

lemma NUL_stpncpy: "NUL \<notin> set s \<Longrightarrow> NUL \<in> set (stpncpy18 s) \<longleftrightarrow> length s < 18"
  by (auto simp: stpncpy18_def dest: in_set_takeD)

lemma text_in_full: "NUL \<notin> set s \<Longrightarrow> 18 \<le> length s \<Longrightarrow> text_in (stpncpy18 s) = Crash Out_Of_Bounds"
  by (auto simp: text_in_def stpncpy18_def dest: in_set_takeD)

lemma of_nat_wrap32: "(of_nat (n + k * 2 ^ 32) :: u32) = of_nat n"
  by (subst word_of_nat_eq_iff) (simp only: take_bit_eq_mod, simp)

lemma to_u_int_dec: "n < 2 ^ 63 \<Longrightarrow> to_u_int (dec n) = of_nat n"
  using strtol10_dec [of n "[]"] by (simp add: to_u_int_def)

lemma port_of_dec:
  assumes "n < 2 ^ 63" and "minport \<le> of_nat n" and "of_nat n \<le> maxport" and "of_nat n \<noteq> (0 :: u32)"
  shows "port_of minport maxport (dec n) = Some (of_nat n)"
proof -
  have "(ucast (of_nat n :: u32) :: u16) = of_nat n" by (rule bit_word_eqI) (simp add: bit_simps)
  with assms show ?thesis by (simp add: port_of_def Let_def to_u_int_dec not_less)
qed

lemma port_of_number:
  assumes "1 \<le> n" and "unat minport \<le> n" and "n \<le> unat maxport"
  shows "port_of minport maxport (dec n) = Some (of_nat n)"
proof -
  have "n < 2 ^ 32" using assms(3) unsigned_less [of maxport, where 'a = nat] by simp
  then have n: "unat (of_nat n :: u32) = n" by (rule unat_of_nat32)
  then have "of_nat n \<noteq> (0 :: u32)" using assms(1) by auto
  with n assms \<open>n < 2 ^ 32\<close> show ?thesis by (intro port_of_dec) (simp_all add: word_le_nat_alt)
qed

lemma port_of_range:
  assumes "port_of minport maxport s = Some p" and "maxport \<le> 65535"
  shows "p \<noteq> 0 \<and> unat minport \<le> unat p \<and> unat p \<le> unat maxport"
proof -
  let ?t = "to_u_int s"
  have t: "?t \<noteq> 0" "minport \<le> ?t" "?t \<le> maxport" and p: "p = ucast ?t"
    using assms(1) by (auto simp: port_of_def Let_def not_less split: if_splits)
  have "unat ?t \<le> 65535" using t(3) assms(2) by (simp add: word_le_nat_alt)
  then have "unat p = unat ?t" by (simp add: p unsigned_ucast_eq take_bit_nat_eq_self)
  moreover have "unat ?t \<noteq> 0" using t(1) by (simp add: unat_eq_zero)
  ultimately show ?thesis using t by (auto simp: word_le_nat_alt)
qed

end
