(* ===== verification/Client_Args.thy ===== *)
theory Client_Args
  imports Args FtClient
begin

text \<open>
  main_client.c and main_list.c of FileTransfer_Proyecto: the command lines of the client
  that fetches a file and of the one that lists a directory, and the two programs. The
  global variables are a record; \<open>ip\<close> and the file names are global arrays of zeros that are
  filled once, one byte short, so they are given by their text.
\<close>

section \<open>The settings\<close>

record client_conf =
  ip :: string
  remoteFilename :: string
  localFilename :: string
  port :: u16
  debugLevel :: int

definition initial :: client_conf where
  "initial = \<lparr>ip = [], remoteFilename = [], localFilename = [], port = 5001, debugLevel = 1\<rparr>"

text \<open>The bodies of the two option loops are the same text.\<close>

definition option_turn :: "string list \<Rightarrow> nat \<Rightarrow> client_conf \<Rightarrow> client_conf turn res" where
  "option_turn argv i c =
     bind_res (arg argv i) (\<lambda>a.
       if a = ''-h'' then Ret Help
       else if a = ''-p'' then
         bind_res (arg argv (i + 1)) (\<lambda>v.
           case port_of 1 65000 v of
             None \<Rightarrow> Ret Refused
           | Some p \<Rightarrow> Ret (Used 1 (c\<lparr>port := p\<rparr>)))
       else if is_verbose a then Ret (Used 0 (c\<lparr>debugLevel := verbosity a\<rparr>))
       else Ret Refused)"

section \<open>The help texts\<close>

definition help_options :: string where
  "help_options =
     [LF] @ ''Options:'' @ [LF] @
     TAB # ''-p PORT_NUMBER'' @ TAB # '' Set port number to work on (Default 5001)'' @ [LF] @
     TAB # ''-v[vvvv]'' @ TAB # '' Increments the verbosity of the server (Default 1)'' @ [LF] @
     TAB # ''-h'' @ TAB # '' Prints this help message'' @ [LF] @ [LF]"

definition client_help :: "string \<Rightarrow> unit cio" where
  "client_help cmd =
     sys_printf (''Use:'' @ TAB # cmd @ '' [options] IP_ADDR REMOTE_FILENAME LOCAL_FILENAME'' @ [LF] @ help_options)"

definition list_help :: "string \<Rightarrow> unit cio" where
  "list_help cmd = sys_printf (''Use:'' @ TAB # cmd @ '' [options] IP_ADDR'' @ [LF] @ help_options)"

section \<open>The arguments\<close>

text \<open>Lines 71 to 73 of main_client.c, and line 69 of main_list.c.\<close>

definition client_words :: "string list \<Rightarrow> nat \<Rightarrow> client_conf \<Rightarrow> client_conf res" where
  "client_words argv i c =
     bind_res (arg argv i) (\<lambda>a. bind_res (arg argv (i + 1)) (\<lambda>r. bind_res (arg argv (i + 2)) (\<lambda>l.
     Ret (c\<lparr>ip := strncpy_text a 18, remoteFilename := strncpy_text r 254, localFilename := strncpy_text l 254\<rparr>))))"

definition list_words :: "string list \<Rightarrow> nat \<Rightarrow> client_conf \<Rightarrow> client_conf res" where
  "list_words argv i c = bind_res (arg argv i) (\<lambda>a. Ret (c\<lparr>ip := strncpy_text a 18\<rparr>))"

text \<open>
  \<open>argc - 3\<close> is a signed number: when it is negative or small the loop does not run, as
  with the cut-off subtraction here. \<open>None\<close> is the return value false.
\<close>

definition processArguments :: "string list \<Rightarrow> client_conf option cio" where
  "processArguments argv =
     (if length argv < 4 then bindIO (client_help (argv ! 0)) (\<lambda>_. retIO None)
      else bindIO (liftR (scan option_turn argv (length argv - 3) 1 initial)) (\<lambda>r.
        case r of
          Scan_Help c \<Rightarrow> bindIO (client_help (argv ! 0)) (\<lambda>_. retIO (Some c))
        | Scan_Refused \<Rightarrow> bindIO (client_help (argv ! 0)) (\<lambda>_. retIO None)
        | Scan_End i c \<Rightarrow> bindIO (liftR (client_words argv i c)) (\<lambda>c. retIO (Some c))))"

definition list_processArguments :: "string list \<Rightarrow> client_conf option cio" where
  "list_processArguments argv =
     (if length argv < 2 then bindIO (list_help (argv ! 0)) (\<lambda>_. retIO None)
      else bindIO (liftR (scan option_turn argv (length argv - 3) 1 initial)) (\<lambda>r.
        case r of
          Scan_Help c \<Rightarrow> bindIO (list_help (argv ! 0)) (\<lambda>_. retIO (Some c))
        | Scan_Refused \<Rightarrow> bindIO (list_help (argv ! 0)) (\<lambda>_. retIO None)
        | Scan_End i c \<Rightarrow> bindIO (liftR (list_words argv i c)) (\<lambda>c. retIO (Some c))))"

section \<open>The programs\<close>

definition main_client :: "sockaddr_in \<Rightarrow> string list \<Rightarrow> int cio" where
  "main_client a0 argv =
     bindIO (sys_printf (''.:: FILE TRANSFER CLIENT ::.'' @ [LF])) (\<lambda>_.
     bindIO (processArguments argv) (\<lambda>r.
       case r of
         None \<Rightarrow> retIO (-1)
       | Some c \<Rightarrow> bindIO (start_client a0 (port c) (ip c) (remoteFilename c) (localFilename c)) (\<lambda>_. retIO 0)))"

definition main_list :: "sockaddr_in \<Rightarrow> string list \<Rightarrow> int cio" where
  "main_list a0 argv =
     bindIO (sys_printf (''.:: FILE TRANSFER CLIENT (LIST)::.'' @ [LF])) (\<lambda>_.
     bindIO (list_processArguments argv) (\<lambda>r.
       case r of
         None \<Rightarrow> retIO (-1)
       | Some c \<Rightarrow> bindIO (get_list a0 (port c) (ip c)) (\<lambda>_. retIO 0)))"

section \<open>The loop body meets its contract\<close>

datatype client_option = Opt_Port nat | Opt_Verbose nat

text \<open>\<open>-p n\<close>, and \<open>-v\<close> with \<open>n\<close> more letters.\<close>

fun option_words :: "client_option \<Rightarrow> string list" where
  "option_words (Opt_Port n) = [''-p'', dec n]"
| "option_words (Opt_Verbose n) = [''-v'' @ replicate n (CHR ''v'')]"

fun set_option :: "client_option \<Rightarrow> client_conf \<Rightarrow> client_conf" where
  "set_option (Opt_Port n) c = c\<lparr>port := of_nat n\<rparr>"
| "set_option (Opt_Verbose n) c = c\<lparr>debugLevel := int n + 1\<rparr>"

fun option_valid :: "client_option \<Rightarrow> bool" where
  "option_valid (Opt_Port n) \<longleftrightarrow> 1 \<le> n \<and> n \<le> 65000"
| "option_valid (Opt_Verbose n) \<longleftrightarrow> True"

text \<open>The settings while the options are read, and after.\<close>

definition fresh :: "client_conf \<Rightarrow> bool" where
  "fresh c \<longleftrightarrow> 1 \<le> unat (port c) \<and> unat (port c) \<le> 65000 \<and> ip c = [] \<and> remoteFilename c = [] \<and> localFilename c = []"

definition conf_ok :: "client_conf \<Rightarrow> bool" where
  "conf_ok c \<longleftrightarrow> 1 \<le> unat (port c) \<and> unat (port c) \<le> 65000 \<and>
     length (ip c) \<le> 18 \<and> length (remoteFilename c) \<le> 254 \<and> length (localFilename c) \<le> 254"

interpretation copt: option_syntax option_turn fresh option_words set_option option_valid
proof (unfold_locales, goal_cases)
  case (1 argv i c k c')
  then show ?case
    using port_of_range [of 1 65000]
    by (auto simp: option_turn_def arg_def fresh_def split: if_splits option.splits elim!: bind_res_RetE)
next
  case (2 i argv c)
  then show ?case
    by (auto simp: option_turn_def arg_def split: option.split)
next
  case (3 x argv before behind c)
  then show ?case
    by (cases x) (auto simp: option_turn_def arg_def nth_append port_of_number is_verbose_def verbosity_def)
next
  case (4 x)
  then show ?case by (cases x) simp_all
qed

section \<open>Properties\<close>

lemma client_settings:
  assumes "\<forall>x\<in>set opts. option_valid x" and "argv = cmd # concat (map option_words opts) @ [a, rf, lf]"
  shows "processArguments argv w = (Ret (Some ((fold set_option opts initial)
     \<lparr>ip := take 18 a, remoteFilename := take 254 rf, localFilename := take 254 lf\<rparr>)), w)"
proof -
  let ?n = "length (concat (map option_words opts))"
  have "scan option_turn argv (1 + ?n) (length [cmd]) initial = Ret (Scan_End (1 + ?n) (fold set_option opts initial))"
    by (rule copt.scan_words [OF assms(1), where behind = "[a, rf, lf]"]) (simp_all add: assms(2))
  moreover have "length argv = 4 + ?n" by (simp add: assms(2))
  moreover have "client_words argv (1 + ?n) c = Ret (c\<lparr>ip := take 18 a, remoteFilename := take 254 rf,
      localFilename := take 254 lf\<rparr>)" for c
    by (simp add: client_words_def arg_def assms(2) nth_append strncpy_text_def)
  ultimately show ?thesis by (simp add: processArguments_def)
qed

text \<open>A command line of well-formed options and three words runs the client with exactly the
  settings it names: the last port given, the last verbosity, and the words as the address and
  the two file names.\<close>

theorem client_command_line:
  assumes "\<forall>x\<in>set opts. option_valid x" and "argv = cmd # concat (map option_words opts) @ [a, rf, lf]"
    and "c = fold set_option opts initial" and "length a \<le> 18" and "length rf \<le> 254" and "length lf \<le> 254"
  shows "main_client a0 argv w =
     bindIO (start_client a0 (port c) a rf lf) (\<lambda>_. retIO 0)
       (w\<lparr>stdout := stdout w @ ''.:: FILE TRANSFER CLIENT ::.'' @ [LF]\<rparr>)"
  using client_settings [OF assms(1,2)] assms(3-6) by (simp add: main_client_def sys_printf_def)

theorem client_command_line_witness:
  "\<forall>a0 w. main_client a0 [''client'', ''-p'', dec 8080, ''-vv'', ''10.0.0.1'', ''a'', ''b''] w =
     bindIO (start_client a0 8080 ''10.0.0.1'' ''a'' ''b'') (\<lambda>_. retIO 0)
       (w\<lparr>stdout := stdout w @ ''.:: FILE TRANSFER CLIENT ::.'' @ [LF]\<rparr>)"
  using client_command_line [of "[Opt_Port 8080, Opt_Verbose 1]"
      "[''client'', ''-p'', dec 8080, ''-vv'', ''10.0.0.1'', ''a'', ''b'']" "''client''" "''10.0.0.1''" "''a''" "''b''"
      "fold set_option [Opt_Port 8080, Opt_Verbose 1] initial"]
  by (simp add: initial_def)

text \<open>The listing client, whose loop bound was copied from the other client, never takes its last
  argument for the address when there is an option: whatever the command line, when the
  arguments are accepted without a help text the address is one of the arguments before the
  last, and with one option and an address it is the option itself.\<close>

theorem list_ignores_last:
  assumes "list_processArguments argv w = (Ret (Some c), w')" and "2 < length argv" and "ip c \<noteq> []"
  shows "\<exists>i. 1 \<le> i \<and> i + 1 < length argv \<and> ip c = take 18 (argv ! i) \<and> (length argv \<le> 4 \<longrightarrow> i = 1)"
proof -
  let ?s = "scan option_turn argv (length argv - 3) 1 initial"
  have r: "bindIO (liftR ?s) (\<lambda>r. case r of
          Scan_Help c \<Rightarrow> bindIO (list_help (argv ! 0)) (\<lambda>_. retIO (Some c))
        | Scan_Refused \<Rightarrow> bindIO (list_help (argv ! 0)) (\<lambda>_. retIO None)
        | Scan_End i c \<Rightarrow> bindIO (liftR (list_words argv i c)) (\<lambda>c. retIO (Some c))) w = (Ret (Some c), w')"
    using assms(1,2) by (simp add: list_processArguments_def)
  then obtain t where t: "?s = Ret t" by (auto elim!: bindIO_RetE)
  have inv: "case t of Scan_Help c' \<Rightarrow> fresh c' | Scan_Refused \<Rightarrow> True
     | Scan_End j c' \<Rightarrow> fresh c' \<and> (1 \<le> length argv - 3 \<longrightarrow> length argv - 3 \<le> j \<and> j \<le> length argv - 3 + 1)"
    using copt.scan_inv [OF t] by (simp add: fresh_def initial_def)
  show ?thesis
  proof (cases t)
    case (Scan_End j c')
    have j1: "j = 1" if "length argv \<le> 4" using t that Scan_End by (simp add: scan_end)
    have "1 \<le> j \<and> j + 1 < length argv"
    proof (cases "length argv \<le> 4")
      case True
      with j1 assms(2) show ?thesis by simp
    next
      case False
      with inv Scan_End show ?thesis by auto
    qed
    moreover from this r t Scan_End have "ip c = take 18 (argv ! j)"
      by (auto simp: list_words_def arg_def strncpy_text_def)
    ultimately show ?thesis using j1 by blast
  next
    case (Scan_Help c')
    with r t inv assms(3) show ?thesis by (auto simp: list_help_def sys_printf_def fresh_def)
  next
    case Scan_Refused
    with r t show ?thesis by (auto simp: list_help_def sys_printf_def)
  qed
qed

theorem list_ignores_last_witness:
  "\<forall>w. \<exists>c w'. list_processArguments [''list'', ''-v'', ''10.0.0.1''] w = (Ret (Some c), w') \<and>
     (\<exists>i. 1 \<le> i \<and> i + 1 < length [''list'', ''-v'', ''10.0.0.1''] \<and>
       ip c = take 18 ([''list'', ''-v'', ''10.0.0.1''] ! i) \<and>
       (length [''list'', ''-v'', ''10.0.0.1''] \<le> 4 \<longrightarrow> i = 1))"
proof
  fix w
  let ?c = "initial\<lparr>ip := ''-v''\<rparr>"
  have "list_processArguments [''list'', ''-v'', ''10.0.0.1''] w = (Ret (Some ?c), w)"
    by (simp add: list_processArguments_def scan_end list_words_def arg_def strncpy_text_def)
  from list_ignores_last [OF this] this show "\<exists>c w'. list_processArguments [''list'', ''-v'', ''10.0.0.1''] w = (Ret (Some c), w') \<and>
     (\<exists>i. 1 \<le> i \<and> i + 1 < length [''list'', ''-v'', ''10.0.0.1''] \<and>
       ip c = take 18 ([''list'', ''-v'', ''10.0.0.1''] ! i) \<and>
       (length [''list'', ''-v'', ''10.0.0.1''] \<le> 4 \<longrightarrow> i = 1))"
    by (intro exI [of _ ?c] exI [of _ w]) simp
qed

text \<open>C34: Every command line is read safely: it is refused, or gives a port between 1 and 65000 and
  texts that fit their arrays, or it dies of the null pointer behind the arguments; nothing is
  read or written out of bounds.\<close>

theorem client_arguments_safe:
  "\<exists>w'. (\<exists>c. processArguments argv w = (Ret (Some c), w') \<and> conf_ok c) \<or>
     processArguments argv w = (Ret None, w') \<or>
     processArguments argv w = (Crash Null_Deref, w')"
proof (cases "length argv < 4")
  case True
  then show ?thesis by (auto simp: processArguments_def client_help_def sys_printf_def)
next
  case False
  let ?s = "scan option_turn argv (length argv - 3) 1 initial"
  obtain t where t: "?s = Ret t" using copt.scan_total [of "length argv - 3" argv 1 initial] False by auto
  have inv: "case t of Scan_Help c' \<Rightarrow> fresh c' | Scan_Refused \<Rightarrow> True
     | Scan_End j c' \<Rightarrow> fresh c' \<and> (1 \<le> length argv - 3 \<longrightarrow> length argv - 3 \<le> j \<and> j \<le> length argv - 3 + 1)"
    using copt.scan_inv [OF t] by (simp add: fresh_def initial_def)
  have run: "processArguments argv w = (case t of
          Scan_Help c \<Rightarrow> bindIO (client_help (argv ! 0)) (\<lambda>_. retIO (Some c))
        | Scan_Refused \<Rightarrow> bindIO (client_help (argv ! 0)) (\<lambda>_. retIO None)
        | Scan_End i c \<Rightarrow> bindIO (liftR (client_words argv i c)) (\<lambda>c. retIO (Some c))) w"
    using False by (simp only: processArguments_def if_False t bindIO_liftR)
  show ?thesis
  proof (cases t)
    case (Scan_End j c')
    with inv False have f: "fresh c'" and "j + 3 = length argv \<or> j + 2 = length argv" by auto
    then consider "j + 3 = length argv" | "j + 2 = length argv" by blast
    then show ?thesis
    proof cases
      case 1
      then obtain c where "client_words argv j c' = Ret c" "conf_ok c"
        using f by (auto simp: client_words_def arg_def strncpy_text_def conf_ok_def fresh_def)
      with run Scan_End show ?thesis by auto
    next
      case 2
      then have "client_words argv j c' = Crash Null_Deref" by (auto simp: client_words_def arg_def)
      with run Scan_End show ?thesis by auto
    qed
  next
    case (Scan_Help c')
    with inv have "conf_ok c'" by (simp add: conf_ok_def fresh_def)
    with run Scan_Help show ?thesis by (auto simp: client_help_def sys_printf_def)
  next
    case Scan_Refused
    with run show ?thesis by (simp add: client_help_def sys_printf_def)
  qed
qed

end
