(* ===== verification/Server_Args.thy ===== *)
theory Server_Args
  imports Args FtServer
begin

text \<open>
  main_server.c of FileTransfer_Proyecto: the command line of the server and the program.
\<close>

section \<open>The settings\<close>

record server_conf =
  baseDir :: string
  port :: u16
  debugLevel :: int

definition initial :: server_conf where
  "initial = \<lparr>baseDir = ''./'', port = 5001, debugLevel = 1\<rparr>"

definition option_turn :: "string list \<Rightarrow> nat \<Rightarrow> server_conf \<Rightarrow> server_conf turn res" where
  "option_turn argv i c =
     bind_res (arg argv i) (\<lambda>a.
       if a = ''-h'' then Ret Help
       else if a = ''-p'' then
         bind_res (arg argv (i + 1)) (\<lambda>v.
           case port_of 1 65000 v of
             None \<Rightarrow> Ret Refused
           | Some p \<Rightarrow> Ret (Used 1 (c\<lparr>port := p\<rparr>)))
       else if a = ''-d'' then
         bind_res (arg argv (i + 1)) (\<lambda>d. Ret (Used 1 (c\<lparr>baseDir := strncpy_text d 254\<rparr>)))
       else if is_verbose a then Ret (Used 0 (c\<lparr>debugLevel := verbosity a\<rparr>))
       else Ret Refused)"

definition printHelp :: "string \<Rightarrow> unit cio" where
  "printHelp cmd =
     sys_printf (''Use:'' @ TAB # cmd @ '' [options]'' @ [LF] @ [LF] @ ''Options:'' @ [LF] @
     TAB # ''-p PORT_NUMBER'' @ TAB # '' Set port number to work on (Default 5001)'' @ [LF] @
     TAB # ''-d DIRECTORY'' @ TAB # '' Set port number to work on (Default Same)'' @ [LF] @
     TAB # ''-v[vvvv]'' @ TAB # '' Increments the verbosity of the server (Default 1)'' @ [LF] @
     TAB # ''-h'' @ TAB # '' Prints this help message'' @ [LF] @ [LF])"

definition processArguments :: "string list \<Rightarrow> server_conf option cio" where
  "processArguments argv =
     bindIO (liftR (scan option_turn argv (length argv) 1 initial)) (\<lambda>r.
       case r of
         Scan_Help c \<Rightarrow> bindIO (printHelp (argv ! 0)) (\<lambda>_. retIO (Some c))
       | Scan_Refused \<Rightarrow> bindIO (printHelp (argv ! 0)) (\<lambda>_. retIO None)
       | Scan_End i c \<Rightarrow> retIO (Some c))"

definition main_server :: "sockaddr_in \<Rightarrow> string list \<Rightarrow> int cio" where
  "main_server a0 argv =
     bindIO (sys_printf (''.:: FILE TRANSFER SERVER ::.'' @ [LF])) (\<lambda>_.
     bindIO (processArguments argv) (\<lambda>r.
       case r of
         None \<Rightarrow> retIO (-1)
       | Some c \<Rightarrow> bindIO (start_server a0 (port c) (baseDir c)) (\<lambda>_. retIO 0)))"

section \<open>The loop body meets its contract\<close>

datatype server_option = Opt_Port nat | Opt_Dir string | Opt_Verbose nat

fun option_words :: "server_option \<Rightarrow> string list" where
  "option_words (Opt_Port n) = [''-p'', dec n]"
| "option_words (Opt_Dir d) = [''-d'', d]"
| "option_words (Opt_Verbose n) = [''-v'' @ replicate n (CHR ''v'')]"

fun set_option :: "server_option \<Rightarrow> server_conf \<Rightarrow> server_conf" where
  "set_option (Opt_Port n) c = c\<lparr>port := of_nat n\<rparr>"
| "set_option (Opt_Dir d) c = c\<lparr>baseDir := d\<rparr>"
| "set_option (Opt_Verbose n) c = c\<lparr>debugLevel := int n + 1\<rparr>"

fun option_valid :: "server_option \<Rightarrow> bool" where
  "option_valid (Opt_Port n) \<longleftrightarrow> 1 \<le> n \<and> n \<le> 65000"
| "option_valid (Opt_Dir d) \<longleftrightarrow> length d \<le> 254"
| "option_valid (Opt_Verbose n) \<longleftrightarrow> True"

definition conf_ok :: "server_conf \<Rightarrow> bool" where
  "conf_ok c \<longleftrightarrow> 1 \<le> unat (port c) \<and> unat (port c) \<le> 65000 \<and> length (baseDir c) \<le> 254"

interpretation sopt: option_syntax option_turn conf_ok option_words set_option option_valid
proof (unfold_locales, goal_cases)
  case (1 argv i c k c')
  then show ?case
    using port_of_range [of 1 65000]
    by (auto simp: option_turn_def arg_def conf_ok_def strncpy_text_def split: if_splits option.splits
        elim!: bind_res_RetE)
next
  case (2 i argv c)
  then show ?case
    by (auto simp: option_turn_def arg_def split: option.split)
next
  case (3 x argv before behind c)
  then show ?case
    by (cases x) (auto simp: option_turn_def arg_def nth_append port_of_number is_verbose_def verbosity_def
        strncpy_text_def)
next
  case (4 x)
  then show ?case by (cases x) simp_all
qed

lemma server_settings:
  assumes "\<forall>x\<in>set opts. option_valid x"
  shows "processArguments (cmd # concat (map option_words opts)) w = (Ret (Some (fold set_option opts initial)), w)"
proof -
  let ?argv = "cmd # concat (map option_words opts)"
  have "scan option_turn ?argv (length ?argv) (length [cmd]) initial =
      Ret (Scan_End (length ?argv) (fold set_option opts initial))"
    by (rule sopt.scan_words [OF assms, where behind = "[]"]) simp_all
  then show ?thesis by (simp add: processArguments_def)
qed

section \<open>Properties\<close>

text \<open>A command line of well-formed options starts the server with exactly the port and the
  directory it names.\<close>

theorem server_command_line:
  assumes "\<forall>x\<in>set opts. option_valid x" and "c = fold set_option opts initial"
  shows "main_server a0 (cmd # concat (map option_words opts)) w =
     bindIO (start_server a0 (port c) (baseDir c)) (\<lambda>_. retIO 0)
       (w\<lparr>stdout := stdout w @ ''.:: FILE TRANSFER SERVER ::.'' @ [LF]\<rparr>)"
  using server_settings [OF assms(1)] assms(2) by (simp add: main_server_def sys_printf_def)

text \<open>Asking for help starts the server: after the help text the program goes on with the
  settings read so far, as the help branch returns true.\<close>

theorem help_starts_server:
  "\<exists>t. main_server a0 (cmd # ''-h'' # others) w =
     bindIO (start_server a0 5001 ''./'') (\<lambda>_. retIO 0) (w\<lparr>stdout := stdout w @ t\<rparr>)"
proof -
  have "option_turn (cmd # ''-h'' # others) 1 initial = Ret Help" by (simp add: option_turn_def arg_def)
  then have "scan option_turn (cmd # ''-h'' # others) (length (cmd # ''-h'' # others)) 1 initial = Ret (Scan_Help initial)"
    by (intro scan_help) simp_all
  then show ?thesis
    by (auto simp: main_server_def processArguments_def printHelp_def sys_printf_def initial_def)
qed

text \<open>The server reads every command line safely: it is refused, or gives a port between 1 and
  65000 and a directory that fits its array, or it dies of the null pointer behind the
  arguments.\<close>

theorem server_arguments_safe:
  "\<exists>w'. (\<exists>c. processArguments argv w = (Ret (Some c), w') \<and> conf_ok c) \<or>
     processArguments argv w = (Ret None, w') \<or>
     processArguments argv w = (Crash Null_Deref, w')"
proof -
  let ?s = "scan option_turn argv (length argv) 1 initial"
  have run: "processArguments argv w = bindIO (liftR ?s) (\<lambda>r. case r of
         Scan_Help c \<Rightarrow> bindIO (printHelp (argv ! 0)) (\<lambda>_. retIO (Some c))
       | Scan_Refused \<Rightarrow> bindIO (printHelp (argv ! 0)) (\<lambda>_. retIO None)
       | Scan_End i c \<Rightarrow> retIO (Some c)) w"
    by (simp only: processArguments_def)
  from sopt.scan_total [of "length argv" argv 1 initial, OF order_refl] show ?thesis
  proof (elim disjE exE conjE)
    fix t assume t: "?s = Ret t"
    have "conf_ok initial" by (simp add: conf_ok_def initial_def)
    from sopt.scan_inv [OF t this] have inv: "case t of Scan_Help c' \<Rightarrow> conf_ok c' | Scan_Refused \<Rightarrow> True
        | Scan_End j c' \<Rightarrow> conf_ok c'" by (auto split: scanned.splits)
    note r = run [unfolded t bindIO_liftR]
    show ?thesis
    proof (cases t)
      case (Scan_Help c)
      from r inv show ?thesis unfolding Scan_Help by (simp add: printHelp_def sys_printf_def)
    next
      case Scan_Refused
      from r show ?thesis unfolding Scan_Refused by (simp add: printHelp_def sys_printf_def)
    next
      case (Scan_End j c)
      from r inv show ?thesis unfolding Scan_End by simp
    qed
  next
    assume c: "?s = Crash Null_Deref"
    from run [unfolded c] show ?thesis by simp
  qed
qed

text \<open>A port is tested after it was cut to 32 bits: any number that is a valid port plus a
  multiple of 2^32 is accepted for that port, such as 4294972297 for 5001.\<close>

theorem port_wraps:
  assumes "unat minport \<le> n" and "1 \<le> n" and "n \<le> unat maxport" and "k < 2 ^ 30"
  shows "port_of minport maxport (dec (n + k * 2 ^ 32)) = Some (of_nat n)"
proof -
  have l: "n < 2 ^ 32" using assms(3) unsigned_less [of maxport, where 'a = nat] by simp
  then have lt: "n + k * 2 ^ 32 < 2 ^ 63" "n < 2 ^ 63" using assms(4) by simp_all
  have "to_u_int (dec (n + k * 2 ^ 32)) = to_u_int (dec n)"
    by (simp only: to_u_int_dec [OF lt(1)] to_u_int_dec [OF lt(2)] of_nat_wrap32)
  then have "port_of minport maxport (dec (n + k * 2 ^ 32)) = port_of minport maxport (dec n)"
    by (simp only: port_of_def)
  with port_of_number [OF assms(2,1,3)] show ?thesis by simp
qed

theorem port_wraps_witness: "port_of 1 65000 (dec (5001 + 1 * 2 ^ 32)) = Some (of_nat 5001)"
  by (rule port_wraps) simp_all

end
