(* ===== verification/Transfer_Args.thy ===== *)
theory Transfer_Args
  imports Args FileSend
begin

text \<open>
  file_transfer/file_transfer.c and main.c: the command line of the receiver (\<open>-r\<close>) and the
  transmitter (\<open>-t\<close>), and the program.
\<close>

section \<open>The settings\<close>

text \<open>
  \<open>ip_dst\<close> and \<open>ip_listen\<close> are given by their 18 characters; \<open>filename\<close> is filled once, one
  byte short.
\<close>

record transfer_conf =
  mode :: mode_enum
  port :: u16
  debugLevel :: int
  ip_dst :: string
  ip_listen :: string
  filename :: string

definition initial :: transfer_conf where
  "initial = \<lparr>mode = NOT_DEFINE, port = 5001, debugLevel = 1, ip_dst = replicate 18 NUL,
     ip_listen = stpncpy18 ''0.0.0.0'', filename = []\<rparr>"

definition option_turn :: "string list \<Rightarrow> nat \<Rightarrow> transfer_conf \<Rightarrow> transfer_conf turn res" where
  "option_turn argv i c =
     bind_res (arg argv i) (\<lambda>a.
       if a = ''-h'' then Ret Help
       else if a = ''-p'' then
         bind_res (arg argv (i + 1)) (\<lambda>v.
           case port_of 1025 65535 v of
             None \<Rightarrow> Ret Refused
           | Some p \<Rightarrow> Ret (Used 1 (c\<lparr>port := p\<rparr>)))
       else if a = ''-d'' then
         bind_res (arg argv (i + 1)) (\<lambda>d. Ret (Used 1 (c\<lparr>ip_dst := stpncpy18 d\<rparr>)))
       else if is_verbose a then Ret (Used 0 (c\<lparr>debugLevel := verbosity a\<rparr>))
       else if a = ''-i'' then
         bind_res (arg argv (i + 1)) (\<lambda>d. Ret (Used 1 (c\<lparr>ip_listen := stpncpy18 d\<rparr>)))
       else Ret Refused)"

definition mode_of :: "string \<Rightarrow> mode_enum option" where
  "mode_of a = (if a = ''-r'' then Some SERVER else if a = ''-t'' then Some CLIENT else None)"

definition printHelp :: "string \<Rightarrow> unit cio" where
  "printHelp cmd =
     sys_printf (''Use:'' @ TAB # cmd @ '' -r [options] FILENAME for server ( receiver )'' @ [LF] @
     ''Use:'' @ TAB # cmd @ '' -t [options] FILENAME for client ( transmiter ) '' @ [LF] @ [LF] @
     ''Global Options:'' @ [LF] @
     TAB # ''-p'' @ TAB # '' Set port number to work on (Default 5001)'' @ [LF] @
     TAB # ''-v[vvvv]'' @ TAB # '' Increments the verbosity of the server (Default 1)'' @ [LF] @
     TAB # ''-h'' @ TAB # '' Prints this help message'' @ [LF] @
     TAB # ''-i IP_ADDRe'' @ TAB # '' Interface to listen on. (Default 0.0.0.0)'' @ [LF] @
     TAB # ''-d IP_ADDR'' @ TAB # '' Set the IP Dst'' @ [LF] @ [LF])"

text \<open>
  \<open>None\<close> is the return value false. After the options the settings are shown when the level is
  2 or more (lines 103 to 111): to the receiver the address of \<open>-i\<close>, to the transmitter that of
  \<open>-d\<close>, each of which may have been left without a NUL.
\<close>

definition processArguments :: "string list \<Rightarrow> transfer_conf option cio" where
  "processArguments argv =
     (let fails = bindIO (printHelp (argv ! 0)) (\<lambda>_. retIO None)
      in if length argv < 3 then fails
         else case mode_of (argv ! 1) of
           None \<Rightarrow> fails
         | Some m \<Rightarrow>
             bindIO (liftR (scan option_turn argv (length argv - 1) 2 (initial\<lparr>mode := m\<rparr>))) (\<lambda>r.
             case r of
               Scan_Help c \<Rightarrow> bindIO (printHelp (argv ! 0)) (\<lambda>_. retIO (Some c))
             | Scan_Refused \<Rightarrow> fails
             | Scan_End i c \<Rightarrow>
                 bindIO (liftR (arg argv i)) (\<lambda>a.
                 bindIO (liftR (if mode c = SERVER then debug_text (debugLevel c) (ip_listen c)
                                else if mode c = CLIENT then debug_text (debugLevel c) (ip_dst c)
                                else Ret ())) (\<lambda>_.
                 retIO (Some (c\<lparr>filename := strncpy_text a 254\<rparr>))))))"

section \<open>The program\<close>

text \<open>
  The transmitter opens the file before it uses the address, so, unless the settings are shown, an
  address without a NUL is only met when the file could be opened.
\<close>

definition run_client :: "sockaddr_in \<Rightarrow> transfer_conf \<Rightarrow> bool cio" where
  "run_client a0 c =
     (case text_in (ip_dst c) of
        Ret ip \<Rightarrow> start_client a0 ip (ucast (port c)) (filename c)
      | _ \<Rightarrow> bindIO (sys_open_rd (filename c)) (\<lambda>fl.
          if fl = -1 then retIO False else crashIO Out_Of_Bounds))"

definition start :: "sockaddr_in \<Rightarrow> string list \<Rightarrow> int cio" where
  "start a0 argv =
     bindIO (sys_printf (''.:: TCP PING ::.'' @ [LF])) (\<lambda>_.
     bindIO (processArguments argv) (\<lambda>r.
       case r of
         None \<Rightarrow> retIO (-1)
       | Some c \<Rightarrow>
           (case mode c of
              SERVER \<Rightarrow> bindIO (start_server a0 ''0.0.0.0'' (port c) 5 (filename c)) (\<lambda>_. retIO 0)
            | CLIENT \<Rightarrow> bindIO (run_client a0 c) (\<lambda>_. retIO 0)
            | NOT_DEFINE \<Rightarrow> retIO 0)))"

definition main :: "sockaddr_in \<Rightarrow> string list \<Rightarrow> int cio" where
  "main a0 argv = start a0 argv"

section \<open>The loop body meets its contract\<close>

datatype transfer_option = Opt_Port nat | Opt_Dst string | Opt_Listen string | Opt_Verbose nat

fun option_words :: "transfer_option \<Rightarrow> string list" where
  "option_words (Opt_Port n) = [''-p'', dec n]"
| "option_words (Opt_Dst d) = [''-d'', d]"
| "option_words (Opt_Listen d) = [''-i'', d]"
| "option_words (Opt_Verbose n) = [''-v'' @ replicate n (CHR ''v'')]"

fun set_option :: "transfer_option \<Rightarrow> transfer_conf \<Rightarrow> transfer_conf" where
  "set_option (Opt_Port n) c = c\<lparr>port := of_nat n\<rparr>"
| "set_option (Opt_Dst d) c = c\<lparr>ip_dst := stpncpy18 d\<rparr>"
| "set_option (Opt_Listen d) c = c\<lparr>ip_listen := stpncpy18 d\<rparr>"
| "set_option (Opt_Verbose n) c = c\<lparr>debugLevel := int n + 1\<rparr>"

fun option_valid :: "transfer_option \<Rightarrow> bool" where
  "option_valid (Opt_Port n) \<longleftrightarrow> 1025 \<le> n \<and> n \<le> 65535"
| "option_valid _ \<longleftrightarrow> True"

text \<open>What holds of the settings while the options are read.\<close>

definition conf_ok :: "transfer_conf \<Rightarrow> bool" where
  "conf_ok c \<longleftrightarrow> 1025 \<le> unat (port c) \<and> length (ip_dst c) = 18 \<and> mode c \<noteq> NOT_DEFINE"

lemma verbose_i: "\<not> is_verbose ''-i''"
  by (simp add: is_verbose_def)

interpretation topt: option_syntax option_turn conf_ok option_words set_option option_valid
proof (unfold_locales, goal_cases)
  case (1 argv i c k c')
  then show ?case
    using port_of_range [of 1025 65535]
    by (auto simp: option_turn_def arg_def conf_ok_def stpncpy18_def split: if_splits option.splits
        elim!: bind_res_RetE)
next
  case (2 i argv c)
  then show ?case
    by (auto simp: option_turn_def arg_def split: option.split)
next
  case (3 x argv before behind c)
  then show ?case
    by (cases x) (auto simp: option_turn_def arg_def nth_append port_of_number is_verbose_def verbosity_def)
next
  case (4 x)
  then show ?case by (cases x) simp_all
qed

text \<open>The address that is shown has no end, and the settings are shown.\<close>

definition shows_too_much :: "transfer_conf \<Rightarrow> bool" where
  "shows_too_much c \<longleftrightarrow> 2 \<le> debugLevel c \<and> NUL \<notin> set (if mode c = SERVER then ip_listen c else ip_dst c)"

lemma transfer_fold_mode: "mode (fold set_option opts c) = mode c"
proof (induction opts arbitrary: c)
  case (Cons x xs)
  then show ?case by (cases x) simp_all
qed simp

lemma mode_of_defined: "mode_of m = Some md \<Longrightarrow> md \<noteq> NOT_DEFINE"
  by (auto simp: mode_of_def split: if_splits)

lemma transfer_settings:
  assumes "\<forall>x\<in>set opts. option_valid x" and "mode_of m = Some md" and "length fname \<le> 254"
    and "c = fold set_option opts (initial\<lparr>mode := md\<rparr>)"
  shows "processArguments (cmd # m # concat (map option_words opts) @ [fname]) w =
     (if shows_too_much c then Crash Out_Of_Bounds else Ret (Some (c\<lparr>filename := fname\<rparr>)), w)"
proof -
  let ?argv = "cmd # m # concat (map option_words opts) @ [fname]"
  let ?n = "2 + length (concat (map option_words opts))"
  have "scan option_turn ?argv ?n (length [cmd, m]) (initial\<lparr>mode := md\<rparr>) =
      Ret (Scan_End ?n (fold set_option opts (initial\<lparr>mode := md\<rparr>)))"
    by (rule topt.scan_words [OF assms(1), where behind = "[fname]"]) simp_all
  moreover have "mode c = md" by (simp add: assms(4) transfer_fold_mode)
  ultimately show ?thesis
    using assms(2,3) mode_of_defined [OF assms(2)] unfolding assms(4) [symmetric]
    by (cases md) (simp_all add: processArguments_def Let_def arg_def nth_append strncpy_text_def numeral_2_eq_2
        shows_too_much_def debug_text_def)
qed

lemma start_run:
  assumes "\<forall>x\<in>set opts. option_valid x" and "mode_of m = Some md" and "length fname \<le> 254"
    and "c = fold set_option opts (initial\<lparr>mode := md\<rparr>)"
  shows "main a0 (cmd # m # concat (map option_words opts) @ [fname]) w =
     (if shows_too_much c then crashIO Out_Of_Bounds
      else if md = SERVER
      then bindIO (start_server a0 ''0.0.0.0'' (port c) 5 fname) (\<lambda>_. retIO 0)
      else bindIO (run_client a0 (c\<lparr>filename := fname\<rparr>)) (\<lambda>_. retIO 0))
     (w\<lparr>stdout := stdout w @ ''.:: TCP PING ::.'' @ [LF]\<rparr>)"
proof -
  let ?w = "w\<lparr>stdout := stdout w @ ''.:: TCP PING ::.'' @ [LF]\<rparr>"
  have p: "sys_printf (''.:: TCP PING ::.'' @ [LF]) w = (Ret (), ?w)" by (simp add: sys_printf_def)
  have m: "mode (c\<lparr>filename := fname\<rparr>) = md" by (simp add: assms(4) transfer_fold_mode)
  note st = transfer_settings [OF assms, of cmd ?w]
  show ?thesis
  proof (cases "shows_too_much c")
    case True
    with st show ?thesis
      unfolding main_def start_def bindIO_Ret [where m = "sys_printf _", OF p] by (simp add: bindIO_def crashIO_def)
  next
    case False
    with st have ok: "processArguments (cmd # m # concat (map option_words opts) @ [fname]) ?w = (Ret (Some (c\<lparr>filename := fname\<rparr>)), ?w)"
      by simp
    from False mode_of_defined [OF assms(2)] show ?thesis
      unfolding main_def start_def bindIO_Ret [where m = "sys_printf _", OF p]
        bindIO_Ret [where m = "processArguments _", OF ok] option.case m
      by (cases md) simp_all
  qed
qed

text \<open>The last address given stands.\<close>

lemma ip_dst_last: "ip_dst (fold set_option (opts @ [Opt_Dst d]) c) = stpncpy18 d"
  by simp

lemma set_option_mode: "set_option x (e\<lparr>mode := md\<rparr>) = (set_option x e)\<lparr>mode := md\<rparr>"
  by (cases x) simp_all

lemma fold_option_mode: "fold set_option xs (e\<lparr>mode := md\<rparr>) = (fold set_option xs e)\<lparr>mode := md\<rparr>"
  by (induction xs arbitrary: e) (simp_all add: set_option_mode)

section \<open>Properties\<close>

text \<open>
  C35: The command line decides what the program does. With \<open>-r\<close> the receiver runs with the port
  and the file it names and listens on 0.0.0.0 whatever address \<open>-i\<close> gives: the only effect that
  \<open>-i\<close> can have is that a text of 18 characters or more, which fills its array without a NUL, is
  read past its end when the verbosity is 2 or more. With \<open>-t\<close> the transmitter runs with the port,
  the file and the (last) address it names, of at most 17 characters, at any verbosity. (File names
  have at most 254 characters.) In both
  cases \<open>main\<close> returns 0 when the receiver or the transmitter has returned, not 1 as its comment says.
\<close>

theorem transfer_command_line:
  assumes "\<forall>x\<in>set opts. option_valid x" and "length fname \<le> 254"
    and "NUL \<notin> set d" and "length d < 18"
    and "w' = w\<lparr>stdout := stdout w @ ''.:: TCP PING ::.'' @ [LF]\<rparr>"
    and "c = fold set_option opts initial"
  shows "main a0 (cmd # ''-r'' # concat (map option_words opts) @ [fname]) w =
       (if 2 \<le> debugLevel c \<and> NUL \<notin> set (ip_listen c) then (Crash Out_Of_Bounds, w')
        else bindIO (start_server a0 ''0.0.0.0'' (port c) 5 fname) (\<lambda>_. retIO 0) w') \<and>
     main a0 (cmd # ''-t'' # concat (map option_words (opts @ [Opt_Dst d])) @ [fname]) w =
       bindIO (start_client a0 d (ucast (port c)) fname) (\<lambda>_. retIO 0) w'"
proof
  have c: "fold set_option opts (initial\<lparr>mode := md\<rparr>) = c\<lparr>mode := md\<rparr>" for md
    by (simp add: fold_option_mode assms(6))
  show "main a0 (cmd # ''-r'' # concat (map option_words opts) @ [fname]) w =
       (if 2 \<le> debugLevel c \<and> NUL \<notin> set (ip_listen c) then (Crash Out_Of_Bounds, w')
        else bindIO (start_server a0 ''0.0.0.0'' (port c) 5 fname) (\<lambda>_. retIO 0) w')"
    using start_run [OF assms(1) _ assms(2) refl, of "''-r''" SERVER] assms(5)
    by (simp add: mode_of_def c shows_too_much_def crashIO_def)
  have "\<forall>x\<in>set (opts @ [Opt_Dst d]). option_valid x" using assms(1) by simp
  from start_run [OF this _ assms(2) refl, of "''-t''" CLIENT]
  show "main a0 (cmd # ''-t'' # concat (map option_words (opts @ [Opt_Dst d])) @ [fname]) w =
       bindIO (start_client a0 d (ucast (port c)) fname) (\<lambda>_. retIO 0) w'"
    using assms(3-5) by (simp add: mode_of_def run_client_def text_in_stpncpy c shows_too_much_def NUL_stpncpy)
qed

text \<open>A receiver with an address of 18 characters, quiet and with \<open>-vv\<close>; a transmitter.\<close>

theorem transfer_command_line_witness:
  "\<forall>a0 w. main a0 [''ft'', ''-r'', ''-i'', ''192.168.100.100.10'', ''-p'', dec 6000, ''f''] w =
       bindIO (start_server a0 ''0.0.0.0'' 6000 5 ''f'') (\<lambda>_. retIO 0)
         (w\<lparr>stdout := stdout w @ ''.:: TCP PING ::.'' @ [LF]\<rparr>) \<and>
     main a0 [''ft'', ''-r'', ''-i'', ''192.168.100.100.10'', ''-vv'', ''f''] w =
       (Crash Out_Of_Bounds, w\<lparr>stdout := stdout w @ ''.:: TCP PING ::.'' @ [LF]\<rparr>) \<and>
     main a0 [''ft'', ''-t'', ''-i'', ''192.168.100.100.10'', ''-p'', dec 6000, ''-d'', ''10.0.0.2'', ''f''] w =
       bindIO (start_client a0 ''10.0.0.2'' 6000 ''f'') (\<lambda>_. retIO 0)
         (w\<lparr>stdout := stdout w @ ''.:: TCP PING ::.'' @ [LF]\<rparr>)"
proof (intro allI)
  fix a0 w
  note full = NUL_stpncpy [of "''192.168.100.100.10''"]
  from transfer_command_line [of "[Opt_Listen ''192.168.100.100.10'', Opt_Port 6000]" "''f''" "''10.0.0.2''" _ w,
      OF _ _ _ _ refl refl, of a0 "''ft''"]
    transfer_command_line [of "[Opt_Listen ''192.168.100.100.10'', Opt_Verbose 1]" "''f''" "''10.0.0.2''" _ w,
      OF _ _ _ _ refl refl, of a0 "''ft''"]
  show "main a0 [''ft'', ''-r'', ''-i'', ''192.168.100.100.10'', ''-p'', dec 6000, ''f''] w =
       bindIO (start_server a0 ''0.0.0.0'' 6000 5 ''f'') (\<lambda>_. retIO 0)
         (w\<lparr>stdout := stdout w @ ''.:: TCP PING ::.'' @ [LF]\<rparr>) \<and>
     main a0 [''ft'', ''-r'', ''-i'', ''192.168.100.100.10'', ''-vv'', ''f''] w =
       (Crash Out_Of_Bounds, w\<lparr>stdout := stdout w @ ''.:: TCP PING ::.'' @ [LF]\<rparr>) \<and>
     main a0 [''ft'', ''-t'', ''-i'', ''192.168.100.100.10'', ''-p'', dec 6000, ''-d'', ''10.0.0.2'', ''f''] w =
       bindIO (start_client a0 ''10.0.0.2'' 6000 ''f'') (\<lambda>_. retIO 0)
         (w\<lparr>stdout := stdout w @ ''.:: TCP PING ::.'' @ [LF]\<rparr>)"
    using full by (simp add: initial_def)
qed

text \<open>An address of 18 characters or more fills its array without a NUL: once the file is open the
  transmitter reads past the end of the array, or before that when the settings are shown.\<close>

theorem address_unterminated:
  assumes "\<forall>x\<in>set opts. option_valid x" and "length fname \<le> 254" and "NUL \<notin> set d" and "18 \<le> length d"
    and "files w fname = Some fl" and "next_fd w \<noteq> -1"
  shows "fst (main a0 (cmd # ''-t'' # concat (map option_words (opts @ [Opt_Dst d])) @ [fname]) w) = Crash Out_Of_Bounds"
proof -
  have "\<forall>x\<in>set (opts @ [Opt_Dst d]). option_valid x" using assms(1) by simp
  from start_run [OF this _ assms(2) refl, of "''-t''" CLIENT] show ?thesis
    using assms(3-6) by (simp add: mode_of_def run_client_def text_in_full bindIO_assoc crashIO_def)
      (simp add: bindIO_def sys_open_rd_def)
qed

end
