(* ===== verification/Ping_Args.thy ===== *)
theory Ping_Args
  imports Args Ping
begin

text \<open>
  tcp_ping/tcp_ping.c and main.c: the command line of the server (\<open>-s\<close>) and the client
  (\<open>-c\<close>), and the program.
\<close>

section \<open>The settings\<close>

text \<open>\<open>ip_dst\<close> is given by its 18 characters.\<close>

record ping_conf =
  mode :: mode_enum
  port :: u16
  debugLevel :: int
  msg_count :: u32
  msg_size :: u32
  ip_dst :: string

definition initial :: ping_conf where
  "initial = \<lparr>mode = NOT_DEFINE, port = 5001, debugLevel = 1, msg_count = 5, msg_size = 64,
     ip_dst = replicate 18 NUL\<rparr>"

definition option_turn :: "string list \<Rightarrow> nat \<Rightarrow> ping_conf \<Rightarrow> ping_conf turn res" where
  "option_turn argv i c =
     bind_res (arg argv i) (\<lambda>a.
       if a = ''-h'' then Ret Help
       else if a = ''-p'' then
         bind_res (arg argv (i + 1)) (\<lambda>v.
           case port_of 1025 65535 v of
             None \<Rightarrow> Ret Refused
           | Some p \<Rightarrow> Ret (Used 1 (c\<lparr>port := p\<rparr>)))
       else if a = ''-n'' then
         bind_res (arg argv (i + 1)) (\<lambda>v.
           let temp = to_u_int v
           in if temp \<le> 0 then Ret Refused else Ret (Used 1 (c\<lparr>msg_count := temp\<rparr>)))
       else if a = ''-s'' then
         bind_res (arg argv (i + 1)) (\<lambda>v.
           let temp = to_u_int v
           in if temp = 0 then Ret Refused else Ret (Used 1 (c\<lparr>msg_size := temp\<rparr>)))
       else if a = ''-d'' then
         bind_res (arg argv (i + 1)) (\<lambda>d. Ret (Used 1 (c\<lparr>ip_dst := stpncpy18 d\<rparr>)))
       else if is_verbose a then Ret (Used 0 (c\<lparr>debugLevel := verbosity a\<rparr>))
       else Ret Refused)"

definition mode_of :: "string \<Rightarrow> mode_enum option" where
  "mode_of a = (if a = ''-s'' then Some SERVER else if a = ''-c'' then Some CLIENT else None)"

definition printHelp :: "string \<Rightarrow> unit cio" where
  "printHelp cmd =
     sys_printf (''Use:'' @ TAB # cmd @ '' -s [options]'' @ [LF] @
     ''Use:'' @ TAB # cmd @ '' -c [options]'' @ [LF] @ [LF] @
     ''Modes:'' @ [LF] @ TAB # ''-s'' @ TAB # '' For Server Mode'' @ [LF] @
     TAB # ''-c'' @ TAB # '' For Client Mode'' @ [LF] @ [LF] @
     ''Global Options:'' @ [LF] @
     TAB # ''-p'' @ TAB # '' Set port number to work on (Default 5001)'' @ [LF] @
     TAB # ''-v[vvvv]'' @ TAB # '' Increments the verbosity of the server (Default 1)'' @ [LF] @
     TAB # ''-h'' @ TAB # '' Prints this help message'' @ [LF] @ [LF] @
     ''Client Options:'' @ [LF] @
     TAB # ''-n'' @ TAB # '' Set the number of ping msg to send (Default 5)'' @ [LF] @
     TAB # ''-s size'' @ TAB # '' Set the size on KBs of the msg (Default 64)'' @ [LF] @
     TAB # ''-d IP_ADDR'' @ TAB # '' Set the IP Dst'' @ [LF] @ [LF])"

text \<open>\<open>None\<close> is the return value false. At level 2 and above the client's settings are shown, the
  address among them (lines 113 to 123).\<close>

definition processArguments :: "string list \<Rightarrow> ping_conf option cio" where
  "processArguments argv =
     (let fails = bindIO (printHelp (argv ! 0)) (\<lambda>_. retIO None)
      in if length argv < 2 then fails
         else case mode_of (argv ! 1) of
           None \<Rightarrow> fails
         | Some m \<Rightarrow>
             bindIO (liftR (scan option_turn argv (length argv) 2 (initial\<lparr>mode := m\<rparr>))) (\<lambda>r.
             case r of
               Scan_Help c \<Rightarrow> bindIO (printHelp (argv ! 0)) (\<lambda>_. retIO (Some c))
             | Scan_Refused \<Rightarrow> fails
             | Scan_End i c \<Rightarrow>
                 bindIO (liftR (if mode c = CLIENT then debug_text (debugLevel c) (ip_dst c) else Ret ())) (\<lambda>_.
                 retIO (Some c))))"

section \<open>The program\<close>

text \<open>The first round reads the clock before it reads the address.\<close>

definition run_client :: "sockaddr_in \<Rightarrow> ping_conf \<Rightarrow> bool cio" where
  "run_client a0 c =
     (case text_in (ip_dst c) of
        Ret ip \<Rightarrow> start_client a0 ip (ucast (port c)) (msg_count c) (msg_size c)
      | _ \<Rightarrow> if msg_count c = 0 then retIO True
             else bindIO currentTimeMillis (\<lambda>_. crashIO Out_Of_Bounds))"

definition start :: "sockaddr_in \<Rightarrow> string list \<Rightarrow> int cio" where
  "start a0 argv =
     bindIO (sys_printf (''.:: TCP PING ::.'' @ [LF])) (\<lambda>_.
     bindIO (processArguments argv) (\<lambda>r.
       case r of
         None \<Rightarrow> retIO (-1)
       | Some c \<Rightarrow>
           (case mode c of
              SERVER \<Rightarrow> bindIO (start_server a0 ''0.0.0.0'' (port c) 5) (\<lambda>_. retIO 0)
            | CLIENT \<Rightarrow> bindIO (run_client a0 c) (\<lambda>_. retIO 0)
            | NOT_DEFINE \<Rightarrow> retIO 0)))"

definition main :: "sockaddr_in \<Rightarrow> string list \<Rightarrow> int cio" where
  "main a0 argv = start a0 argv"

section \<open>The loop body meets its contract\<close>

datatype ping_option = Opt_Port nat | Opt_Count nat | Opt_Size nat | Opt_Dst string | Opt_Verbose nat

fun option_words :: "ping_option \<Rightarrow> string list" where
  "option_words (Opt_Port n) = [''-p'', dec n]"
| "option_words (Opt_Count n) = [''-n'', dec n]"
| "option_words (Opt_Size n) = [''-s'', dec n]"
| "option_words (Opt_Dst d) = [''-d'', d]"
| "option_words (Opt_Verbose n) = [''-v'' @ replicate n (CHR ''v'')]"

fun set_option :: "ping_option \<Rightarrow> ping_conf \<Rightarrow> ping_conf" where
  "set_option (Opt_Port n) c = c\<lparr>port := of_nat n\<rparr>"
| "set_option (Opt_Count n) c = c\<lparr>msg_count := of_nat n\<rparr>"
| "set_option (Opt_Size n) c = c\<lparr>msg_size := of_nat n\<rparr>"
| "set_option (Opt_Dst d) c = c\<lparr>ip_dst := stpncpy18 d\<rparr>"
| "set_option (Opt_Verbose n) c = c\<lparr>debugLevel := int n + 1\<rparr>"

fun option_valid :: "ping_option \<Rightarrow> bool" where
  "option_valid (Opt_Port n) \<longleftrightarrow> 1025 \<le> n \<and> n \<le> 65535"
| "option_valid (Opt_Count n) \<longleftrightarrow> 1 \<le> n \<and> n < 2 ^ 32"
| "option_valid (Opt_Size n) \<longleftrightarrow> 1 \<le> n \<and> n < 2 ^ 32"
| "option_valid _ \<longleftrightarrow> True"

definition conf_ok :: "ping_conf \<Rightarrow> bool" where
  "conf_ok c \<longleftrightarrow> 1025 \<le> unat (port c) \<and> msg_count c \<noteq> 0 \<and> msg_size c \<noteq> 0 \<and> length (ip_dst c) = 18 \<and>
     mode c \<noteq> NOT_DEFINE"

lemma u32_number:
  assumes "1 \<le> n" and "n < 2 ^ 32"
  shows "to_u_int (dec n) = of_nat n" and "(of_nat n :: u32) \<noteq> 0"
proof -
  show "to_u_int (dec n) = of_nat n" using assms(2) by (intro to_u_int_dec) simp
  show "(of_nat n :: u32) \<noteq> 0" using unat_of_nat32 [OF assms(2)] assms(1) by auto
qed

interpretation popt: option_syntax option_turn conf_ok option_words set_option option_valid
proof (unfold_locales, goal_cases)
  case (1 argv i c k c')
  then show ?case
    using port_of_range [of 1025 65535]
    by (auto simp: option_turn_def arg_def conf_ok_def stpncpy18_def Let_def split: if_splits option.splits
        elim!: bind_res_RetE)
next
  case (2 i argv c)
  then show ?case
    by (auto simp: option_turn_def arg_def Let_def split: option.split)
next
  case (3 x argv before behind c)
  then show ?case
    by (cases x) (auto simp: option_turn_def arg_def nth_append port_of_number u32_number is_verbose_def
        verbosity_def Let_def)
next
  case (4 x)
  then show ?case by (cases x) simp_all
qed

lemma ping_fold_mode: "mode (fold set_option opts c) = mode c"
proof (induction opts arbitrary: c)
  case (Cons x xs)
  then show ?case by (cases x) simp_all
qed simp

definition shows_too_much :: "ping_conf \<Rightarrow> bool" where
  "shows_too_much c \<longleftrightarrow> mode c = CLIENT \<and> 2 \<le> debugLevel c \<and> NUL \<notin> set (ip_dst c)"

lemma ping_settings:
  assumes "\<forall>x\<in>set opts. option_valid x" and "mode_of m = Some md"
    and "c = fold set_option opts (initial\<lparr>mode := md\<rparr>)"
  shows "processArguments (cmd # m # concat (map option_words opts)) w =
     (if shows_too_much c then Crash Out_Of_Bounds else Ret (Some c), w)"
proof -
  let ?argv = "cmd # m # concat (map option_words opts)"
  have "scan option_turn ?argv (length ?argv) (length [cmd, m]) (initial\<lparr>mode := md\<rparr>) =
      Ret (Scan_End (length ?argv) (fold set_option opts (initial\<lparr>mode := md\<rparr>)))"
    by (rule popt.scan_words [OF assms(1), where behind = "[]"]) simp_all
  then show ?thesis
    using assms(2) unfolding assms(3) [symmetric]
    by (simp add: processArguments_def Let_def numeral_2_eq_2 shows_too_much_def debug_text_def)
qed

section \<open>Properties\<close>

text \<open>The command line decides what the program does: with \<open>-s\<close> it answers on the port it names;
  with \<open>-c\<close> it sends the number of messages, of the size, to the address and port it names, and
  an address that fills its array is read past the end, at level 2 when the settings are shown.\<close>

theorem ping_command_line:
  assumes "\<forall>x\<in>set opts. option_valid x" and "mode_of m = Some md"
    and "c = fold set_option opts (initial\<lparr>mode := md\<rparr>)"
  shows "main a0 (cmd # m # concat (map option_words opts)) w =
     (if shows_too_much c then crashIO Out_Of_Bounds
      else if md = SERVER then bindIO (start_server a0 ''0.0.0.0'' (port c) 5) (\<lambda>_. retIO 0)
      else bindIO (run_client a0 c) (\<lambda>_. retIO 0))
     (w\<lparr>stdout := stdout w @ ''.:: TCP PING ::.'' @ [LF]\<rparr>)"
proof -
  let ?w = "w\<lparr>stdout := stdout w @ ''.:: TCP PING ::.'' @ [LF]\<rparr>"
  have p: "sys_printf (''.:: TCP PING ::.'' @ [LF]) w = (Ret (), ?w)" by (simp add: sys_printf_def)
  have m: "mode c = md" by (simp add: assms(3) ping_fold_mode)
  note st = ping_settings [OF assms, of cmd ?w]
  have md: "md \<noteq> NOT_DEFINE" using assms(2) by (auto simp: mode_of_def split: if_splits)
  show ?thesis
  proof (cases "shows_too_much c")
    case True
    with st show ?thesis
      unfolding main_def start_def bindIO_Ret [where m = "sys_printf _", OF p] by (simp add: bindIO_def crashIO_def)
  next
    case False
    with st have ok: "processArguments (cmd # m # concat (map option_words opts)) ?w = (Ret (Some c), ?w)" by simp
    from False md show ?thesis
      unfolding main_def start_def bindIO_Ret [where m = "sys_printf _", OF p]
        bindIO_Ret [where m = "processArguments _", OF ok] option.case m
      by (cases md) simp_all
  qed
qed

end
