(* ===== verification/Echo.thy ===== *)
theory Echo
  imports Netlib Args
begin

text \<open>
  simple_socket/echo_server.c: a server that sends back what each read returns until a read
  returns exactly the line \<open>QUIT\<close>, one client after the other.
\<close>

section \<open>One connection\<close>

definition quit_line :: string where
  "quit_line = ''QUIT'' @ crlf"

text \<open>
  Lines 92 to 101. \<open>mensaje\<close> is cleared before each read of at most 255 bytes, so as a string
  it is what was read up to its first NUL; a message without one differs from the line
  before its end.
\<close>

function echo_conn :: "int \<Rightarrow> unit cio" where
  "echo_conn clientSocket w =
     bindIO (sys_read clientSocket 255) (\<lambda>r w1.
       let mensaje = (case r of None \<Rightarrow> [] | Some bs \<Rightarrow> bs) in
       bindIO (if mensaje \<noteq> [] then sys_write clientSocket mensaje 0 (length mensaje) else retIO 0) (\<lambda>_ w2.
         if c_string mensaje \<noteq> quit_line then echo_conn clientSocket w2 else (Ret (), w2)) w1) w"
  by pat_completeness auto
termination
proof (relation "measure (\<lambda>(fd, w). rd_size (rds w fd))")
  fix fd w r w1 m x w2
  assume rd: "sys_read fd 255 w = (Ret r, w1)"
    and wr: "(if m \<noteq> [] then sys_write fd m 0 (length m) else retIO 0) w1 = (Ret x, w2)"
  have "rds w2 = rds w1" using wr by (auto simp: sys_write_def split: if_splits list.splits wr.splits)
  with sys_read_decreases [OF rd] show "((fd, w2), fd, w) \<in> measure (\<lambda>(fd, w). rd_size (rds w fd))" by simp
qed simp

declare echo_conn.simps [simp del]

section \<open>The program\<close>

definition o_acute :: string where
  "o_acute = [CHR 0xC3, CHR 0xB3]"

text \<open>
  Lines 78 to 105. Each turn uses up one answer of \<open>accept\<close>, so one more than their number
  bounds the turns (\<open>accept_turns\<close> below).
\<close>

fun accept_turns :: "nat \<Rightarrow> int \<Rightarrow> int cio" where
  "accept_turns 0 mySocket w = (No_Fuel, w)"
| "accept_turns (Suc n) mySocket w =
     bindIO (sys_printf (''Esperamos una conexi'' @ o_acute @ ''n'')) (\<lambda>_.
     bindIO (sys_accept mySocket) (\<lambda>a.
       let clientSocket = (case a of Acc_Err \<Rightarrow> -1 | Acc c _ \<Rightarrow> c) in
       if clientSocket = -1 then bindIO (sys_close mySocket) (\<lambda>_. retIO (-1))
       else bindIO (sys_printf (''Tenemos una Conexi'' @ o_acute @ ''n'' @ [LF])) (\<lambda>_.
            bindIO (echo_conn clientSocket) (\<lambda>_.
            bindIO (sys_printf (''Cerramos el Socket del cliente'' @ [LF])) (\<lambda>_.
            bindIO (sys_close clientSocket) (\<lambda>_.
            accept_turns n mySocket)))))) w"

lemma unbounded_echo_conn [unbd]: "unbounded (echo_conn fd)"
proof -
  have "fuelled (fst (echo_conn fd w))" for w
  proof (induction fd w rule: echo_conn.induct)
    case (1 fd w)
    then show ?case
      by (subst echo_conn.simps, unfold Let_def, intro unbounded_bind_at unboundedD [OF unbounded_sys(1)])
        (auto intro!: unboundedD [OF unbounded_sys(2)])
  qed
  then show ?thesis by (simp add: unbounded_def)
qed

lemma keeps_echo_conn [evolve]: "keeps evolves (echo_conn fd)"
proof (rule keepsI)
  fix w show "evolves w (snd (echo_conn fd w))"
  proof (induction fd w rule: echo_conn.induct)
    case (1 fd w)
    then show ?case
      by (subst echo_conn.simps, unfold Let_def, intro evolves_bind evolve) auto
  qed
qed

text \<open>
  Both servers of simple_socket accept in turns: something first, then \<open>accept\<close>, then the
  conversation. Each turn uses up one answer of \<open>accept\<close>.
\<close>

locale turn_loop =
  fixes loop :: "nat \<Rightarrow> int \<Rightarrow> int cio" and prepare :: "unit cio" and converse :: "int \<Rightarrow> unit cio"
  assumes turn: "loop (Suc n) s w =
      bindIO prepare (\<lambda>_.
      bindIO (sys_accept s) (\<lambda>a.
        let c = (case a of Acc_Err \<Rightarrow> -1 | Acc c _ \<Rightarrow> c) in
        if c = -1 then bindIO (sys_close s) (\<lambda>_. retIO (-1))
        else bindIO (converse c) (\<lambda>_. loop n s))) w"
    and prepares: "unbounded prepare" "keeps evolves prepare"
    and converses: "unbounded (converse c)" "keeps evolves (converse c)"
begin

lemma turns_end: "length (accepts w) < n \<Longrightarrow> fuelled (fst (loop n s w))"
proof (induction n arbitrary: w)
  case (Suc n)
  show ?case unfolding turn
  proof (intro unbounded_bind_at unboundedD [OF prepares(1)] unboundedD [OF unbounded_sys(10)])
    fix u w1 a w2
    assume p: "prepare w = (Ret u, w1)" and acc: "sys_accept s w1 = (Ret a, w2)"
    have "length (accepts w1) \<le> length (accepts w)"
      using keepsD [OF prepares(2) p] by (auto simp: evolves_def dest: suffix_length_le)
    moreover have "length (accepts w2) < length (accepts w1)" using acc by (auto simp: sys_accept_def split: list.splits)
    ultimately have lt: "length (accepts w2) < n" using Suc.prems by simp
    have "fuelled (fst (bindIO (converse c) (\<lambda>_. loop n s) w2))" for c
    proof (intro unbounded_bind_at unboundedD [OF converses(1)])
      fix u w3 assume "converse c w2 = (Ret u, w3)"
      from keepsD [OF converses(2) this] lt have "length (accepts w3) < n"
        by (auto simp: evolves_def dest: suffix_length_le)
      then show "fuelled (fst (loop n s w3))" by (rule Suc.IH)
    qed
    then show "fuelled (fst ((let c = case a of Acc_Err \<Rightarrow> -1 | Acc c _ \<Rightarrow> c in
        if c = -1 then bindIO (sys_close s) (\<lambda>_. retIO (-1)) else bindIO (converse c) (\<lambda>_. loop n s)) w2))"
      by (simp add: Let_def sys_close_def)
  qed
qed simp

end

lemma bindIO_flat: "bindIO (bindIO m k) h = bindIO m (\<lambda>x. bindIO (k x) h)"
  by (rule ext) (rule bindIO_assoc)

interpretation echo: turn_loop accept_turns "sys_printf (''Esperamos una conexi'' @ o_acute @ ''n'')"
  "\<lambda>c. bindIO (sys_printf (''Tenemos una Conexi'' @ o_acute @ ''n'' @ [LF])) (\<lambda>_.
       bindIO (echo_conn c) (\<lambda>_.
       bindIO (sys_printf (''Cerramos el Socket del cliente'' @ [LF])) (\<lambda>_.
       sys_close c)))"
  by unfold_locales
    (simp only: accept_turns.simps bindIO_flat Let_def, (intro unbd | intro evolve)+)

definition any_addr :: "u32 \<Rightarrow> sockaddr_in" where
  "any_addr port = \<lparr>sin_family = AF_INET, sin_port = htons (ucast port), sin_addr = [0, 0, 0, 0],
     sin_zero = replicate 8 NUL\<rparr>"

text \<open>A socket that could not be created (-1) is reported and used all the same.\<close>

definition main :: "string list \<Rightarrow> int cio" where
  "main argv =
     (if length argv \<noteq> 2 then retIO (-1)
      else
        let port = to_u_int (argv ! 1) in
        if port < 1 \<or> 65535 < port then retIO (-1)
        else bindIO sys_socket (\<lambda>mySocket.
             bindIO (sys_bind mySocket (any_addr port)) (\<lambda>status.
               if status \<noteq> 0 then bindIO (sys_close mySocket) (\<lambda>_. retIO (-1))
               else bindIO (sys_listen mySocket 5) (\<lambda>status.
                 if status = -1 then bindIO (sys_close mySocket) (\<lambda>_. retIO (-1))
                 else (\<lambda>w. accept_turns (Suc (length (accepts w))) mySocket w)))))"

text \<open>The bound on the turns is never reached.\<close>

lemma main_fuelled: "fuelled (fst (main argv w))"
  unfolding main_def Let_def
  by (auto intro!: unbounded_bind_at unboundedD [OF unbounded_net(1)] unboundedD [OF unbounded_net(2)]
      unboundedD [OF unbounded_net(3)] unboundedD [OF unbounded_sys(6)] echo.turns_end simp del: accept_turns.simps)

section \<open>One connection, run\<close>

text \<open>A descriptor whose next \<open>n\<close> writes accept whatever a message holds.\<close>

definition roomy :: "wr list \<Rightarrow> nat \<Rightarrow> bool" where
  "roomy a n \<longleftrightarrow> n \<le> length a \<and> (\<forall>x\<in>set (take n a). \<exists>k\<ge>255. x = Wr_Acc k)"

lemma roomy_Suc:
  assumes "roomy a (Suc n)"
  obtains k r where "a = Wr_Acc k # r" and "255 \<le> k" and "roomy r n"
  using assms by (cases a) (auto simp: roomy_def)

definition message :: "string \<Rightarrow> bool" where
  "message c \<longleftrightarrow> c \<noteq> [] \<and> length c \<le> 255"

lemma echo_turn:
  assumes "rds w fd = Rd_Data c # q" and "message c" and "wrs w fd = Wr_Acc k # r" and "255 \<le> k"
  shows "echo_conn fd w =
     (if c_string c = quit_line then (Ret (), wrote fd c 1 (with_rds fd q w))
      else echo_conn fd (wrote fd c 1 (with_rds fd q w)))"
proof -
  have "sys_read fd 255 w = (Ret (Some c), with_rds fd q w)"
    using assms(1,2) by (simp add: sys_read_def message_def with_rds_def)
  moreover have "sys_write fd c 0 (length c) (with_rds fd q w) = (Ret (int (length c)), wrote fd c 1 (with_rds fd q w))"
    using sys_write_acc [of "with_rds fd q w" fd k r 0 "length c" c] assms(2-4) by (simp add: message_def)
  ultimately show ?thesis
    using assms(2) by (subst echo_conn.simps) (simp add: message_def)
qed

lemma echo_messages:
  assumes "\<forall>c\<in>set cs. message c \<and> c_string c \<noteq> quit_line"
    and "rds w fd = map Rd_Data cs @ q" and "roomy (wrs w fd) (length cs + n)"
  shows "echo_conn fd w = echo_conn fd (wrote fd (concat cs) (length cs) (with_rds fd q w)) \<and>
    roomy (drop (length cs) (wrs w fd)) n"
  using assms
proof (induction cs arbitrary: w)
  case Nil
  then show ?case by simp
next
  case (Cons c cs)
  from Cons.prems(3) obtain k r where a: "wrs w fd = Wr_Acc k # r" "255 \<le> k" "roomy r (length cs + n)"
    by (auto elim: roomy_Suc)
  let ?w = "wrote fd c 1 (with_rds fd (map Rd_Data cs @ q) w)"
  have "echo_conn fd w = echo_conn fd ?w"
    using echo_turn [OF _ _ a(1,2), of c "map Rd_Data cs @ q"] Cons.prems(1,2) by simp
  moreover have "echo_conn fd ?w = echo_conn fd (wrote fd (concat cs) (length cs) (with_rds fd q ?w)) \<and>
      roomy (drop (length cs) (wrs ?w fd)) n"
    using Cons.prems(1) a(1,3) by (intro Cons.IH) simp_all
  ultimately show ?case using a(1) by (simp add: with_rds_wrote)
qed

lemma echo_session_run:
  assumes "\<forall>c\<in>set cs. message c \<and> c_string c \<noteq> quit_line" and "message m" and "c_string m = quit_line"
    and "rds w fd = map Rd_Data cs @ Rd_Data m # q" and "roomy (wrs w fd) (length cs + 1)"
  shows "echo_conn fd w = (Ret (), wrote fd (concat cs @ m) (length cs + 1) (with_rds fd q w))"
proof -
  let ?w = "wrote fd (concat cs) (length cs) (with_rds fd (Rd_Data m # q) w)"
  from echo_messages [OF assms(1,4,5)] have e: "echo_conn fd w = echo_conn fd ?w"
    and r: "roomy (drop (length cs) (wrs w fd)) (Suc 0)" by simp_all
  from r obtain k l where "drop (length cs) (wrs w fd) = Wr_Acc k # l" "255 \<le> k" by (auto elim: roomy_Suc)
  with echo_turn [of ?w fd m q k l] assms(2,3) e show ?thesis by (simp add: with_rds_wrote)
qed

text \<open>Ends of file and errors change nothing.\<close>

lemma echo_idle:
  assumes "\<forall>a\<in>set es. a = Rd_Err \<or> a = Rd_Data []" and "rds w fd = es"
  shows "echo_conn fd w = (Blocked, with_rds fd [] w)"
  using assms
proof (induction es arbitrary: w)
  case Nil
  then show ?case by (subst echo_conn.simps) (simp add: sys_read_Nil)
next
  case (Cons e es)
  let ?w = "with_rds fd es w"
  have "\<exists>r. sys_read fd 255 w = (Ret r, ?w) \<and> (case r of None \<Rightarrow> [] | Some bs \<Rightarrow> bs) = []"
    using Cons.prems by (auto simp: sys_read_def with_rds_def)
  then obtain r where "sys_read fd 255 w = (Ret r, ?w)" "(case r of None \<Rightarrow> [] | Some bs \<Rightarrow> bs) = []" by blast
  then have "echo_conn fd w = echo_conn fd ?w"
    by (subst echo_conn.simps) (simp add: c_string_def quit_line_def)
  moreover have "echo_conn fd ?w = (Blocked, with_rds fd [] ?w)" using Cons.prems by (intro Cons.IH) simp_all
  ultimately show ?case by simp
qed

section \<open>The program, run\<close>

text \<open>A system on which the set-up succeeds and one client connects.\<close>

definition one_client :: "int \<Rightarrow> int \<Rightarrow> sockaddr_in \<Rightarrow> os \<Rightarrow> bool" where
  "one_client s c a w \<longleftrightarrow> socks w = [s] \<and> binds w = [0] \<and> listens w = [0] \<and> accepts w = [Acc c a] \<and> c \<noteq> -1"

definition greeted :: "int \<Rightarrow> u32 \<Rightarrow> os \<Rightarrow> os" where
  "greeted s port w =
     w\<lparr>socks := [], binds := [], listens := [],
       evts := evts w @ [Ev_Bind s (any_addr port), Ev_Listen s 5], accepts := [],
       stdout := stdout w @ ''Esperamos una conexi'' @ o_acute @ ''nTenemos una Conexi'' @ o_acute @ ''n'' @ [LF]\<rparr>"

lemma greeted_sel [simp]:
  "rds (greeted s port w) = rds w" "wrs (greeted s port w) = wrs w" "outs (greeted s port w) = outs w"
  "evts (greeted s port w) = evts w @ [Ev_Bind s (any_addr port), Ev_Listen s 5]"
  "accepts (greeted s port w) = []"
  by (simp_all add: greeted_def)

lemma main_serves:
  assumes "1 \<le> port" and "port < 65536" and "one_client s c a w"
  shows "main [prog, dec port] w =
     bindIO (echo_conn c) (\<lambda>_.
     bindIO (sys_printf (''Cerramos el Socket del cliente'' @ [LF])) (\<lambda>_.
     bindIO (sys_close c) (\<lambda>_. accept_turns 1 s))) (greeted s (of_nat port) w)"
proof -
  have "to_u_int (dec port) = of_nat port" using assms(2) by (intro to_u_int_dec) simp
  moreover have "\<not> (of_nat port :: u32) < 1" "\<not> 65535 < (of_nat port :: u32)"
    using assms(1,2) by (simp_all add: word_less_nat_alt unat_of_nat)
  ultimately show ?thesis
    using assms(3)
    by (simp add: main_def one_client_def sys_socket_def sys_bind_def sys_listen_def sys_accept_def
        sys_printf_def greeted_def Let_def)
qed

lemma main_waits:
  "accepts w = [] \<Longrightarrow> \<exists>w'. accept_turns (Suc n) s w = (Blocked, w') \<and> outs w' = outs w \<and> evts w' = evts w"
  by (simp add: sys_printf_def sys_accept_def)

text \<open>
  C25: The echo server sends back, byte for byte and in order, every message up to and including
  the line QUIT, closes that client's connection and waits for the next client.
\<close>

theorem echo_session:
  assumes "1 \<le> port" and "port < 65536" and "one_client s c a w"
    and "\<forall>x\<in>set cs. message x \<and> c_string x \<noteq> quit_line" and "message m" and "c_string m = quit_line"
    and "rds w c = map Rd_Data cs @ Rd_Data m # q" and "roomy (wrs w c) (length cs + 1)"
  shows "\<exists>w'. main [prog, dec port] w = (Blocked, w') \<and> outs w' = (outs w)(c := outs w c @ concat cs @ m) \<and>
     evts w' = evts w @ [Ev_Bind s (any_addr (of_nat port)), Ev_Listen s 5, Ev_Close c]"
proof -
  let ?w = "greeted s (of_nat port) w"
  let ?v = "wrote c (concat cs @ m) (length cs + 1) (with_rds c q ?w)"
  have "echo_conn c ?w = (Ret (), ?v)" using assms(4-8) by (intro echo_session_run) simp_all
  then show ?thesis
    using main_serves [OF assms(1-3)] by (simp add: sys_printf_def sys_close_def sys_accept_def wrote_def)
qed

lemma echo_session_witness:
  "\<exists>w'. main [''echo'', dec 5000] (idle\<lparr>socks := [3], binds := [0], listens := [0], accepts := [Acc 4 (any_addr 9)],
       rds := (\<lambda>_. [])(4 := [Rd_Data ''hola'', Rd_Data (''QUIT'' @ crlf)]),
       wrs := (\<lambda>_. [])(4 := [Wr_Acc 255, Wr_Acc 255])\<rparr>) = (Blocked, w') \<and>
     outs w' = (\<lambda>_. [])(4 := ''holaQUIT'' @ crlf) \<and>
     evts w' = [Ev_Bind 3 (any_addr 5000), Ev_Listen 3 5, Ev_Close 4]"
  using echo_session [of 5000 3 4 "any_addr 9" "idle\<lparr>socks := [3], binds := [0], listens := [0], accepts := [Acc 4 (any_addr 9)],
       rds := (\<lambda>_. [])(4 := [Rd_Data ''hola'', Rd_Data (''QUIT'' @ crlf)]),
       wrs := (\<lambda>_. [])(4 := [Wr_Acc 255, Wr_Acc 255])\<rparr>" "[''hola'']" "''QUIT'' @ crlf" "[]" "''echo''"]
  by (simp add: one_client_def message_def c_string_def quit_line_def roomy_def)

text \<open>
  The line QUIT is only recognised when one read returns it alone: a client whose reads cut it,
  or join it to the text before, is never let go. Whatever errors and ends of file follow, the
  server reads on, its connection stays open and no other client is accepted.
\<close>

theorem echo_never_closes:
  assumes "1 \<le> port" and "port < 65536" and "one_client s c a w"
    and "\<forall>x\<in>set cs. message x \<and> c_string x \<noteq> quit_line" and "\<forall>x\<in>set es. x = Rd_Err \<or> x = Rd_Data []"
    and "rds w c = map Rd_Data cs @ es" and "roomy (wrs w c) (length cs)"
  shows "\<exists>w'. main [prog, dec port] w = (Blocked, w') \<and> outs w' = (outs w)(c := outs w c @ concat cs) \<and>
     rds w' c = [] \<and> evts w' = evts w @ [Ev_Bind s (any_addr (of_nat port)), Ev_Listen s 5]"
proof -
  let ?w = "greeted s (of_nat port) w"
  let ?v = "wrote c (concat cs) (length cs) (with_rds c es ?w)"
  have "echo_conn c ?w = echo_conn c ?v" using echo_messages [of cs ?w c es 0] assms(4,6,7) by simp
  moreover have "echo_conn c ?v = (Blocked, with_rds c [] ?v)" using assms(5) by (intro echo_idle) simp_all
  ultimately show ?thesis
    using main_serves [OF assms(1-3)] by (simp add: wrote_def)
qed

lemma echo_never_closes_witness:
  "\<exists>w'. main [''echo'', dec 5000] (idle\<lparr>socks := [3], binds := [0], listens := [0], accepts := [Acc 4 (any_addr 9)],
       rds := (\<lambda>_. [])(4 := [Rd_Data ''QU'', Rd_Data (''IT'' @ crlf), Rd_Data [], Rd_Err]),
       wrs := (\<lambda>_. [])(4 := [Wr_Acc 255, Wr_Acc 255])\<rparr>) = (Blocked, w') \<and>
     outs w' = (\<lambda>_. [])(4 := ''QUIT'' @ crlf) \<and> rds w' 4 = [] \<and>
     evts w' = [Ev_Bind 3 (any_addr 5000), Ev_Listen 3 5]"
  using echo_never_closes [of 5000 3 4 "any_addr 9" "idle\<lparr>socks := [3], binds := [0], listens := [0], accepts := [Acc 4 (any_addr 9)],
       rds := (\<lambda>_. [])(4 := [Rd_Data ''QU'', Rd_Data (''IT'' @ crlf), Rd_Data [], Rd_Err]),
       wrs := (\<lambda>_. [])(4 := [Wr_Acc 255, Wr_Acc 255])\<rparr>" "[''QU'', ''IT'' @ crlf]" "[Rd_Data [], Rd_Err]" "''echo''"]
  by (simp add: one_client_def message_def c_string_def quit_line_def roomy_def)

end
