(* ===== verification/Hello.thy ===== *)
theory Hello
  imports Echo
begin

text \<open>
  simple_socket/simple_hello.c: with \<open>-s\<close> a server that greets every client with the six bytes
  \<open>HOLA!\<close> and NUL, otherwise a client that reads one message, prints it and answers.
\<close>

section \<open>The server\<close>

definition mensaje :: string where
  "mensaje = ''HOLA!'' @ [NUL]"

text \<open>Lines 79 to 101, one turn per answer of \<open>accept\<close> as in the echo server.\<close>

fun greet_turns :: "nat \<Rightarrow> int \<Rightarrow> int cio" where
  "greet_turns 0 mySocket w = (No_Fuel, w)"
| "greet_turns (Suc n) mySocket w =
     bindIO (sys_accept mySocket) (\<lambda>a.
       let clientSocket = (case a of Acc_Err \<Rightarrow> -1 | Acc c _ \<Rightarrow> c) in
       if clientSocket = -1 then bindIO (sys_close mySocket) (\<lambda>_. retIO (-1))
       else bindIO (sys_printf (''Tenemos una Conexi'' @ o_acute @ ''n'' @ [LF])) (\<lambda>_.
            bindIO (sys_printf (''Mandamos los Mensajes'' @ [LF])) (\<lambda>_.
            bindIO (sys_write clientSocket mensaje 0 (length mensaje)) (\<lambda>_.
            bindIO (sys_printf (''Cerramos el Socket del Cliente'' @ [LF])) (\<lambda>_.
            bindIO (sys_close clientSocket) (\<lambda>_.
            greet_turns n mySocket)))))) w"

interpretation hello: turn_loop greet_turns "retIO ()"
  "\<lambda>c. bindIO (sys_printf (''Tenemos una Conexi'' @ o_acute @ ''n'' @ [LF])) (\<lambda>_.
       bindIO (sys_printf (''Mandamos los Mensajes'' @ [LF])) (\<lambda>_.
       bindIO (sys_write c mensaje 0 (length mensaje)) (\<lambda>_.
       bindIO (sys_printf (''Cerramos el Socket del Cliente'' @ [LF])) (\<lambda>_.
       sys_close c))))"
  by unfold_locales
    (simp only: greet_turns.simps bindIO_flat Let_def bindIO_Ret [OF retIO_app], (intro unbd | intro evolve)+)

definition run_server :: "int \<Rightarrow> u32 \<Rightarrow> int cio" where
  "run_server mySocket port =
     bindIO (sys_bind mySocket (any_addr port)) (\<lambda>status.
       if status \<noteq> 0 then bindIO (sys_close mySocket) (\<lambda>_. retIO (-1))
       else bindIO (sys_listen mySocket 5) (\<lambda>status.
         if status = -1 then bindIO (sys_close mySocket) (\<lambda>_. retIO (-1))
         else (\<lambda>w. greet_turns (Suc (length (accepts w))) mySocket w)))"

section \<open>The client\<close>

text \<open>
  Lines 103 to 127. \<open>argv[3]\<close> is a null pointer when there are three arguments. An address that
  is not one leaves the zeroes. \<open>junk\<close> is what the 255 bytes of \<open>mensajeIN\<close> hold before the read.
\<close>

definition peer_addr :: "string \<Rightarrow> u32 \<Rightarrow> sockaddr_in" where
  "peer_addr ip port = \<lparr>sin_family = AF_INET, sin_port = htons (ucast port),
     sin_addr = (case inet_pton4 ip of None \<Rightarrow> [0, 0, 0, 0] | Some os \<Rightarrow> os), sin_zero = replicate 8 NUL\<rparr>"

definition run_client :: "string \<Rightarrow> string list \<Rightarrow> int \<Rightarrow> u32 \<Rightarrow> int cio" where
  "run_client junk argv mySocket port =
     bindIO (liftR (arg argv 3)) (\<lambda>ip.
     bindIO (sys_connect mySocket (peer_addr ip port)) (\<lambda>status.
       if status \<noteq> 0 then bindIO (sys_close mySocket) (\<lambda>_. retIO (-1))
       else bindIO (sys_printf (''Leemos el Mensaje'' @ [LF])) (\<lambda>_.
            bindIO (sys_read mySocket 255) (\<lambda>r.
            let mensajeIN = (case r of None \<Rightarrow> junk | Some bs \<Rightarrow> bs @ drop (length bs) junk) in
            bindIO (liftR (text_in mensajeIN)) (\<lambda>t.
            bindIO (sys_printf (''Leimos '' @ t @ [LF])) (\<lambda>_.
            bindIO (sys_write mySocket (''ADIOS!!!'' @ [LF]) 0 9) (\<lambda>_.
            bindIO (sys_close mySocket) (\<lambda>_.
            retIO 0))))))))"

text \<open>Lines 20 to 54; the result of \<open>socket\<close> is used even if it is -1.\<close>

definition main :: "string \<Rightarrow> string list \<Rightarrow> int cio" where
  "main junk argv =
     (if length argv < 3 then retIO (-1)
      else
        let port = to_u_int (argv ! 2) in
        if port < 1 \<or> 65535 < port then retIO (-1)
        else bindIO sys_socket (\<lambda>mySocket.
             if argv ! 1 = ''-s'' then run_server mySocket port
             else run_client junk argv mySocket port))"

text \<open>The bound on the turns is never reached.\<close>

lemma run_server_fuelled: "fuelled (fst (run_server fd port w))"
  unfolding run_server_def Let_def
  by (auto intro!: unbounded_bind_at unboundedD [OF unbounded_net(2)]
      unboundedD [OF unbounded_net(3)] unboundedD [OF unbounded_sys(6)] hello.turns_end simp del: greet_turns.simps)

section \<open>The server, run\<close>

lemma port_in_range:
  assumes "1 \<le> port" and "port < 65536"
  shows "to_u_int (dec port) = of_nat port" "\<not> (of_nat port :: u32) < 1" "\<not> 65535 < (of_nat port :: u32)"
  using assms by (simp_all add: to_u_int_dec word_less_nat_alt unat_of_nat)

text \<open>Descriptors are used again once closed, so the greetings of a descriptor are counted.\<close>

definition greetings :: "int list \<Rightarrow> int \<Rightarrow> string" where
  "greetings cs c = concat (replicate (count_list cs c) mensaje)"

lemma greet_all:
  assumes "accepts w = map (\<lambda>c. Acc c (peer c)) cs" and "-1 \<notin> set cs"
    and "\<forall>c. roomy (wrs w c) (count_list cs c)"
  shows "\<exists>w'. greet_turns (Suc (length cs)) s w = (Blocked, w') \<and>
     outs w' = (\<lambda>c. outs w c @ greetings cs c) \<and> evts w' = evts w @ map Ev_Close cs"
  using assms
proof (induction cs arbitrary: w)
  case Nil
  then show ?case by (simp add: sys_accept_def greetings_def)
next
  case (Cons c cs)
  from Cons.prems(3) have "roomy (wrs w c) (Suc (count_list cs c))"
    by (metis add.commute count_list.simps(2) plus_1_eq_Suc)
  then obtain k r where k: "wrs w c = Wr_Acc k # r" "255 \<le> k" "roomy r (count_list cs c)"
    by (elim roomy_Suc)
  let ?v = "w\<lparr>accepts := map (\<lambda>c. Acc c (peer c)) cs,
      stdout := stdout w @ ''Tenemos una Conexi'' @ o_acute @ ''n'' @ [LF] @ ''Mandamos los Mensajes'' @ [LF]\<rparr>"
  have "sys_write c mensaje 0 (length mensaje) ?v = (Ret 6, wrote c mensaje 1 ?v)"
    using sys_write_acc [of ?v c k r 0 "length mensaje" mensaje] k(1,2) by (simp add: mensaje_def)
  then obtain v where v: "greet_turns (Suc (Suc (length cs))) s w = greet_turns (Suc (length cs)) s v"
    and f: "accepts v = map (\<lambda>c. Acc c (peer c)) cs" "wrs v = (wrs w)(c := r)"
      "outs v = (outs w)(c := outs w c @ mensaje)" "evts v = evts w @ [Ev_Close c]"
    using Cons.prems(1,2) k(1)
    by (simp add: sys_accept_def sys_printf_def sys_close_def wrote_def del: greet_turns.simps(2)
        add: greet_turns.simps(2) [of "Suc (length cs)"])
  have "\<forall>d. roomy (wrs v d) (count_list cs d)" using Cons.prems(3) f(2) k(3) by (auto split: if_splits)
  from Cons.IH [OF f(1) _ this] Cons.prems(2) obtain w' where
    "greet_turns (Suc (length cs)) s v = (Blocked, w')" "outs w' = (\<lambda>d. outs v d @ greetings cs d)"
    "evts w' = evts v @ map Ev_Close cs" by auto
  with v f show ?case
    by (intro exI [of _ w']) (auto simp: greetings_def fun_eq_iff simp del: greet_turns.simps)
qed

definition listens_on :: "int \<Rightarrow> nat \<Rightarrow> os \<Rightarrow> os" where
  "listens_on s port w = w\<lparr>socks := [], binds := [], listens := [],
      evts := evts w @ [Ev_Bind s (any_addr (of_nat port)), Ev_Listen s 5]\<rparr>"

lemma listens_on_sel [simp]:
  "accepts (listens_on s port w) = accepts w" "wrs (listens_on s port w) = wrs w" "outs (listens_on s port w) = outs w"
  "evts (listens_on s port w) = evts w @ [Ev_Bind s (any_addr (of_nat port)), Ev_Listen s 5]"
  by (simp_all add: listens_on_def)

lemma main_greets:
  assumes "1 \<le> port" and "port < 65536" and "socks w = [s]" and "binds w = [0]" and "listens w = [0]"
  shows "main junk ([prog, ''-s'', dec port] @ others) w = greet_turns (Suc (length (accepts w))) s (listens_on s port w)"
  using assms(3-5) port_in_range [OF assms(1,2)]
  by (simp add: main_def run_server_def sys_socket_def sys_bind_def sys_listen_def Let_def numeral_2_eq_2
      listens_on_def del: greet_turns.simps)

text \<open>
  The server started with -s greets every client, in the order they connect, with exactly the
  six bytes of HOLA! and its NUL, closes each connection and keeps listening.
\<close>

theorem hello_serves:
  assumes "1 \<le> port" and "port < 65536"
    and "socks w = [s]" and "binds w = [0]" and "listens w = [0]"
    and "accepts w = map (\<lambda>c. Acc c (peer c)) cs" and "-1 \<notin> set cs" and "\<forall>c. roomy (wrs w c) (count_list cs c)"
  shows "\<exists>w'. main junk ([prog, ''-s'', dec port] @ others) w = (Blocked, w') \<and>
     outs w' = (\<lambda>c. outs w c @ concat (replicate (count_list cs c) (''HOLA!'' @ [NUL]))) \<and>
     evts w' = evts w @ [Ev_Bind s (any_addr (of_nat port)), Ev_Listen s 5] @ map Ev_Close cs"
proof -
  let ?v = "listens_on s port w"
  have "main junk ([prog, ''-s'', dec port] @ others) w = greet_turns (Suc (length cs)) s ?v"
    using main_greets [OF assms(1-5), of junk prog others] assms(6) by simp
  moreover obtain w' where "greet_turns (Suc (length cs)) s ?v = (Blocked, w')"
    "outs w' = (\<lambda>c. outs ?v c @ greetings cs c)" "evts w' = evts ?v @ map Ev_Close cs"
    using greet_all [of ?v peer cs s] assms(6-8) by (auto simp del: greet_turns.simps)
  ultimately show ?thesis by (intro exI [of _ w']) (simp add: greetings_def mensaje_def)
qed

lemma hello_serves_witness:
  "\<exists>w'. main [] [''hello'', ''-s'', dec 5000] (idle\<lparr>socks := [3], binds := [0], listens := [0],
       accepts := map (\<lambda>c. Acc c (any_addr 9)) [4, 5, 4], wrs := (\<lambda>_. [Wr_Acc 255, Wr_Acc 255])\<rparr>) = (Blocked, w') \<and>
     outs w' 4 = ''HOLA!'' @ [NUL] @ ''HOLA!'' @ [NUL] \<and>
     evts w' = [Ev_Bind 3 (any_addr 5000), Ev_Listen 3 5, Ev_Close 4, Ev_Close 5, Ev_Close 4]"
proof -
  have "\<forall>c. roomy [Wr_Acc 255, Wr_Acc 255] (count_list [4, 5, 4 :: int] c)" by (auto simp: roomy_def)
  then show ?thesis
    using hello_serves [of 5000 "idle\<lparr>socks := [3], binds := [0], listens := [0],
       accepts := map (\<lambda>c. Acc c (any_addr 9)) [4, 5, 4], wrs := (\<lambda>_. [Wr_Acc 255, Wr_Acc 255])\<rparr>"
       3 "\<lambda>_. any_addr 9" "[4, 5, 4]" "[]" "''hello''" "[]"]
    by (auto simp: numeral_2_eq_2)
qed

section \<open>The client, run\<close>

lemma hello_client:
  assumes "1 \<le> port" and "port < 65536" and "mode \<noteq> ''-s''"
    and "length ip = 4" and "\<forall>v\<in>set ip. v < 256"
    and "socks w = [s]" and "connects w = [0]" and "rds w s = Rd_Data bs # q" and "length bs \<le> 255"
    and "NUL \<in> set (bs @ drop (length bs) junk)" and "wrs w s = Wr_Acc k # r"
  shows "\<exists>w'. main junk ([prog, mode, dec port, inet_ntop4 ip] @ others) w = (Ret 0, w') \<and>
     stdout w' = stdout w @ ''Leemos el Mensaje'' @ [LF] @ ''Leimos '' @ c_string (bs @ drop (length bs) junk) @ [LF] \<and>
     outs w' = (outs w)(s := outs w s @ take k (''ADIOS!!!'' @ [LF])) \<and>
     evts w' = evts w @ [Ev_Connect s (peer_addr (inet_ntop4 ip) (of_nat port)), Ev_Close s]"
proof -
  let ?argv = "[prog, mode, dec port, inet_ntop4 ip] @ others"
  let ?v = "w\<lparr>socks := [], connects := [],
      evts := evts w @ [Ev_Connect s (peer_addr (inet_ntop4 ip) (of_nat port))],
      stdout := stdout w @ ''Leemos el Mensaje'' @ [LF]\<rparr>"
  let ?t = "c_string (bs @ drop (length bs) junk)"
  have take9: "take (min k 9) (''ADIOS!!!'' @ [LF]) = take k (''ADIOS!!!'' @ [LF])"
    by (cases "k \<le> 9") (simp_all add: min_def)
  have "main junk ?argv w =
     bindIO (sys_read s 255) (\<lambda>r.
       let mensajeIN = (case r of None \<Rightarrow> junk | Some bs \<Rightarrow> bs @ drop (length bs) junk) in
       bindIO (liftR (text_in mensajeIN)) (\<lambda>t.
       bindIO (sys_printf (''Leimos '' @ t @ [LF])) (\<lambda>_.
       bindIO (sys_write s (''ADIOS!!!'' @ [LF]) 0 9) (\<lambda>_.
       bindIO (sys_close s) (\<lambda>_.
       retIO 0))))) ?v"
    using assms(3,6,7) port_in_range [OF assms(1,2)]
    by (simp add: main_def run_client_def arg_def sys_socket_def sys_connect_def sys_printf_def Let_def numeral_3_eq_3 numeral_2_eq_2)
  also have "\<dots> = bindIO (sys_printf (''Leimos '' @ ?t @ [LF])) (\<lambda>_.
       bindIO (sys_write s (''ADIOS!!!'' @ [LF]) 0 9) (\<lambda>_.
       bindIO (sys_close s) (\<lambda>_.
       retIO 0))) (with_rds s q ?v)"
    using assms(8-10) by (simp add: sys_read_def with_rds_def text_in_def)
  finally show ?thesis
    using take9 sys_write_acc [of "(with_rds s q ?v)\<lparr>stdout := stdout ?v @ ''Leimos '' @ ?t @ [LF]\<rparr>" s k r 0 9 "''ADIOS!!!'' @ [LF]"] assms(11)
    by (simp add: sys_printf_def sys_close_def)
qed

section \<open>Server and client\<close>

lemma length_mensaje: "length mensaje = 6"
  by (simp add: mensaje_def)

lemma greeting_text: "NUL \<notin> set ''HOLA!''"
  by simp

text \<open>
  C26: What the client prints when it talks to the server. A first read that brings the whole
  greeting prints HOLA!; a read cut short by the network prints the part that arrived and then
  whatever the uninitialised buffer holds up to its next NUL. The client answers and closes.
\<close>

theorem hello_exchange:
  assumes "1 \<le> port" and "port < 65536" and "mode \<noteq> ''-s''" and "length ip = 4" and "\<forall>v\<in>set ip. v < 256"
    and "socks ws = [l]" and "binds ws = [0]" and "listens ws = [0]"
    and "accepts ws = [Acc c a]" and "c \<noteq> -1" and "\<forall>d. roomy (wrs ws d) 1" and "outs ws c = []"
    and "socks wc = [s]" and "connects wc = [0]" and "rds wc s = Rd_Data bs # q" and "bs \<noteq> []"
    and "bs @ stream q = outs (snd (main junk0 [prog, ''-s'', dec port] ws)) c"
    and "wrs wc s = Wr_Acc k # r" and "length bs < 6 \<longrightarrow> NUL \<in> set (drop (length bs) junk)"
  shows "\<exists>w'. main junk [prog, mode, dec port, inet_ntop4 ip] wc = (Ret 0, w') \<and>
     stdout w' = stdout wc @ ''Leemos el Mensaje'' @ [LF] @ ''Leimos '' @
       (if length bs = 6 then ''HOLA!'' else bs @ c_string (drop (length bs) junk)) @ [LF] \<and>
     evts w' = evts wc @ [Ev_Connect s (peer_addr (inet_ntop4 ip) (of_nat port)), Ev_Close s]"
proof -
  have "\<forall>d. roomy (wrs (listens_on l port ws) d) (count_list [c] d)" using assms(11) by (auto simp: roomy_def)
  with greet_all [of "listens_on l port ws" "\<lambda>_. a" "[c]" l] assms(9,10,12)
  have "outs (snd (greet_turns (Suc (length [c])) l (listens_on l port ws))) c = mensaje"
    by (auto simp: greetings_def simp del: greet_turns.simps)
  with assms(9,17) main_greets [OF assms(1,2,6-8), of junk0 prog "[]"] have g: "bs @ stream q = mensaje"
    by (simp del: greet_turns.simps)
  then have len: "length bs \<le> 6" and bs: "bs = take (length bs) mensaje"
    by (metis length_mensaje le_add1 length_append) (metis append_eq_conv_conj g)
  have "c_string (bs @ drop (length bs) junk) = (if length bs = 6 then ''HOLA!'' else bs @ c_string (drop (length bs) junk)) \<and>
      NUL \<in> set (bs @ drop (length bs) junk)"
  proof (cases "length bs = 6")
    case True
    with bs have "bs = mensaje" by (simp add: length_mensaje)
    then show ?thesis by (simp add: mensaje_def c_string_def)
  next
    case False
    have "take (length bs) mensaje = take (length bs) ''HOLA!'' @ take (length bs - length ''HOLA!'') [NUL]"
      by (simp only: mensaje_def take_append)
    with bs len False have "bs = take (length bs) ''HOLA!''" by simp
    then have "NUL \<notin> set bs" by (metis greeting_text in_set_takeD)
    then have "takeWhile (\<lambda>c. c \<noteq> NUL) (bs @ x) = bs @ takeWhile (\<lambda>c. c \<noteq> NUL) x" for x
      by (intro takeWhile_append2) auto
    then show ?thesis using False len assms(19) by (auto simp: c_string_def)
  qed
  then show ?thesis
    using hello_client [OF assms(1-5,13-15) _ _ assms(18), of junk prog "[]"] len by auto
qed

lemma hello_exchange_witness:
  "\<exists>w'. main (''xy'' @ replicate 253 NUL) [''hello'', ''-c'', dec 5000, inet_ntop4 [127, 0, 0, 1]]
       (idle\<lparr>socks := [3], connects := [0], rds := (\<lambda>_. [])(3 := [Rd_Data ''HO'', Rd_Data (''LA!'' @ [NUL])]),
         wrs := (\<lambda>_. [Wr_Acc 255])\<rparr>) = (Ret 0, w') \<and>
     stdout w' = ''Leemos el Mensaje'' @ [LF] @ ''Leimos '' @ ''HO'' @ [LF] \<and>
     evts w' = [Ev_Connect 3 (peer_addr (inet_ntop4 [127, 0, 0, 1]) 5000), Ev_Close 3]"
proof -
  let ?ws = "idle\<lparr>socks := [3], binds := [0], listens := [0], accepts := [Acc 4 (any_addr 9)], wrs := (\<lambda>_. [Wr_Acc 255])\<rparr>"
  have "outs (snd (main [] [''hello'', ''-s'', dec 5000] ?ws)) 4 = ''HOLA!'' @ [NUL]"
    by (subst main_greets [where others = "[]" and port = 5000 and s = 3, simplified])
      (simp_all add: listens_on_def sys_accept_def sys_printf_def sys_close_def sys_write_def mensaje_def)
  then show ?thesis
    using hello_exchange [of 5000 "''-c''" "[127, 0, 0, 1]" ?ws 3 4 "any_addr 9"
      "idle\<lparr>socks := [3], connects := [0], rds := (\<lambda>_. [])(3 := [Rd_Data ''HO'', Rd_Data (''LA!'' @ [NUL])]),
         wrs := (\<lambda>_. [Wr_Acc 255])\<rparr>" 3 "''HO''" "[Rd_Data (''LA!'' @ [NUL])]" "[]" "''hello''" 255 "[]" "''xy'' @ replicate 253 NUL"]
    by (simp add: roomy_def c_string_def)
qed

end
