(* ===== verification/Datagram.thy ===== *)
theory Datagram
  imports Netlib Int_Loops
begin

text \<open>
  Datagrams, as UDP_FileTransfer and bdcast use them. The state adds to the system what
  \<open>recvfrom\<close> will return, which \<open>sendto\<close> will succeed, and the datagrams sent so far. A datagram
  is sent whole or not at all, and one that is longer than the buffer of \<open>recvfrom\<close> is cut.
\<close>

datatype dgram = Dg_Err | Dg string sockaddr_in

record net =
  sys :: os
  inbox :: "dgram list"
  sends :: "bool list"
  mailed :: "(sockaddr_in \<times> string) list"

type_synonym 'a nio = "(net, 'a) io"

definition on_sys :: "'a cio \<Rightarrow> 'a nio" where
  "on_sys m s = (case m (sys s) of (r, w) \<Rightarrow> (r, s\<lparr>sys := w\<rparr>))"

text \<open>\<open>recvfrom(fd, buf, n, 0, from, \<dots>)\<close>; \<open>None\<close> is the result -1, which leaves both unchanged.\<close>

definition sys_recvfrom :: "nat \<Rightarrow> (string \<times> sockaddr_in) option nio" where
  "sys_recvfrom n s =
     (case inbox s of
        [] \<Rightarrow> (Blocked, s)
      | Dg_Err # r \<Rightarrow> (Ret None, s\<lparr>inbox := r\<rparr>)
      | Dg bs from # r \<Rightarrow> (Ret (Some (take n bs, from)), s\<lparr>inbox := r\<rparr>))"

text \<open>\<open>sendto(fd, mem + off, n, 0, dst, \<dots>)\<close>\<close>

definition sys_sendto :: "string \<Rightarrow> int \<Rightarrow> nat \<Rightarrow> sockaddr_in \<Rightarrow> int nio" where
  "sys_sendto mem off n dst s =
     (if off < 0 \<or> int (length mem) < off + int n then (Crash Out_Of_Bounds, s)
      else case sends s of
        [] \<Rightarrow> (Blocked, s)
      | False # r \<Rightarrow> (Ret (-1), s\<lparr>sends := r\<rparr>)
      | True # r \<Rightarrow>
          (Ret (int n), s\<lparr>sends := r, mailed := mailed s @ [(dst, take n (drop (nat off) mem))]\<rparr>))"

definition send_text :: "string \<Rightarrow> sockaddr_in \<Rightarrow> int nio" where
  "send_text t = sys_sendto t 0 (length t)"

text \<open>A buffer of 255 zeroes after \<open>recvfrom\<close>, and the address beside it.\<close>

definition received :: "sockaddr_in \<Rightarrow> (string \<times> sockaddr_in) option \<Rightarrow> string \<times> sockaddr_in" where
  "received a r =
     (case r of None \<Rightarrow> (replicate 255 NUL, a) | Some (bs, from) \<Rightarrow> (bs @ replicate (255 - length bs) NUL, from))"

text \<open>\<open>%s\<close> of such a buffer: 255 bytes without a NUL run on into what lies behind it.\<close>

definition text_of :: "string \<Rightarrow> string res" where
  "text_of buf = (if NUL \<in> set buf then Ret (c_string buf) else Crash Out_Of_Bounds)"

text \<open>\<open>[ip:port]\<close> as the programs print it.\<close>

definition show_addr :: "sockaddr_in \<Rightarrow> string" where
  "show_addr a = CHR ''['' # inet_ntop4 (sin_addr a) @ '':'' @ dec (unat (htons (sin_port a))) @ '']''"

section \<open>Rules\<close>

lemma on_sys_run: "m (sys s) = (r, w) \<Longrightarrow> on_sys m s = (r, s\<lparr>sys := w\<rparr>)"
  by (simp add: on_sys_def)

lemma on_sys_sel [simp]:
  "inbox (snd (on_sys m s)) = inbox s" "sends (snd (on_sys m s)) = sends s" "mailed (snd (on_sys m s)) = mailed s"
  "sys (snd (on_sys m s)) = snd (m (sys s))"
  by (simp_all add: on_sys_def split: prod.split)

lemma recvfrom_dg:
  "inbox s = Dg bs from # r \<Longrightarrow> length bs \<le> n \<Longrightarrow> sys_recvfrom n s = (Ret (Some (bs, from)), s\<lparr>inbox := r\<rparr>)"
  by (simp add: sys_recvfrom_def)

lemma recvfrom_decreases: "sys_recvfrom n s = (Ret x, s') \<Longrightarrow> length (inbox s') < length (inbox s)"
  by (auto simp: sys_recvfrom_def split: list.splits dgram.splits)

lemma recvfrom_empty: "inbox s = [] \<Longrightarrow> sys_recvfrom n s = (Blocked, s)"
  by (simp add: sys_recvfrom_def)

lemma send_text_ok:
  "sends s = True # r \<Longrightarrow> send_text t dst s = (Ret (int (length t)), s\<lparr>sends := r, mailed := mailed s @ [(dst, t)]\<rparr>)"
  by (simp add: send_text_def sys_sendto_def)

lemma sendto_decreases: "sys_sendto mem off n dst s = (Ret x, s') \<Longrightarrow> length (sends s') < length (sends s)"
  by (auto simp: sys_sendto_def split: if_splits list.splits bool.splits)

lemma sendto_frame: "sys_sendto mem off n dst s = (r, s') \<Longrightarrow> sys s' = sys s \<and> inbox s' = inbox s"
  by (auto simp: sys_sendto_def split: if_splits list.splits bool.splits)

lemma received_Some: "received a (Some (bs, from)) = (bs @ replicate (255 - length bs) NUL, from)"
  by (simp add: received_def)

lemma text_of_short: "NUL \<notin> set t \<Longrightarrow> 0 < n \<Longrightarrow> text_of (t @ replicate n NUL) = Ret t"
  by (cases n) (auto simp: text_of_def c_string_def intro!: takeWhile_stop)

lemma text_of_full: "NUL \<notin> set t \<Longrightarrow> text_of (t @ replicate 0 NUL) = Crash Out_Of_Bounds"
  by (simp add: text_of_def)

end
