(* ===== verification/Udp_Server.thy ===== *)
theory Udp_Server
  imports Datagram
begin

text \<open>
  UDP_FileTransfer/server.c: waits for one datagram with a file name, answers READY and the size,
  waits for OK, and sends the file in datagrams of at most 10240 bytes, then BYE.
\<close>

type_synonym i32 = "32 word"

section \<open>The transfer\<close>

text \<open>
  Lines 89 to 91. A datagram that cannot be sent moves the counter back by one, and the next one
  starts before the buffer.
\<close>

function send_block :: "string \<Rightarrow> int \<Rightarrow> sockaddr_in \<Rightarrow> int \<Rightarrow> int nio" where
  "send_block filebuffer readBytes udpClient sendBytes s =
     (if sendBytes < readBytes then
        bindIO (sys_sendto filebuffer sendBytes (nat (readBytes - sendBytes)) udpClient) (\<lambda>n s'.
          send_block filebuffer readBytes udpClient (sendBytes + n) s') s
      else (Ret sendBytes, s))"
  by pat_completeness auto
termination
  by (relation "measure (\<lambda>(m, rb, a, sb, s). length (sends s))") (auto dest: sendto_decreases)

declare send_block.simps [simp del]

lemma send_block_frame: "sys (snd (send_block m rb a sb s)) = sys s \<and> inbox (snd (send_block m rb a sb s)) = inbox s"
proof (induction m rb a sb s rule: send_block.induct)
  case (1 m rb a sb s)
  obtain r s1 where sd: "sys_sendto m sb (nat (rb - sb)) a s = (r, s1)" by fastforce
  with 1 sendto_frame [OF sd] show ?case by (cases r) (auto simp: send_block.simps [of m rb a sb s])
qed

text \<open>
  Lines 86 to 93. The total is a 32-bit int compared with a 64-bit size. A failed read and an end
  of file leave it unchanged.
\<close>

function send_file :: "int \<Rightarrow> sockaddr_in \<Rightarrow> nat \<Rightarrow> i32 \<Rightarrow> unit nio" where
  "send_file fl udpClient st_size totalSendBytes s =
     (if sint totalSendBytes < int st_size then
        bindIO (on_sys (sys_read fl 10240)) (\<lambda>r s1.
          let (filebuffer, readBytes) = (case r of None \<Rightarrow> ([], -1) | Some bs \<Rightarrow> (bs, int (length bs))) in
          bindIO (send_block filebuffer readBytes udpClient 0) (\<lambda>sendBytes s2.
            send_file fl udpClient st_size (totalSendBytes + of_int sendBytes) s2) s1) s
      else (Ret (), s))"
  by pat_completeness auto
termination
proof (relation "measure (\<lambda>(fl, a, sz, t, s). rd_size (rds (sys s) fl))", goal_cases)
  case (2 fl a sz t s r s1 p m rb x s2)
  from 2(2) have "sys_read fl 10240 (sys s) = (Ret r, sys s1)" by (auto simp: on_sys_def split: prod.splits)
  from sys_read_decreases [OF this] have "rd_size (rds (sys s1) fl) < rd_size (rds (sys s) fl)" by simp
  moreover from 2(5) send_block_frame [of m rb a 0 s1] have "sys s2 = sys s1" by simp
  ultimately show ?case by simp
qed simp

declare send_file.simps [simp del]

section \<open>The program\<close>

text \<open>
  Lines 39 to 48: the address the socket is bound to. \<open>a0\<close> is what the variable holds before.
\<close>

definition server_addr :: "sockaddr_in \<Rightarrow> nat list \<Rightarrow> sockaddr_in" where
  "server_addr a0 ip = a0\<lparr>sin_family := AF_INET, sin_addr := ip, sin_port := htons 5000\<rparr>"

definition ready_line :: "nat \<Rightarrow> string" where
  "ready_line st_size = ''READY '' @ dec_int (sint (of_nat st_size :: i32)) @ crlf"

text \<open>
  Lines 58 to 101. \<open>a0\<close>, \<open>c0\<close> and \<open>total0\<close> are what the variables \<open>udpServer\<close>, \<open>udpClient\<close> and
  \<open>totalSendBytes\<close> hold when \<open>main\<close> starts: nothing initialises them.
\<close>

definition serve :: "sockaddr_in \<Rightarrow> i32 \<Rightarrow> int \<Rightarrow> int nio" where
  "serve c0 total0 udpSocket =
     bindIO (sys_recvfrom 255) (\<lambda>r.
     let (requestFileName, udpClient) = received c0 r in
     bindIO (liftR (text_of requestFileName)) (\<lambda>name.
     bindIO (on_sys (sys_printf (''El cliente queire el archivo: '' @ show_addr udpClient @ '' '' @ name @ [LF]))) (\<lambda>_.
     bindIO (on_sys (sys_open_rd name)) (\<lambda>fl.
       if fl = -1 then retIO (-1)
       else bindIO (on_sys (sys_fstat_size fl)) (\<lambda>st_size.
            bindIO (send_text (ready_line st_size) udpClient) (\<lambda>_.
            bindIO (sys_recvfrom 255) (\<lambda>r.
            let (buffer, udpClient) = received udpClient r in
            if c_string buffer \<noteq> ''OK'' then bindIO (liftR (text_of buffer)) (\<lambda>_. retIO (-1))
            else bindIO (send_file fl udpClient st_size total0) (\<lambda>_.
                 bindIO (send_text ''BYE'' udpClient) (\<lambda>_.
                 bindIO (on_sys (sys_close udpSocket)) (\<lambda>_.
                 retIO 0))))))))))"

definition main :: "sockaddr_in \<Rightarrow> sockaddr_in \<Rightarrow> i32 \<Rightarrow> int nio" where
  "main a0 c0 total0 =
     bindIO (on_sys sys_socket) (\<lambda>udpSocket.
       if udpSocket = -1 then retIO 1
       else bindIO (on_sys (sys_bind udpSocket (server_addr a0 [0, 0, 0, 0]))) (\<lambda>_.
            serve c0 total0 udpSocket))"

section \<open>A transfer, run\<close>

lemma send_block_ok:
  assumes "sends s = True # r" and "bs \<noteq> []"
  shows "send_block bs (int (length bs)) a 0 s = (Ret (int (length bs)), s\<lparr>sends := r, mailed := mailed s @ [(a, bs)]\<rparr>)"
proof -
  have "sys_sendto bs 0 (length bs) a s = (Ret (int (length bs)), s\<lparr>sends := r, mailed := mailed s @ [(a, bs)]\<rparr>)"
    using assms by (simp add: sys_sendto_def)
  then show ?thesis
    using assms(2) by (simp add: send_block.simps [of bs "int (length bs)" a 0] send_block.simps [of bs "int (length bs)" a "int (length bs)"])
qed

lemma sint_small: "0 \<le> n \<Longrightarrow> n < 2 ^ 31 \<Longrightarrow> sint (of_int n :: i32) = n"
  by (simp add: sint_sbintrunc' signed_take_bit_int_eq_self)

definition block :: "string \<Rightarrow> bool" where
  "block b \<longleftrightarrow> b \<noteq> [] \<and> length b \<le> 10240"

lemma send_file_blocks:
  assumes "\<forall>b\<in>set bss. block b" and "rds (sys s) fl = map Rd_Data bss @ q"
    and "t + length (concat bss) = sz" and "sz < 2 ^ 31" and "sends s = replicate (length bss) True @ r"
  shows "send_file fl a sz (of_nat t) s =
     (Ret (), s\<lparr>sys := with_rds fl q (sys s), sends := r, mailed := mailed s @ map (Pair a) bss\<rparr>)"
  using assms
proof (induction bss arbitrary: s t)
  case Nil
  then have "sint (of_int (int sz) :: i32) = int sz" by (intro sint_small) simp_all
  with Nil show ?case by (simp add: send_file.simps)
next
  case (Cons b bss)
  let ?s1 = "s\<lparr>sys := with_rds fl (map Rd_Data bss @ q) (sys s)\<rparr>"
  let ?s2 = "?s1\<lparr>sends := replicate (length bss) True @ r, mailed := mailed s @ [(a, b)]\<rparr>"
  have b: "b \<noteq> []" "length b \<le> 10240" using Cons.prems(1) by (simp_all add: block_def)
  have "sint (of_int (int t) :: i32) = int t" using Cons.prems(3,4) by (intro sint_small) simp_all
  moreover have "0 < length b" using b(1) by simp
  ultimately have lt: "sint (of_nat t :: i32) < int sz" using Cons.prems(3) by (simp del: length_greater_0_conv)
  have rd: "on_sys (sys_read fl 10240) s = (Ret (Some b), ?s1)"
    using Cons.prems(2) b(2) by (intro on_sys_run) (simp add: sys_read_def with_rds_def)
  have sb: "send_block b (int (length b)) a 0 ?s1 = (Ret (int (length b)), ?s2)"
    using send_block_ok [of ?s1 "replicate (length bss) True @ r" b a] Cons.prems(5) b(1) by simp
  have "send_file fl a sz (of_nat t) s = send_file fl a sz (of_nat t + of_int (int (length b))) ?s2"
    using lt rd sb by (simp add: send_file.simps [of fl a sz "of_nat t" s])
  also have "(of_nat t + of_int (int (length b)) :: i32) = of_nat (t + length b)" by simp
  also have "send_file fl a sz (of_nat (t + length b)) ?s2 =
     (Ret (), ?s2\<lparr>sys := with_rds fl q (sys ?s2), sends := r, mailed := mailed ?s2 @ map (Pair a) bss\<rparr>)"
    using Cons.prems by (intro Cons.IH) simp_all
  finally show ?case by simp
qed

text \<open>
  A system with a file to serve, for which every \<open>sendto\<close> succeeds; a client \<open>a\<close> asks for the file
  and the datagram OK comes from \<open>b\<close>.
\<close>

definition asked :: "net \<Rightarrow> string \<Rightarrow> string list \<Rightarrow> sockaddr_in \<Rightarrow> sockaddr_in \<Rightarrow> bool" where
  "asked s name bss a b \<longleftrightarrow>
     (\<exists>q. files (sys s) name = Some \<lparr>fsize = length (concat bss), fdata = map Rd_Data bss @ q\<rparr>) \<and>
     next_fd (sys s) \<noteq> -1 \<and> NUL \<notin> set name \<and> length name < 255 \<and>
     (\<forall>x\<in>set bss. block x) \<and> length (concat bss) < 2 ^ 31 \<and>
     (\<exists>k. socks (sys s) = [k] \<and> k \<noteq> -1) \<and> (\<exists>k. binds (sys s) = [k]) \<and>
     inbox s = [Dg name a, Dg ''OK'' b] \<and> sends s = replicate (length bss + 2) True"

lemma OK_buffer: "c_string (''OK'' @ replicate 253 NUL) = ''OK''"
  by (simp add: c_string_def)

lemma served:
  assumes "asked s name bss a b"
  shows "\<exists>s'. main a0 c0 0 s = (Ret 0, s') \<and>
     mailed s' = mailed s @ [(a, ready_line (length (concat bss)))] @ map (Pair b) bss @ [(b, ''BYE'')]"
proof -
  from assms obtain q k j where
    fi: "files (sys s) name = Some \<lparr>fsize = length (concat bss), fdata = map Rd_Data bss @ q\<rparr>"
    and sys: "next_fd (sys s) \<noteq> -1" "socks (sys s) = [k]" "k \<noteq> -1" "binds (sys s) = [j]"
    and name: "NUL \<notin> set name" "length name < 255"
    and bss: "\<forall>x\<in>set bss. block x" "length (concat bss) < 2 ^ 31"
    and net: "inbox s = [Dg name a, Dg ''OK'' b]" "sends s = True # replicate (length bss) True @ [True]"
    by (auto simp: asked_def replicate_append_same simp flip: replicate_Suc)
  let ?n = "length (concat bss)" and ?fl = "next_fd (sys s)"
  let ?w1 = "(sys s)\<lparr>socks := [], binds := [], evts := evts (sys s) @ [Ev_Bind k (server_addr a0 [0, 0, 0, 0])],
      stdout := stdout (sys s) @ ''El cliente queire el archivo: '' @ show_addr a @ '' '' @ name @ [LF]\<rparr>"
  let ?w2 = "?w1\<lparr>next_fd := ?fl + 1, opened := opened ?w1 @ [name],
      rds := (rds ?w1)(?fl := map Rd_Data bss @ q), stats := (stats ?w1)(?fl := ?n)\<rparr>"
  let ?s2 = "s\<lparr>sys := ?w2, sends := replicate (length bss) True @ [True],
      mailed := mailed s @ [(a, ready_line ?n)], inbox := []\<rparr>"
  have recv: "text_of (name @ replicate (255 - length name) NUL) = Ret name"
    using name by (intro text_of_short) simp_all
  have "main a0 c0 0 s =
     bindIO (send_file ?fl b ?n 0) (\<lambda>_.
     bindIO (send_text ''BYE'' b) (\<lambda>_.
     bindIO (on_sys (sys_close k)) (\<lambda>_.
     retIO 0))) ?s2"
    using fi sys name net recv OK_buffer
    by (simp add: main_def serve_def on_sys_def sys_socket_def sys_bind_def sys_recvfrom_def received_def
        sys_printf_def sys_open_rd_def sys_fstat_size_def send_text_ok)
  moreover have "send_file ?fl b ?n (of_nat 0) ?s2 = (Ret (), ?s2\<lparr>sys := with_rds ?fl q (sys ?s2), sends := [True],
      mailed := mailed ?s2 @ map (Pair b) bss\<rparr>)"
    using bss by (intro send_file_blocks) simp_all
  ultimately show ?thesis by (simp add: send_text_ok on_sys_def sys_close_def)
qed

end
