(* ===== verification/Udp_Client.thy ===== *)
theory Udp_Client
  imports Udp_Server Args
begin

text \<open>
  UDP_FileTransfer/client.c: asks a server on the same machine for a file and stores the datagrams
  that answer. The counter \<open>writeBytes\<close> of the storing loop is neither initialised nor reset.
\<close>

section \<open>The transfer\<close>

text \<open>Lines 80 to 82.\<close>

function store_block :: "int \<Rightarrow> string \<Rightarrow> int \<Rightarrow> int \<Rightarrow> int cio" where
  "store_block fl fileBuffer readBytes writeBytes w =
     (if writeBytes < readBytes then
        bindIO (sys_write fl fileBuffer writeBytes (nat (readBytes - writeBytes))) (\<lambda>n w'.
          store_block fl fileBuffer readBytes (writeBytes + n) w') w
      else (Ret writeBytes, w))"
  by pat_completeness auto
termination
  by (relation "measure (\<lambda>(fl, buf, rb, wb, w). length (wrs w fl))") (auto dest: sys_write_decreases)

declare store_block.simps [simp del]

interpretation blocks: while_int store_block
  by unfold_locales (rule store_block.simps)

text \<open>Lines 78 to 84.\<close>

function get_file :: "int \<Rightarrow> i32 \<Rightarrow> i32 \<Rightarrow> int \<Rightarrow> unit nio" where
  "get_file fl fileSize totalReadBytes writeBytes s =
     (if sint totalReadBytes < sint fileSize then
        bindIO (sys_recvfrom 10240) (\<lambda>r s1.
          let (fileBuffer, readBytes) = (case r of None \<Rightarrow> ([], -1) | Some (bs, _) \<Rightarrow> (bs, int (length bs))) in
          bindIO (on_sys (store_block fl fileBuffer readBytes writeBytes)) (\<lambda>writeBytes s2.
            get_file fl fileSize (totalReadBytes + of_int writeBytes) writeBytes s2) s1) s
      else (Ret (), s))"
  by pat_completeness auto
termination
proof (relation "measure (\<lambda>(fl, n, t, wb, s). length (inbox s))", goal_cases)
  case (2 fl n t wb s r s1 p m rb x s2)
  from 2(5) have "inbox s2 = inbox s1" by (auto simp: on_sys_def split: prod.splits)
  with recvfrom_decreases [OF 2(2)] show ?case by simp
qed simp

declare get_file.simps [simp del]

section \<open>The program\<close>

definition atoi :: "string \<Rightarrow> i32" where
  "atoi s = of_int (strtol10 s)"

text \<open>\<open>strtok\<close> returns a null pointer when there is no token, which both uses dereference.\<close>

definition token :: "string \<Rightarrow> (string \<times> string) res" where
  "token t = (case strtok '' '' t of None \<Rightarrow> Crash Null_Deref | Some x \<Rightarrow> Ret x)"

text \<open>\<open>open\<close> with a null pointer, the end of \<open>argv\<close>, returns -1.\<close>

definition open_target :: "string list \<Rightarrow> int cio" where
  "open_target argv = (if 2 < length argv then sys_creat (argv ! 2) else retIO (-1))"

text \<open>Lines 86 to 95.\<close>

definition finish :: "int \<Rightarrow> int \<Rightarrow> sockaddr_in \<Rightarrow> int nio" where
  "finish udpSocket fl udpClient =
     bindIO (on_sys (sys_close fl)) (\<lambda>_.
     bindIO (sys_recvfrom 255) (\<lambda>r.
     bindIO (liftR (text_of (fst (received udpClient r)))) (\<lambda>t.
     bindIO (on_sys (sys_printf (''Recibimos: '' @ show_addr udpClient @ '' '' @ t))) (\<lambda>_.
     bindIO (on_sys (sys_close udpSocket)) (\<lambda>_.
     retIO 0)))))"

text \<open>Lines 75 to 95.\<close>

definition fetch :: "int \<Rightarrow> int \<Rightarrow> sockaddr_in \<Rightarrow> sockaddr_in \<Rightarrow> i32 \<Rightarrow> int \<Rightarrow> int nio" where
  "fetch udpSocket fl udpServer udpClient fileSize w0 =
     bindIO (send_text ''OK'' udpServer) (\<lambda>_.
     bindIO (get_file fl fileSize 0 w0) (\<lambda>_.
     finish udpSocket fl udpClient))"

text \<open>
  Lines 40 to 95. \<open>a0\<close>, \<open>c0\<close> and \<open>w0\<close> are what the variables \<open>udpServer\<close>, \<open>udpClient\<close> and
  \<open>writeBytes\<close> hold when \<open>main\<close> starts.
\<close>

definition main :: "sockaddr_in \<Rightarrow> sockaddr_in \<Rightarrow> int \<Rightarrow> string list \<Rightarrow> int nio" where
  "main a0 c0 w0 argv =
     bindIO (on_sys sys_socket) (\<lambda>udpSocket.
       if udpSocket = -1 then retIO 1
       else
         let udpServer = server_addr a0 [127, 0, 0, 1] in
         bindIO (liftR (arg argv 1)) (\<lambda>name.
         bindIO (send_text name udpServer) (\<lambda>_.
         bindIO (sys_recvfrom 255) (\<lambda>r.
         let (buffer, udpClient) = received c0 r in
         bindIO (liftR (text_of buffer)) (\<lambda>t.
         bindIO (on_sys (sys_printf (''Recibimos: '' @ show_addr udpClient @ '' '' @ t))) (\<lambda>_.
         bindIO (liftR (token t)) (\<lambda>(tok, behind).
           if tok \<noteq> ''READY'' then retIO (-1)
           else bindIO (liftR (token behind)) (\<lambda>(tok, _).
                bindIO (on_sys (open_target argv)) (\<lambda>fl.
                  if fl = -1 then retIO (-1)
                  else fetch udpSocket fl udpServer udpClient (atoi tok) w0)))))))))"

section \<open>What is stored\<close>

text \<open>
  The bytes that reach the file: of each datagram only what lies behind the length of the longest
  one before it. The total that ends the loop adds that longest length for each datagram.
\<close>

fun kept :: "nat \<Rightarrow> string list \<Rightarrow> string" where
  "kept n [] = []"
| "kept n (d # ds) = drop n d @ kept (max n (length d)) ds"

fun counted :: "nat \<Rightarrow> string list \<Rightarrow> nat" where
  "counted n [] = 0"
| "counted n (d # ds) = max n (length d) + counted (max n (length d)) ds"

lemma store_block_run:
  assumes "length d \<le> 10240" and "accepting (wrs w fl) (length d - n)"
  shows "\<exists>k. store_block fl d (int (length d)) (int n) w = (Ret (int (max n (length d))), wrote fl (drop n d) k w) \<and>
     k \<le> length d - n"
proof (cases "n < length d")
  case True
  have "length d < 2 ^ 31" using assms(1) by simp
  from blocks.lp_total [OF True le_refl this assms(2)] obtain k where
    k: "blocks.nl fl d (length d) n w = (Ret (length d), wrote fl (drop n d) k w)" "k \<le> length d - n" by auto
  obtain x w' where x: "store_block fl d (int (length d)) (int n) w = (Ret x, w')" "nat x = length d"
      "w' = wrote fl (drop n d) k w"
    using k(1) by (cases "store_block fl d (int (length d)) (int n) w";
        cases "fst (store_block fl d (int (length d)) (int n) w)") (auto simp: blocks.nl_def)
  moreover from x(2) True have "x = int (max n (length d))" by auto
  ultimately show ?thesis using k(2) by auto
next
  case False
  then show ?thesis by (intro exI [of _ 0]) (simp add: store_block.simps max_def)
qed

lemma max_step: "(of_nat t + of_int (int n) :: i32) = of_nat (t + n)"
  by simp

lemma sint_nat: "n < 2 ^ 31 \<Longrightarrow> sint (of_nat n :: i32) = int n"
  using sint_small [of "int n"] by simp

lemma get_file_run:
  assumes "inbox s = map (\<lambda>d. Dg d a) ds @ q" and "\<forall>d\<in>set ds. length d \<le> 10240"
    and "\<forall>k<length ds. t + counted n (take k ds) < sz" and "sz \<le> t + counted n ds"
    and "t + counted n ds < 2 ^ 31" and "accepting (wrs (sys s) fl) (length (kept n ds))"
  shows "\<exists>k. get_file fl (of_nat sz) (of_nat t) (int n) s =
     (Ret (), s\<lparr>inbox := q, sys := wrote fl (kept n ds) k (sys s)\<rparr>) \<and> k \<le> length (kept n ds)"
  using assms
proof (induction ds arbitrary: s t n)
  case Nil
  then show ?case by (intro exI [of _ 0]) (simp add: get_file.simps sint_nat)
next
  case (Cons d ds)
  let ?m = "max n (length d)" and ?s1 = "s\<lparr>inbox := map (\<lambda>d. Dg d a) ds @ q\<rparr>"
  have lt: "t < sz" using Cons.prems(3) by (force dest: spec [of _ 0])
  have d: "length d \<le> 10240" "accepting (wrs (sys s) fl) (length d - n)"
    using Cons.prems(2,6) by (auto intro: accepting_mono)
  from store_block_run [OF d] obtain k where
    k: "store_block fl d (int (length d)) (int n) (sys s) = (Ret (int ?m), wrote fl (drop n d) k (sys s))" "k \<le> length d - n"
    by blast
  let ?s2 = "?s1\<lparr>sys := wrote fl (drop n d) k (sys s)\<rparr>"
  have "sz < 2 ^ 31" using Cons.prems(4,5) by simp
  then have "get_file fl (of_nat sz) (of_nat t) (int n) s =
      get_file fl (of_nat sz) (of_nat t + of_int (int ?m)) (int ?m) ?s2"
    using lt recvfrom_dg [of s d a "map (\<lambda>d. Dg d a) ds @ q" 10240] Cons.prems(1) d(1) k(1)
    by (simp add: get_file.simps [of fl "of_nat sz" "of_nat t" "int n" s] sint_nat on_sys_def)
  also have "\<dots> = get_file fl (of_nat sz) (of_nat (t + ?m)) (int ?m) ?s2" by (simp only: max_step)
  finally have run: "get_file fl (of_nat sz) (of_nat t) (int n) s = get_file fl (of_nat sz) (of_nat (t + ?m)) (int ?m) ?s2" .
  have "accepting (wrs (sys ?s2) fl) (length (kept ?m ds))"
    using accepting_drop [OF Cons.prems(6), of k] k(2) by (auto intro: accepting_mono)
  moreover have "\<forall>k<length ds. t + ?m + counted ?m (take k ds) < sz"
    using Cons.prems(3) by (auto dest: spec [of _ "Suc _"])
  ultimately obtain j where "get_file fl (of_nat sz) (of_nat (t + ?m)) (int ?m) ?s2 =
      (Ret (), ?s2\<lparr>inbox := q, sys := wrote fl (kept ?m ds) j (sys ?s2)\<rparr>)" "j \<le> length (kept ?m ds)"
    using Cons.IH [of ?s2 "t + ?m" ?m] Cons.prems(2,4,5) by (auto simp: add.assoc)
  with run k(2) show ?case by (intro exI [of _ "k + j"]) auto
qed

section \<open>The answer to the request\<close>

lemma ready_line_dec: "sz < 2 ^ 31 \<Longrightarrow> ready_line sz = ''READY '' @ dec sz @ crlf"
  by (simp add: ready_line_def sint_nat dec_int_def)

lemma dec_plain:
  assumes "c \<in> set (dec n)"
  shows "c \<noteq> NUL" "c \<noteq> SPC" "c \<noteq> CR" "c \<noteq> LF"
proof -
  have "is_digit c" using dec_digits [of n] assms by blast
  then show "c \<noteq> NUL" "c \<noteq> SPC" "c \<noteq> CR" "c \<noteq> LF" by (auto simp: is_digit_def)
qed

lemma ready_text:
  assumes "sz < 2 ^ 31"
  shows "text_of (ready_line sz @ replicate (255 - length (ready_line sz)) NUL) = Ret (ready_line sz)"
proof (rule text_of_short)
  show "NUL \<notin> set (ready_line sz)" using assms dec_plain(1) by (auto simp: ready_line_dec)
  have "length (dec sz) \<le> 10" using assms by (intro length_dec) simp_all
  then show "0 < 255 - length (ready_line sz)" using assms by (simp add: ready_line_dec)
qed

lemma ready_tokens:
  assumes "sz < 2 ^ 31"
  shows "token (ready_line sz) = Ret (''READY'', dec sz @ crlf)"
    and "token (dec sz @ crlf) = Ret (dec sz @ crlf, [])"
    and "atoi (dec sz @ crlf) = of_nat sz"
proof -
  show "token (ready_line sz) = Ret (''READY'', dec sz @ crlf)"
    using strtok_word(2) [of "''READY''" "'' ''" SPC "dec sz @ crlf"] assms by (simp add: token_def ready_line_dec)
  have "set (dec sz @ crlf) \<inter> set '' '' = {}" using dec_plain(2) by auto
  then show "token (dec sz @ crlf) = Ret (dec sz @ crlf, [])"
    using strtok_word(1) [of "dec sz @ crlf" "'' ''"] by (simp add: token_def)
  have "strtol10 (dec sz @ crlf) = int sz" using assms by (intro strtol10_dec) (simp_all add: is_digit_def)
  then show "atoi (dec sz @ crlf) = of_nat sz" by (simp add: atoi_def)
qed

text \<open>A client that gets as far as the loop: the socket, the file and both \<open>sendto\<close> succeed.\<close>

definition asking :: "net \<Rightarrow> string \<Rightarrow> wr list \<Rightarrow> bool" where
  "asking s path acc \<longleftrightarrow> (\<exists>k. socks (sys s) = [k] \<and> k \<noteq> -1) \<and> creats (sys s) path = Some acc \<and>
     next_fd (sys s) \<noteq> -1 \<and> sends s = [True, True]"

lemma main_gets:
  assumes "asking s path acc" and "inbox s = Dg (ready_line sz) a # r" and "sz < 2 ^ 31"
  shows "\<exists>k w. main a0 c0 w0 [prog, name, path] s =
     bindIO (get_file (next_fd (sys s)) (of_nat sz) 0 w0) (\<lambda>_. finish k (next_fd (sys s)) a)
       (s\<lparr>inbox := r, sys := w, sends := [],
          mailed := mailed s @ [(server_addr a0 [127, 0, 0, 1], name), (server_addr a0 [127, 0, 0, 1], ''OK'')]\<rparr>) \<and>
     wrs w (next_fd (sys s)) = acc \<and> outs w (next_fd (sys s)) = [] \<and> evts w = evts (sys s)"
proof -
  obtain k where k: "socks (sys s) = [k]" "k \<noteq> -1" "creats (sys s) path = Some acc"
    "next_fd (sys s) \<noteq> -1" "sends s = [True, True]" using assms(1) by (auto simp: asking_def)
  have len: "length (ready_line sz) \<le> 255" 
    using assms(3) length_dec [of sz 10] by (simp add: ready_line_dec)
  let ?fl = "next_fd (sys s)"
  let ?w = "(sys s)\<lparr>socks := [], stdout := stdout (sys s) @ ''Recibimos: '' @ show_addr a @ '' '' @ ready_line sz,
      next_fd := ?fl + 1, created := created (sys s) @ [(path, ?fl)],
      wrs := (wrs (sys s))(?fl := acc), outs := (outs (sys s))(?fl := [])\<rparr>"
  show ?thesis
    by (rule exI [of _ k], rule exI [of _ ?w])
      (use k assms(2) len ready_text [OF assms(3)] ready_tokens [OF assms(3)] in
        \<open>simp add: main_def fetch_def on_sys_def sys_socket_def sys_recvfrom_def received_Some Let_def arg_def
          sys_printf_def sys_creat_def open_target_def send_text_ok\<close>)
qed

section \<open>Files in blocks\<close>

text \<open>The blocks in which the server reads a regular file.\<close>

function blocks_of :: "string \<Rightarrow> string list" where
  "blocks_of d = (if d = [] then [] else take 10240 d # blocks_of (drop 10240 d))"
  by pat_completeness auto
termination
  by (relation "measure length") auto

declare blocks_of.simps [simp del]

lemma blocks_of_Nil [simp]: "blocks_of [] = []"
  by (simp add: blocks_of.simps)

lemma blocks_of_eq_Nil [simp]: "blocks_of d = [] \<longleftrightarrow> d = []"
  by (simp add: blocks_of.simps)

lemma concat_blocks_of [simp]: "concat (blocks_of d) = d"
  by (induction d rule: blocks_of.induct) (subst blocks_of.simps, simp)

lemma blocks_of_block: "b \<in> set (blocks_of d) \<Longrightarrow> block b"
  by (induction d rule: blocks_of.induct)
    (subst (asm) (2) blocks_of.simps, auto simp: block_def split: if_splits)

lemma blocks_of_length: "d \<noteq> [] \<Longrightarrow> 10240 * length (blocks_of d) < length d + 10240 \<and> length d \<le> 10240 * length (blocks_of d)"
proof (induction d rule: blocks_of.induct)
  case (1 d)
  then show ?case
    by (cases "drop 10240 d = []") (auto simp: blocks_of.simps [of d])
qed

lemma kept_none: "\<forall>d\<in>set ds. length d \<le> n \<Longrightarrow> kept n ds = []"
  by (induction ds) (auto simp: max_def)

lemma counted_same: "\<forall>d\<in>set ds. length d \<le> n \<Longrightarrow> counted n ds = n * length ds"
  by (induction ds) (auto simp: max_def)

lemma kept_short: "length d \<le> 10240 \<Longrightarrow> kept 0 (blocks_of d) = d"
  by (simp add: blocks_of.simps)

lemma kept_blocks: "kept 0 (blocks_of d) = take 10240 d"
proof (cases "length d \<le> 10240")
  case True
  then show ?thesis by (simp add: kept_short)
next
  case False
  then have "kept 10240 (blocks_of (drop 10240 d)) = []"
    using blocks_of_block by (intro kept_none) (auto simp: block_def)
  with False show ?thesis by (subst blocks_of.simps) simp
qed

lemma counted_blocks:
  assumes "d \<noteq> []"
  shows "\<forall>k<length (blocks_of d). counted 0 (take k (blocks_of d)) < length d"
    and "length d \<le> counted 0 (blocks_of d)" and "counted 0 (blocks_of d) < length d + 10240"
proof -
  let ?b = "take 10240 d" and ?r = "blocks_of (drop 10240 d)"
  have b: "blocks_of d = ?b # ?r" using assms by (subst blocks_of.simps) simp
  have le: "\<forall>x\<in>set ?r. length x \<le> length ?b"
  proof (cases "length d \<le> 10240")
    case False
    then show ?thesis using blocks_of_block by (auto simp: block_def)
  qed simp
  have c: "counted 0 (take (Suc k) (blocks_of d)) = length ?b * Suc (length (take k ?r))" for k
  proof -
    have "counted (length ?b) (take k ?r) = length ?b * length (take k ?r)"
      by (rule counted_same) (meson in_set_takeD le)
    then show ?thesis by (simp only: b take_Suc_Cons counted.simps max_0L mult_Suc_right)
  qed
  have all: "counted 0 (blocks_of d) = length ?b * Suc (length ?r)"
    using c [of "length ?r"] by (simp add: b)
  note len = blocks_of_length [OF assms]
  have le_all: "length d \<le> length ?b * length (blocks_of d)" and gt_all: "length ?b * length (blocks_of d) < length d + 10240"
    using len assms by (cases "length d \<le> 10240"; simp add: b)+
  have n: "counted 0 (blocks_of d) = length ?b * length (blocks_of d)"
    unfolding all by (simp add: b)
  show "length d \<le> counted 0 (blocks_of d)" "counted 0 (blocks_of d) < length d + 10240"
    unfolding n by (rule le_all gt_all)+
  show "\<forall>k<length (blocks_of d). counted 0 (take k (blocks_of d)) < length d"
  proof (intro allI impI)
    fix k assume k: "k < length (blocks_of d)"
    show "counted 0 (take k (blocks_of d)) < length d"
    proof (cases k)
      case 0
      then show ?thesis using assms by simp
    next
      case (Suc j)
      with k have "?r \<noteq> []" "Suc j \<le> length ?r" by (auto simp: b)
      then have "length ?b = 10240" "10240 * Suc j < length d" using len by (auto simp: b)
      with c [of j] Suc \<open>Suc j \<le> length ?r\<close> show ?thesis by simp
    qed
  qed
qed

text \<open>The last datagram, and a client that waits for it in vain.\<close>

lemma BYE_text: "text_of (''BYE'' @ replicate 252 NUL) = Ret ''BYE''"
  by (rule text_of_short) auto

lemma finish_BYE:
  assumes "inbox s = [Dg ''BYE'' b]"
  shows "\<exists>s'. finish k fl a s = (Ret 0, s') \<and> outs (sys s') = outs (sys s) \<and> mailed s' = mailed s"
  using assms BYE_text
  by (simp add: finish_def on_sys_def sys_close_def sys_recvfrom_def received_Some sys_printf_def)

lemma finish_blocks:
  assumes "inbox s = []"
  shows "\<exists>s'. finish k fl a s = (Blocked, s') \<and> outs (sys s') = outs (sys s) \<and>
     evts (sys s') = evts (sys s) @ [Ev_Close fl] \<and> inbox s' = []"
  using assms by (simp add: finish_def on_sys_def sys_close_def sys_recvfrom_def)

end
