(* ===== verification/Udp_Transfer.thy ===== *)
theory Udp_Transfer
  imports Udp_Client
begin

text \<open>
  UDP_FileTransfer: the server and the client together. The variables that nothing initialises
  (\<open>totalSendBytes\<close> and \<open>writeBytes\<close>) are taken to be 0 here, the only value with which a transfer
  can work.
\<close>

lemma in_transit:
  assumes "asked ss name (blocks_of d) a b" and "mailed ss = []"
  shows "\<exists>ss'. Udp_Server.main a0 c0 0 ss = (Ret 0, ss') \<and>
     map (\<lambda>(_, m). Dg m srv) (mailed ss') =
       Dg (ready_line (length d)) srv # map (\<lambda>m. Dg m srv) (blocks_of d) @ [Dg ''BYE'' srv]"
  using served [OF assms(1), of a0 c0] assms(2) by (auto simp: comp_def)

text \<open>The client's loop, when the datagrams it counts are what it receives up to a point.\<close>

lemma client_loop:
  assumes "asking sc path acc" and "inbox sc = Dg (ready_line sz) srv # map (\<lambda>m. Dg m srv) ds @ q"
    and "\<forall>m\<in>set ds. length m \<le> 10240" and "accepting acc (length (kept 0 ds))"
    and "\<forall>k<length ds. counted 0 (take k ds) < sz" and "sz \<le> counted 0 ds" and "counted 0 ds < 2 ^ 31"
  shows "\<exists>k t. main a1 c1 0 [prog, name, path] sc =
     finish k (next_fd (sys sc)) srv t \<and>
     inbox t = q \<and> outs (sys t) (next_fd (sys sc)) = kept 0 ds \<and> evts (sys t) = evts (sys sc) \<and>
     map snd (mailed t) = map snd (mailed sc) @ [name, ''OK'']"
proof -
  have "sz < 2 ^ 31" using assms(6,7) by simp
  from main_gets [OF assms(1,2) this, of a1 c1 0 prog name] obtain k w where
    m: "main a1 c1 0 [prog, name, path] sc =
     bindIO (get_file (next_fd (sys sc)) (of_nat sz) 0 0) (\<lambda>_. finish k (next_fd (sys sc)) srv)
       (sc\<lparr>inbox := map (\<lambda>m. Dg m srv) ds @ q, sys := w, sends := [],
          mailed := mailed sc @ [(server_addr a1 [127, 0, 0, 1], name), (server_addr a1 [127, 0, 0, 1], ''OK'')]\<rparr>)"
    (is "_ = bindIO _ _ ?s") and w: "wrs w (next_fd (sys sc)) = acc" "outs w (next_fd (sys sc)) = []" "evts w = evts (sys sc)"
    by blast
  obtain j where "get_file (next_fd (sys sc)) (of_nat sz) (of_nat 0) (int 0) ?s =
     (Ret (), ?s\<lparr>inbox := q, sys := wrote (next_fd (sys sc)) (kept 0 ds) j (sys ?s)\<rparr>)"
    using get_file_run [of ?s srv ds q 0 0 sz "next_fd (sys sc)"] assms(3-7) w(1) by auto
  with m w show ?thesis
    by (intro exI [of _ k] exI [of _ "?s\<lparr>inbox := q, sys := wrote (next_fd (sys sc)) (kept 0 ds) j (sys ?s)\<rparr>"]) simp
qed

text \<open>
  C22: A file served over UDP, when the variables \<open>totalSendBytes\<close> of the server and \<open>writeBytes\<close> of
  the client, which nothing initialises, both happen to hold 0, no datagram is lost, duplicated or
  reordered and no write fails: both programs return 0 and the client has stored the first 10240
  bytes of the file. What lies behind them is received and counted but never written. (The file is
  shorter than 2^31 - 10240 bytes.)
\<close>

theorem udp_first_block:
  assumes "asked ss name (blocks_of d) a b" and "mailed ss = []" and "length d < 2 ^ 31 - 10240"
    and "asking sc path acc" and "accepting acc (min 10240 (length d))"
    and "inbox sc = map (\<lambda>(_, m). Dg m srv) (mailed (snd (Udp_Server.main a0 c0 0 ss)))"
  shows "\<exists>ss' sc'. Udp_Server.main a0 c0 0 ss = (Ret 0, ss') \<and>
     Udp_Client.main a1 c1 0 [prog, name, path] sc = (Ret 0, sc') \<and>
     outs (sys sc') (next_fd (sys sc)) = take 10240 d \<and>
     map snd (mailed sc') = map snd (mailed sc) @ [name, ''OK'']"
proof -
  obtain ss' where ss': "Udp_Server.main a0 c0 0 ss = (Ret 0, ss')"
    "inbox sc = Dg (ready_line (length d)) srv # map (\<lambda>m. Dg m srv) (blocks_of d) @ [Dg ''BYE'' srv]"
    using in_transit [OF assms(1,2), of a0 c0 srv] assms(6) by auto
  have bl: "\<forall>m\<in>set (blocks_of d). length m \<le> 10240" using blocks_of_block by (auto simp: block_def)
  have acc: "accepting acc (length (kept 0 (blocks_of d)))" using assms(5) by (simp add: kept_blocks min.commute)
  have cnt: "\<forall>k<length (blocks_of d). counted 0 (take k (blocks_of d)) < length d"
      "length d \<le> counted 0 (blocks_of d)" "counted 0 (blocks_of d) < 2 ^ 31"
    using counted_blocks [of d] assms(3) by (cases "d = []"; force)+
  from client_loop [OF assms(4) ss'(2) bl acc cnt, of a1 c1 prog name] obtain k t where
    t: "main a1 c1 0 [prog, name, path] sc = finish k (next_fd (sys sc)) srv t" "inbox t = [Dg ''BYE'' srv]"
      "outs (sys t) (next_fd (sys sc)) = take 10240 d" "map snd (mailed t) = map snd (mailed sc) @ [name, ''OK'']"
    by (auto simp: kept_blocks)
  from finish_BYE [OF t(2), of k "next_fd (sys sc)" srv] obtain sc' where
    "finish k (next_fd (sys sc)) srv t = (Ret 0, sc')" "outs (sys sc') = outs (sys t)" "mailed sc' = mailed t" by blast
  with ss'(1) t show ?thesis by (intro exI [of _ ss'] exI [of _ sc']) simp
qed

section \<open>An example\<close>

definition peer :: sockaddr_in where
  "peer = \<lparr>sin_family = AF_INET, sin_port = htons 5000, sin_addr = [127, 0, 0, 1], sin_zero = []\<rparr>"

definition demo_server :: "string \<Rightarrow> net" where
  "demo_server d = \<lparr>sys = idle\<lparr>files := (\<lambda>_. None)(''f'' \<mapsto> \<lparr>fsize = length d, fdata = map Rd_Data (blocks_of d)\<rparr>),
       socks := [3], binds := [0]\<rparr>,
     inbox = [Dg ''f'' peer, Dg ''OK'' peer], sends = replicate (length (blocks_of d) + 2) True, mailed = []\<rparr>"

definition demo_client :: "(sockaddr_in \<times> string) list \<Rightarrow> net" where
  "demo_client ms = \<lparr>sys = idle\<lparr>creats := (\<lambda>_. None)(''g'' \<mapsto> replicate 10240 (Wr_Acc 10240)), socks := [3]\<rparr>,
     inbox = map (\<lambda>(_, m). Dg m peer) ms, sends = [True, True], mailed = []\<rparr>"

lemma demo_asked: "length d < 2 ^ 31 \<Longrightarrow> asked (demo_server d) ''f'' (blocks_of d) peer peer"
  using blocks_of_block by (auto simp: asked_def demo_server_def)

lemma demo_asking: "asking (demo_client ms) ''g'' (replicate 10240 (Wr_Acc 10240))"
  by (simp add: asking_def demo_client_def)

lemma demo_sel [simp]:
  "mailed (demo_server d) = []" "inbox (demo_client ms) = map (\<lambda>(_, m). Dg m peer) ms"
  "next_fd (sys (demo_client ms)) = 8" "mailed (demo_client ms) = []" "evts (sys (demo_client ms)) = []"
  by (simp_all add: demo_server_def demo_client_def)

lemma udp_first_block_witness:
  "\<exists>ss' sc'. Udp_Server.main peer peer 0 (demo_server (replicate 10241 CHR ''x'')) = (Ret 0, ss') \<and>
     Udp_Client.main peer peer 0 [''client'', ''f'', ''g'']
       (demo_client (mailed (snd (Udp_Server.main peer peer 0 (demo_server (replicate 10241 CHR ''x'')))))) = (Ret 0, sc') \<and>
     outs (sys sc') 8 = replicate 10240 CHR ''x'' \<and> map snd (mailed sc') = [''f'', ''OK'']"
  using udp_first_block [OF demo_asked [of "replicate 10241 CHR ''x''"] demo_sel(1) _ demo_asking _ demo_sel(2), of peer peer peer peer "''client''"]
  by (simp add: accepting_replicate del: One_nat_def)

lemma counted_take: "\<forall>d\<in>set ds. length d \<le> n \<Longrightarrow> k \<le> length ds \<Longrightarrow> counted n (take k ds) = n * k"
  using counted_same [of "take k ds" n] by (auto dest: in_set_takeD)

text \<open>
  C23: A block of the file that is lost. When one block after the first does not arrive, and all
  other datagrams (READY, the other blocks, BYE) do and in order, the client counts BYE as a block,
  takes the file for complete after its first 10240 bytes, closes it, and then waits for BYE for
  ever with its socket open. As above both uninitialised variables are taken to be 0 and no write
  to fail. Nothing is said here of the loss of READY, of the first block or of BYE.
\<close>

theorem udp_lost_block:
  assumes "asked ss name (blocks_of d) a b" and "mailed ss = []" and "length d < 2 ^ 31 - 10240"
    and "0 < i" and "i < length (blocks_of d)"
    and "asking sc path acc" and "accepting acc 10240"
    and "inbox sc = map (\<lambda>(_, m). Dg m srv)
      (let ms = mailed (snd (Udp_Server.main a0 c0 0 ss)) in take (Suc i) ms @ drop (Suc (Suc i)) ms)"
  shows "\<exists>sc'. Udp_Client.main a1 c1 0 [prog, name, path] sc = (Blocked, sc') \<and>
     outs (sys sc') (next_fd (sys sc)) = take 10240 d \<and> inbox sc' = [] \<and>
     evts (sys sc') = evts (sys sc) @ [Ev_Close (next_fd (sys sc))]"
proof -
  let ?bs = "blocks_of d" and ?rest = "blocks_of (drop 10240 d)"
  from assms(5) have ne: "d \<noteq> []" by auto
  then have b: "?bs = take 10240 d # ?rest" by (subst blocks_of.simps) simp
  with assms(4,5) have "?rest \<noteq> []" by auto
  then have full: "length (take 10240 d) = 10240" by simp
  define tl where "tl = take (i - 1) ?rest @ drop i ?rest @ [''BYE'']"
  define ds where "ds = take 10240 d # tl"
  have small: "\<forall>m\<in>set ?rest. length m \<le> 10240" using blocks_of_block by (auto simp: block_def)
  then have tail: "\<forall>m\<in>set tl. length m \<le> 10240"
    by (auto simp: tl_def dest: in_set_takeD in_set_dropD)
  have "i - 1 < length ?rest" using assms(4,5) by (simp add: b)
  then have len: "length ds = length ?bs" using assms(4) by (simp add: ds_def tl_def b)
  have kept: "kept 0 ds = take 10240 d" using kept_none [OF tail] full by (simp add: ds_def)
  have cnt: "counted 0 (take k ds) = 10240 * k" if "k \<le> length ds" for k
    using that full counted_take [OF tail] by (cases k) (simp_all add: ds_def)
  have "length d \<le> 10240 * length ?bs" "10240 * length ?bs < length d + 10240" using blocks_of_length [OF ne] by simp_all
  then have c: "\<forall>k<length ds. counted 0 (take k ds) < length d" "length d \<le> counted 0 ds" "counted 0 ds < 2 ^ 31"
    using cnt [of "length ds"] cnt assms(3) len by auto
  obtain ss' where "mailed ss' = (a, ready_line (length d)) # map (Pair b) ?bs @ [(b, ''BYE'')]" "Udp_Server.main a0 c0 0 ss = (Ret 0, ss')"
    using served [OF assms(1), of a0 c0] assms(2) by auto
  then have inb: "inbox sc = Dg (ready_line (length d)) srv # map (\<lambda>m. Dg m srv) ds @ []"
    using assms(4,5,8) b by (cases i) (auto simp: ds_def tl_def comp_def take_map drop_map Let_def)
  have "\<forall>m\<in>set ds. length m \<le> 10240" "accepting acc (length (kept 0 ds))"
    using tail assms(7) kept full by (auto simp: ds_def)
  from client_loop [OF assms(6) inb this c, of a1 c1 prog name] obtain k t where
    t: "main a1 c1 0 [prog, name, path] sc = finish k (next_fd (sys sc)) srv t" "inbox t = []"
      "outs (sys t) (next_fd (sys sc)) = take 10240 d" "evts (sys t) = evts (sys sc)"
    by (auto simp: kept)
  from finish_blocks [OF t(2), of k "next_fd (sys sc)" srv] t show ?thesis by force
qed

lemma udp_lost_block_witness:
  "\<exists>sc'. Udp_Client.main peer peer 0 [''client'', ''f'', ''g'']
       (demo_client (let ms = mailed (snd (Udp_Server.main peer peer 0 (demo_server (replicate 20481 CHR ''x''))))
                     in take (Suc 1) ms @ drop (Suc (Suc 1)) ms)) = (Blocked, sc') \<and>
     outs (sys sc') 8 = replicate 10240 CHR ''x'' \<and> inbox sc' = [] \<and> evts (sys sc') = [Ev_Close 8]"
proof -
  let ?d = "replicate 20481 CHR ''x''"
  have "1 < length (blocks_of ?d)" using blocks_of_length [of ?d] by simp
  then show ?thesis
    using udp_lost_block [where i = 1 and ?a0.0 = peer and ?c0.0 = peer and ?a1.0 = peer and ?c1.0 = peer and prog = "''client''",
      OF demo_asked [of ?d] demo_sel(1) _ _ _ demo_asking _ demo_sel(2)]
    by (simp add: accepting_replicate)
qed

end
