(* ===== verification/Udp_Bounded.thy ===== *)
theory Udp_Bounded
  imports Udp_Transfer
begin

text \<open>
  UDP_FileTransfer/client.c against a hostile network: whatever datagrams arrive, in whatever
  order, duplicated, made up or not at all, what its storing loop can write is bounded.
\<close>

section \<open>The loop\<close>


section \<open>The program around it\<close>














section \<open>Properties\<close>




text \<open>The extra byte: of a datagram of three bytes, with one failed write, four are stored.\<close>

lemma failed_write_stores_more:
  assumes "wrs w fl = [Wr_Acc 2, Wr_Err, Wr_Acc 2]" and "outs w fl = []"
  shows "\<exists>w'. store_block fl ''abc'' 3 0 w = (Ret 3, w') \<and> outs w' fl = ''abbc''"
  using assms by (simp add: store_block.simps sys_write_def)

end
