(* ===== verification/Bcast.thy ===== *)
theory Bcast
  imports Udp_Server
begin

text \<open>bdcast/listen.c: prints every datagram that arrives at port 5000, with its sender.\<close>

section \<open>The program\<close>

definition line :: "sockaddr_in \<Rightarrow> string \<Rightarrow> string" where
  "line from t = ''Recibimos: '' @ show_addr from @ '' '' @ t @ [LF]"

text \<open>Lines 39 to 49. After an error the address of the datagram before is printed again.\<close>

function listen_loop :: "sockaddr_in \<Rightarrow> int nio" where
  "listen_loop udpClient s =
     bindIO (sys_recvfrom 255) (\<lambda>r s1.
       let (buffer, udpClient) = received udpClient r in
       bindIO (liftR (text_of buffer)) (\<lambda>t s1.
         bindIO (on_sys (sys_printf (line udpClient t))) (\<lambda>_ s2. listen_loop udpClient s2) s1) s1) s"
  by pat_completeness auto
termination
proof (relation "measure (\<lambda>(a, s). length (inbox s))", goal_cases)
  case (2 a s r s1 p b c t s1' u s2)
  from 2(4,5) have "inbox s2 = inbox s1" by (auto simp: on_sys_def split: prod.splits)
  with recvfrom_decreases [OF 2(1)] show ?case by simp
qed simp

declare listen_loop.simps [simp del]

text \<open>\<open>a0\<close> and \<open>c0\<close> are what \<open>udpServer\<close> and \<open>udpClient\<close> hold at the start.\<close>

definition main :: "sockaddr_in \<Rightarrow> sockaddr_in \<Rightarrow> int nio" where
  "main a0 c0 =
     bindIO (on_sys sys_socket) (\<lambda>udpSocket.
       if udpSocket = -1 then retIO 1
       else bindIO (on_sys (sys_bind udpSocket (server_addr a0 [0, 0, 0, 0]))) (\<lambda>_.
            listen_loop c0))"

section \<open>What it prints\<close>

text \<open>A datagram has an end of text in the buffer: it is short, or holds a NUL in its first 255 bytes.\<close>

definition fits :: "string \<times> sockaddr_in \<Rightarrow> bool" where
  "fits x \<longleftrightarrow> length (fst x) < 255 \<or> NUL \<in> set (take 255 (fst x))"

definition heard :: "string \<times> sockaddr_in \<Rightarrow> string" where
  "heard x = line (snd x) (c_string (fst x))"

lemma text_of_datagram:
  "text_of (take 255 m @ replicate (255 - length (take 255 m)) NUL) =
     (if fits (m, from) then Ret (c_string m) else Crash Out_Of_Bounds)"
proof (cases "NUL \<in> set (take 255 m)")
  case True
  have "takeWhile (\<lambda>c. c \<noteq> NUL) (take 255 m @ drop 255 m) = takeWhile (\<lambda>c. c \<noteq> NUL) (take 255 m)"
    using True by (intro takeWhile_append1) auto
  moreover have "takeWhile (\<lambda>c. c \<noteq> NUL) (take 255 m @ q) = takeWhile (\<lambda>c. c \<noteq> NUL) (take 255 m)" for q
    using True by (intro takeWhile_append1) auto
  ultimately show ?thesis using True by (simp add: text_of_def c_string_def fits_def)
next
  case False
  show ?thesis
  proof (cases "length m < 255")
    case True
    with False text_of_short [of m "255 - length m"] show ?thesis by (simp add: fits_def c_string_id)
  next
    case long: False
    with False show ?thesis by (simp add: text_of_def fits_def)
  qed
qed

lemma listen_step:
  assumes "inbox s = Dg m from # q"
  shows "listen_loop c s =
     (if fits (m, from)
      then listen_loop from (s\<lparr>inbox := q, sys := (sys s)\<lparr>stdout := stdout (sys s) @ heard (m, from)\<rparr>\<rparr>)
      else (Crash Out_Of_Bounds, s\<lparr>inbox := q\<rparr>))"
  using assms text_of_datagram [of m "from"]
  by (subst listen_loop.simps) (simp add: sys_recvfrom_def received_Some on_sys_def sys_printf_def heard_def)

lemma listen_run:
  assumes "inbox s = map (\<lambda>(m, from). Dg m from) ms"
  shows "\<exists>s'. listen_loop c s = (if \<forall>x\<in>set ms. fits x then Blocked else Crash Out_Of_Bounds, s') \<and>
     stdout (sys s') = stdout (sys s) @ concat (map heard (takeWhile fits ms))"
  using assms
proof (induction ms arbitrary: s c)
  case Nil
  then show ?case by (subst listen_loop.simps) (simp add: recvfrom_empty)
next
  case (Cons x ms)
  obtain m p where x: "x = (m, p)" by fastforce
  let ?s = "s\<lparr>inbox := map (\<lambda>(m, from). Dg m from) ms, sys := (sys s)\<lparr>stdout := stdout (sys s) @ heard x\<rparr>\<rparr>"
  have step: "listen_loop c s = (if fits x then listen_loop p ?s
      else (Crash Out_Of_Bounds, s\<lparr>inbox := map (\<lambda>(m, from). Dg m from) ms\<rparr>))"
    using listen_step [of s m p "map (\<lambda>(m, from). Dg m from) ms" c] Cons.prems by (simp add: x)
  show ?case
  proof (cases "fits x")
    case True
    from Cons.IH [of ?s p] obtain s' where
      "listen_loop p ?s = (if \<forall>x\<in>set ms. fits x then Blocked else Crash Out_Of_Bounds, s')"
      "stdout (sys s') = stdout (sys ?s) @ concat (map heard (takeWhile fits ms))" by auto
    with True step show ?thesis by (intro exI [of _ s']) simp
  qed (simp add: step)
qed

lemma main_run:
  assumes "socks (sys s) = [k]" and "k \<noteq> -1" and "binds (sys s) = [b]"
    and "inbox s = map (\<lambda>(m, from). Dg m from) ms"
  shows "\<exists>s'. main a0 c0 s = (if \<forall>x\<in>set ms. fits x then Blocked else Crash Out_Of_Bounds, s') \<and>
     stdout (sys s') = stdout (sys s) @ concat (map heard (takeWhile fits ms))"
proof -
  let ?s = "s\<lparr>sys := (sys s)\<lparr>socks := [], binds := [], evts := evts (sys s) @ [Ev_Bind k (server_addr a0 [0, 0, 0, 0])]\<rparr>\<rparr>"
  have "main a0 c0 s = listen_loop c0 ?s"
    using assms(1-3) by (simp add: main_def on_sys_def sys_socket_def sys_bind_def)
  then show ?thesis using listen_run [of ?s ms c0] assms(4) by simp
qed

text \<open>
  C28: What the listener does with any datagrams, in the order they arrive: it prints the address of
  the sender and the bytes before the first NUL of each datagram (all of it when there is none),
  and waits for more. A datagram of 255 bytes or more fills the buffer to its last byte: when there
  is no NUL among the first 255, printing it reads past the end of the buffer, and the first such
  datagram is the last thing the listener does. (Failed calls of \<open>recvfrom\<close> are not among what
  arrives here.)
\<close>

theorem bcast_prints:
  assumes "socks (sys s) = [k]" and "k \<noteq> -1" and "binds (sys s) = [b]"
    and "inbox s = map (\<lambda>(m, from). Dg m from) ms"
  shows "\<exists>s'. main a0 c0 s =
       (if \<exists>x\<in>set ms. 255 \<le> length (fst x) \<and> NUL \<notin> set (take 255 (fst x)) then Crash Out_Of_Bounds else Blocked, s') \<and>
     stdout (sys s') = stdout (sys s) @ concat (map (\<lambda>(m, from).
       ''Recibimos: '' @ show_addr from @ '' '' @ takeWhile (\<lambda>c. c \<noteq> NUL) m @ [LF])
       (takeWhile (\<lambda>x. length (fst x) < 255 \<or> NUL \<in> set (take 255 (fst x))) ms))"
proof -
  from main_run [OF assms, of a0 c0] obtain s' where
    run: "main a0 c0 s = (if \<forall>x\<in>set ms. fits x then Blocked else Crash Out_Of_Bounds, s')" and
    out: "stdout (sys s') = stdout (sys s) @ concat (map heard (takeWhile fits ms))" by blast
  have "(\<exists>x\<in>set ms. 255 \<le> length (fst x) \<and> NUL \<notin> set (take 255 (fst x))) \<longleftrightarrow> \<not> (\<forall>x\<in>set ms. fits x)"
    by (simp add: fits_def not_less)
  then have "main a0 c0 s = (if \<exists>x\<in>set ms. 255 \<le> length (fst x) \<and> NUL \<notin> set (take 255 (fst x))
      then Crash Out_Of_Bounds else Blocked, s')"
    using run by (simp only: if_not_P if_P if_cancel split: if_split) simp
  moreover have "heard = (\<lambda>(m, from). ''Recibimos: '' @ show_addr from @ '' '' @ takeWhile (\<lambda>c. c \<noteq> NUL) m @ [LF])"
    by (auto simp: heard_def line_def c_string_def)
  ultimately show ?thesis using out by (intro exI [of _ s']) (simp add: fits_def [abs_def])
qed

definition demo_peer :: sockaddr_in where
  "demo_peer = \<lparr>sin_family = AF_INET, sin_port = htons 5000, sin_addr = [10, 0, 0, 1], sin_zero = []\<rparr>"

lemma bcast_prints_witness:
  "\<exists>s'. main demo_peer demo_peer \<lparr>sys = idle\<lparr>socks := [3], binds := [0]\<rparr>,
       inbox = [Dg ''hola'' demo_peer, Dg (''a'' @ [NUL] @ replicate 300 CHR ''x'') demo_peer,
         Dg (replicate 255 CHR ''x'') demo_peer, Dg ''adios'' demo_peer],
       sends = [], mailed = []\<rparr> = (Crash Out_Of_Bounds, s') \<and>
     stdout (sys s') = ''Recibimos: '' @ show_addr demo_peer @ '' hola'' @ [LF] @
       ''Recibimos: '' @ show_addr demo_peer @ '' a'' @ [LF]"
  using bcast_prints [of "\<lparr>sys = idle\<lparr>socks := [3], binds := [0]\<rparr>,
       inbox = [Dg ''hola'' demo_peer, Dg (''a'' @ [NUL] @ replicate 300 CHR ''x'') demo_peer,
         Dg (replicate 255 CHR ''x'') demo_peer, Dg ''adios'' demo_peer],
       sends = [], mailed = []\<rparr>" 3 0
     "[(''hola'', demo_peer), (''a'' @ [NUL] @ replicate 300 CHR ''x'', demo_peer),
       (replicate 255 CHR ''x'', demo_peer), (''adios'', demo_peer)]" demo_peer demo_peer]
  by simp

end
