(* ===== verification/Bcast_Sender.thy ===== *)
theory Bcast_Sender
  imports Bcast Udp_Client
begin

text \<open>
  bdcast/sender.c: sends a text a hundred times to a broadcast address. Line 40 of the file lacks
  the parenthesis that closes the call of \<open>setsockopt\<close>; it is read here as if it stood before the
  semicolon.
\<close>

section \<open>The program\<close>

text \<open>Lines 46 to 49: an address that is not one leaves the zeroes of \<open>memset\<close>.\<close>

definition broadcast_addr :: "string \<Rightarrow> u16 \<Rightarrow> sockaddr_in" where
  "broadcast_addr ip port = \<lparr>sin_family = AF_INET, sin_port = htons port,
     sin_addr = (case inet_pton4 ip of None \<Rightarrow> [0, 0, 0, 0] | Some os \<Rightarrow> os), sin_zero = replicate 8 NUL\<rparr>"

text \<open>Lines 52 to 56, from \<open>i\<close> on. \<open>sleep\<close> changes nothing that the model shows.\<close>

function send_rounds :: "string \<Rightarrow> sockaddr_in \<Rightarrow> int \<Rightarrow> unit nio" where
  "send_rounds sendString addr i s =
     (if i < 100 then
        bindIO (send_text sendString addr) (\<lambda>status.
        bindIO (on_sys (sys_printf (''Send '' @ dec_int status @ '' bytes to brodcast addr'' @ [LF]))) (\<lambda>_.
        send_rounds sendString addr (i + 1))) s
      else (Ret (), s))"
  by pat_completeness auto
termination
  by (relation "measure (\<lambda>(t, a, i, s). nat (100 - i))") auto

declare send_rounds.simps [simp del]

text \<open>\<open>opt\<close> is the answer of \<open>setsockopt\<close>. The end of \<open>main\<close> returns 0.\<close>

definition main :: "string list \<Rightarrow> int \<Rightarrow> int nio" where
  "main argv opt =
     (if length argv < 4 then liftR (Exit 1)
      else
        let broadcastIP = argv ! 1; broadcastPort = ucast (atoi (argv ! 2)); sendString = argv ! 3 in
        bindIO (on_sys sys_socket) (\<lambda>bcSock.
          if bcSock = -1 then retIO 1
          else if opt = -1 then retIO 1
          else bindIO (send_rounds sendString (broadcast_addr broadcastIP broadcastPort) 0) (\<lambda>_. retIO 0)))"

section \<open>What it sends\<close>

definition send_line :: "nat \<Rightarrow> bool \<Rightarrow> string" where
  "send_line n ok = ''Send '' @ dec_int (if ok then int n else -1) @ '' bytes to brodcast addr'' @ [LF]"

lemma send_round:
  assumes "sends s = ok # q" and "i < 100"
  shows "send_rounds t a i s = send_rounds t a (i + 1)
     (s\<lparr>sends := q, mailed := mailed s @ (if ok then [(a, t)] else []),
        sys := (sys s)\<lparr>stdout := stdout (sys s) @ send_line (length t) ok\<rparr>\<rparr>)"
  using assms
  by (subst send_rounds.simps)
    (cases s; cases ok; simp add: send_text_def sys_sendto_def on_sys_def sys_printf_def send_line_def bindIO_def)

lemma send_rounds_run:
  assumes "sends s = oks @ q" and "i + int (length oks) = 100"
  shows "\<exists>s'. send_rounds t a i s = (Ret (), s') \<and> inbox s' = inbox s \<and> sends s' = q \<and>
     mailed s' = mailed s @ replicate (count_list oks True) (a, t) \<and>
     stdout (sys s') = stdout (sys s) @ concat (map (send_line (length t)) oks)"
  using assms
proof (induction oks arbitrary: i s)
  case Nil
  then show ?case by (subst send_rounds.simps) simp
next
  case (Cons ok oks)
  let ?s = "s\<lparr>sends := oks @ q, mailed := mailed s @ (if ok then [(a, t)] else []),
        sys := (sys s)\<lparr>stdout := stdout (sys s) @ send_line (length t) ok\<rparr>\<rparr>"
  have "send_rounds t a i s = send_rounds t a (i + 1) ?s"
    by (rule send_round) (use Cons.prems in simp_all)
  moreover from Cons.IH [of ?s "i + 1"] Cons.prems(2) obtain s' where
    "send_rounds t a (i + 1) ?s = (Ret (), s')" "inbox s' = inbox ?s" "sends s' = q"
    "mailed s' = mailed ?s @ replicate (count_list oks True) (a, t)"
    "stdout (sys s') = stdout (sys ?s) @ concat (map (send_line (length t)) oks)" by auto
  ultimately show ?case by (intro exI [of _ s']) simp
qed

section \<open>Properties\<close>

lemma main_sends:
  assumes "socks (sys s) = k # ks" and "k \<noteq> -1" and "opt \<noteq> -1" and "sends s = oks" and "length oks = 100"
    and "length ip = 4" and "\<forall>v\<in>set ip. v < 256"
  shows "\<exists>s'. main [prog, inet_ntop4 ip, ''5000'', t] opt s = (Ret 0, s') \<and>
     mailed s' = mailed s @ replicate (count_list oks True)
       (\<lparr>sin_family = AF_INET, sin_port = htons 5000, sin_addr = ip, sin_zero = replicate 8 NUL\<rparr>, t) \<and>
     stdout (sys s') = stdout (sys s) @ concat (map (send_line (length t)) oks)"
proof -
  let ?a = "\<lparr>sin_family = AF_INET, sin_port = htons 5000, sin_addr = ip, sin_zero = replicate 8 NUL\<rparr>"
  let ?s = "s\<lparr>sys := (sys s)\<lparr>socks := ks\<rparr>\<rparr>"
  have "ucast (atoi ''5000'') = (5000 :: u16)" by code_simp
  then have addr: "broadcast_addr (inet_ntop4 ip) (ucast (atoi ''5000'')) = ?a"
    using inet_pton4_ntop4 [OF assms(6,7)] by (simp add: broadcast_addr_def)
  obtain s' where "send_rounds t ?a 0 ?s = (Ret (), s')" "mailed s' = mailed ?s @ replicate (count_list oks True) (?a, t)"
    "stdout (sys s') = stdout (sys ?s) @ concat (map (send_line (length t)) oks)"
    using send_rounds_run [of ?s oks "[]" 0 t ?a] assms(4,5) by auto
  with assms(1-3) addr show ?thesis
    by (intro exI [of _ s']) (simp add: main_def Let_def on_sys_def sys_socket_def)
qed

text \<open>
  C27: What is broadcast is heard. Started with an address, the port of the listener and a text, the
  sender reports each of its hundred datagrams and ends with 0; the listener prints the text once
  for each datagram that got out, unless the text is so long that the first of them kills it.
\<close>

theorem broadcast_heard:
  assumes "socks (sys s) = k # ks" and "k \<noteq> -1" and "opt \<noteq> -1" and "sends s = oks" and "length oks = 100"
    and "mailed s = []" and "length ip = 4" and "\<forall>v\<in>set ip. v < 256" and "NUL \<notin> set t"
    and "socks (sys l) = [j]" and "j \<noteq> -1" and "binds (sys l) = [b]"
    and "inbox l = map (\<lambda>(_, m). Dg m from) (mailed (snd (main [prog, inet_ntop4 ip, ''5000'', t] opt s)))"
  shows "\<exists>s' l'. main [prog, inet_ntop4 ip, ''5000'', t] opt s = (Ret 0, s') \<and>
     stdout (sys s') = stdout (sys s) @ concat (map (send_line (length t)) oks) \<and>
     map fst (mailed s') = replicate (count_list oks True)
       \<lparr>sin_family = AF_INET, sin_port = sin_port (server_addr a0 [0, 0, 0, 0]), sin_addr = ip, sin_zero = replicate 8 NUL\<rparr> \<and>
     Bcast.main a0 c0 l = (if length t < 255 \<or> True \<notin> set oks then Blocked else Crash Out_Of_Bounds, l') \<and>
     stdout (sys l') = stdout (sys l) @
       (if length t < 255 then concat (replicate (count_list oks True) (line from t)) else [])"
proof -
  let ?n = "count_list oks True"
  from main_sends [OF assms(1-5,7,8), of prog t] assms(6) obtain s' where
    s': "main [prog, inet_ntop4 ip, ''5000'', t] opt s = (Ret 0, s')"
      "mailed s' = replicate ?n (\<lparr>sin_family = AF_INET, sin_port = htons 5000, sin_addr = ip, sin_zero = replicate 8 NUL\<rparr>, t)"
      "stdout (sys s') = stdout (sys s) @ concat (map (send_line (length t)) oks)" by auto
  then have inb: "inbox l = map (\<lambda>(m, from). Dg m from) (replicate ?n (t, from))" using assms(13) by simp
  from Bcast.main_run [OF assms(10-12) inb, of a0 c0] obtain l' where
    l': "Bcast.main a0 c0 l = (if \<forall>x\<in>set (replicate ?n (t, from)). fits x then Blocked else Crash Out_Of_Bounds, l')"
      "stdout (sys l') = stdout (sys l) @ concat (map heard (takeWhile fits (replicate ?n (t, from))))"
    by blast
  have fits: "fits (t, from) \<longleftrightarrow> length t < 255" using assms(9) by (auto simp: fits_def dest: in_set_takeD)
  have "heard (t, from) = line from t" using assms(9) by (simp add: heard_def c_string_id)
  moreover have "(\<forall>x\<in>set (replicate ?n (t, from)). fits x) \<longleftrightarrow> length t < 255 \<or> True \<notin> set oks"
    by (auto simp: fits count_list_0_iff)
  moreover have "takeWhile fits (replicate ?n (t, from)) = (if length t < 255 then replicate ?n (t, from) else [])"
    by (cases ?n) (simp_all add: fits takeWhile_replicate)
  ultimately show ?thesis
    using s' l' by (intro exI [of _ s'] exI [of _ l']) (simp add: server_addr_def)
qed

text \<open>A sender whose last datagram does not get out, and a listener that hears the others.\<close>

definition demo_sender :: net where
  "demo_sender = \<lparr>sys = idle\<lparr>socks := [3]\<rparr>, inbox = [], sends = replicate 99 True @ [False], mailed = []\<rparr>"

definition demo_listener :: "(sockaddr_in \<times> string) list \<Rightarrow> net" where
  "demo_listener ms = \<lparr>sys = idle\<lparr>socks := [3], binds := [0]\<rparr>, inbox = map (\<lambda>(_, m). Dg m demo_peer) ms, sends = [], mailed = []\<rparr>"

lemma broadcast_heard_witness:
  "\<exists>s' l'. main [''sender'', inet_ntop4 [10, 0, 0, 255], ''5000'', ''hola''] 0 demo_sender = (Ret 0, s') \<and>
     Bcast.main demo_peer demo_peer (demo_listener
       (mailed (snd (main [''sender'', inet_ntop4 [10, 0, 0, 255], ''5000'', ''hola''] 0 demo_sender)))) = (Blocked, l') \<and>
     stdout (sys l') = concat (replicate 99 (line demo_peer ''hola''))"
proof -
  have c: "count_list (replicate 99 True @ [False]) True = 99" by code_simp
  from broadcast_heard [of demo_sender 3 "[]" 0 "replicate 99 True @ [False]" "[10, 0, 0, 255]" "''hola''"
      "demo_listener (mailed (snd (main [''sender'', inet_ntop4 [10, 0, 0, 255], ''5000'', ''hola''] 0 demo_sender)))"
      3 0 demo_peer "''sender''" demo_peer demo_peer]
  show ?thesis unfolding c by (simp add: demo_sender_def demo_listener_def) blast
qed

end
