(* ===== verification/Dialogue.thy ===== *)
theory Dialogue
  imports Causal
begin

text \<open>
  Two programs that talk over a connection, as a transition system. A state says what has
  been delivered to each side, in which segments; a step delivers some more of what the
  other side has said by then. The network chooses the order and the segments.
\<close>

section \<open>Deliveries\<close>

text \<open>What a program has said on a descriptor when its input so far is \<open>r\<close>.\<close>

definition said :: "int \<Rightarrow> 'a cio \<Rightarrow> os \<Rightarrow> rd list \<Rightarrow> string" where
  "said fd m w r = outs (snd (m (with_rds fd r w))) fd"

inductive delivery :: "(rd list \<Rightarrow> string) \<Rightarrow> (rd list \<Rightarrow> string) \<Rightarrow> rd list \<times> rd list \<Rightarrow> rd list \<times> rd list \<Rightarrow> bool"
  for C S where
  to_client: "bs \<noteq> [] \<Longrightarrow> prefix (stream rc @ bs) (S rs) \<Longrightarrow> delivery C S (rc, rs) (rc @ [Rd_Data bs], rs)"
| to_server: "bs \<noteq> [] \<Longrightarrow> prefix (stream rs @ bs) (C rc) \<Longrightarrow> delivery C S (rc, rs) (rc, rs @ [Rd_Data bs])"

inductive_cases delivery_cases: "delivery C S st st'"

text \<open>Nothing that was said is still under way.\<close>

definition settled :: "(rd list \<Rightarrow> string) \<Rightarrow> (rd list \<Rightarrow> string) \<Rightarrow> rd list \<times> rd list \<Rightarrow> bool" where
  "settled C S st \<longleftrightarrow> stream (fst st) = S (snd st) \<and> stream (snd st) = C (fst st)"

lemma settled_stuck: "settled C S st \<Longrightarrow> \<not> delivery C S st st'"
  by (auto simp: settled_def prefix_def elim!: delivery_cases)

definition delivered :: "rd list \<times> rd list \<Rightarrow> nat" where
  "delivered st = length (stream (fst st)) + length (stream (snd st))"

lemma delivery_more: "delivery C S st st' \<Longrightarrow> delivered st < delivered st'"
  by (induction rule: delivery.induct) (simp_all add: delivered_def)

text \<open>A side of the conversation that does not look ahead.\<close>

lemma said_grows:
  assumes "causal fd m" and "keeps evolves m" and "fd < next_fd w"
  shows "prefix (said fd m w r) (said fd m w (r @ q))"
  using causal_outs [OF assms(1,2), of "with_rds fd r w" fd q] assms(3) by (simp add: said_def add_rds_with_rds)

text \<open>Input that has not all arrived can be completed, and nothing that happens then contradicts
  what has happened before.\<close>

lemma completed:
  assumes "flowing r" and "prefix (stream r) s"
  obtains q where "flowing (r @ q)" and "stream (r @ q) = s"
proof -
  from assms(2) obtain t where t: "s = stream r @ t" by (auto simp: prefix_def)
  show ?thesis using that [of "if t = [] then [] else [Rd_Data t]"] assms(1) t by auto
qed

lemma early:
  assumes "causal fd m" and "keeps evolves m" and "fd < next_fd w" and "m (with_rds fd (r @ q) w) = (Ret x, w')"
  shows "(fst (m (with_rds fd r w)) = Blocked \<or> fst (m (with_rds fd r w)) = Ret x) \<and>
    ahead (snd (m (with_rds fd r w))) w'"
proof -
  obtain r1 w1 where m: "m (with_rds fd r w) = (r1, w1)" by fastforce
  have "fd < next_fd (with_rds fd r w)" using assms(3) by simp
  from causal_at_cases [OF causalD [OF assms(1)] this m, of q] assms(4) m show ?thesis
    by (cases "r1 = Blocked") (auto simp: add_rds_with_rds)
qed

section \<open>The conversation\<close>

text \<open>
  Both programs started in a situation \<open>p\<close> that is \<open>ready\<close>; \<open>C p\<close> and \<open>S p\<close> are what they have
  said, and \<open>most p\<close> bounds what they can say to each other.
\<close>

locale dialogue =
  fixes C S :: "'p \<Rightarrow> rd list \<Rightarrow> string" and ready :: "'p \<Rightarrow> bool" and most :: "'p \<Rightarrow> nat"
  assumes C_grows: "ready p \<Longrightarrow> prefix (C p r) (C p (r @ q))"
    and S_grows: "ready p \<Longrightarrow> prefix (S p r) (S p (r @ q))"
    and bounded: "ready p \<Longrightarrow> flowing rc \<Longrightarrow> flowing rs \<Longrightarrow> prefix (stream rc) (S p rs) \<Longrightarrow>
        prefix (stream rs) (C p rc) \<Longrightarrow> length (S p rs) + length (C p rc) \<le> most p"
begin

definition consistent :: "'p \<Rightarrow> rd list \<times> rd list \<Rightarrow> bool" where
  "consistent p st \<longleftrightarrow> flowing (fst st) \<and> flowing (snd st) \<and>
     prefix (stream (fst st)) (S p (snd st)) \<and> prefix (stream (snd st)) (C p (fst st))"

lemma consistent_start: "consistent p ([], [])"
  by (simp add: consistent_def)

lemma consistent_step: "delivery (C p) (S p) st st' \<Longrightarrow> ready p \<Longrightarrow> consistent p st \<Longrightarrow> consistent p st'"
proof (induction rule: delivery.induct)
  case (to_client bs rc rs)
  then show ?case using prefix_order.trans [OF _ C_grows] by (auto simp: consistent_def)
next
  case (to_server bs rs rc)
  then show ?case using prefix_order.trans [OF _ S_grows] by (auto simp: consistent_def)
qed

lemma reach_consistent: "(delivery (C p) (S p))\<^sup>*\<^sup>* ([], []) st \<Longrightarrow> ready p \<Longrightarrow> consistent p st"
  by (induction rule: rtranclp_induct) (auto intro: consistent_start consistent_step)

text \<open>As long as something is under way, it can be delivered.\<close>

lemma not_stuck:
  assumes "consistent p st"
  shows "settled (C p) (S p) st \<or> (\<exists>st'. delivery (C p) (S p) st st')"
proof (rule disjCI)
  assume no: "\<nexists>st'. delivery (C p) (S p) st st'"
  obtain rc rs where st: "st = (rc, rs)" by fastforce
  from assms st obtain a b where "S p rs = stream rc @ a" "C p rc = stream rs @ b"
    by (auto simp: consistent_def prefix_def)
  moreover from this no st have "a = []" "b = []"
    using to_client [of a rc "S p" rs "C p"] to_server [of b rs "C p" rc "S p"] by auto
  ultimately show "settled (C p) (S p) st" by (simp add: settled_def st)
qed

lemma consistent_delivered: "ready p \<Longrightarrow> consistent p st \<Longrightarrow> delivered st \<le> most p"
  using bounded [of p "fst st" "snd st"]
  by (auto simp: consistent_def delivered_def dest!: prefix_length_le)

text \<open>No schedule of the network takes more steps than there are bytes to deliver.\<close>

lemma run_length:
  assumes "(delivery (C p) (S p) ^^ n) ([], []) st" and "ready p"
  shows "n \<le> most p" and "consistent p st"
proof -
  have "n \<le> delivered st \<and> consistent p st"
    using assms(1)
  proof (induction n arbitrary: st)
    case 0
    then show ?case by (auto simp: consistent_start)
  next
    case (Suc n)
    from Suc.prems obtain u where u: "(delivery (C p) (S p) ^^ n) ([], []) u" "delivery (C p) (S p) u st" by auto
    with Suc.IH [of u] delivery_more [of "C p" "S p" u st] consistent_step [OF u(2) assms(2)] show ?case by fastforce
  qed
  then show "n \<le> most p" and "consistent p st" using consistent_delivered [OF assms(2), of st] by simp_all
qed

text \<open>A schedule that cannot be continued has delivered everything.\<close>

lemma stuck_settled:
  assumes "(delivery (C p) (S p) ^^ n) ([], []) (rc, rs)" and "ready p"
    and "\<nexists>st'. delivery (C p) (S p) (rc, rs) st'"
  shows "flowing rc" and "flowing rs" and "stream rc = S p rs" and "stream rs = C p rc"
  using not_stuck [OF run_length(2) [OF assms(1,2)]] run_length(2) [OF assms(1,2)] assms(3)
  by (auto simp: settled_def consistent_def)

end

end
