(* ===== verification/Get_Schedule.thy ===== *)
theory Get_Schedule
  imports FileTransfer Dialogue
begin

text \<open>
  FileTransfer_Proyecto over a network that delivers what it wants when it wants: server and
  client as a transition system whose steps are deliveries.
\<close>

section \<open>The server does not look ahead\<close>

lemma causal_copy_loop: "causal_at g w (copy_loop sock fd)"
proof (induction sock fd w rule: copy_loop.induct)
  case (1 sock fd w)
  have eq: "copy_loop sock fd = bindIO (sys_read fd 102400) (\<lambda>r.
      let readBytes = (case r of None \<Rightarrow> -1 | Some bs \<Rightarrow> of_nat (length bs)) :: u32;
          readBuffer = (case r of None \<Rightarrow> [] | Some bs \<Rightarrow> bs)
      in if 0 < readBytes then bindIO (chunk_loop sock readBuffer readBytes 0) (\<lambda>_. copy_loop sock fd)
         else retIO ())"
    by (rule ext, subst copy_loop.simps) (auto simp: Let_def intro!: bindIO_cong)
  have keeps: "keeps evolves (copy_loop sock fd)" by (rule keepsI) (rule keeps_copy_loop)
  show ?case
  proof (subst eq, rule causal_bind_at)
    fix r w1 assume rd: "sys_read fd 102400 w = (Ret r, w1)"
    define rb where "rb = ((case r of None \<Rightarrow> -1 | Some bs \<Rightarrow> of_nat (length bs)) :: u32)"
    define buf where "buf = (case r of None \<Rightarrow> [] | Some bs \<Rightarrow> bs)"
    have "causal_at g w1 (bindIO (chunk_loop sock buf rb 0) (\<lambda>_. copy_loop sock fd))" if "0 < rb"
    proof (rule causal_bind_at)
      fix x w2 assume "chunk_loop sock buf rb 0 w1 = (Ret x, w2)"
      with 1 [OF rd rb_def buf_def that] show "causal_at g w2 (copy_loop sock fd)" .
    qed (rule causalD [OF chunk.causal_wl] keeps_at [OF chunk.keeps_wl] keeps_at [OF keeps])+
    then show "causal_at g w1 (let readBytes = (case r of None \<Rightarrow> -1 | Some bs \<Rightarrow> of_nat (length bs)) :: u32;
          readBuffer = (case r of None \<Rightarrow> [] | Some bs \<Rightarrow> bs)
      in if 0 < readBytes then bindIO (chunk_loop sock readBuffer readBytes 0) (\<lambda>_. copy_loop sock fd)
         else retIO ())"
      by (simp add: Let_def rb_def buf_def causalD caus)
  qed (rule causalD [OF causal_sys_read], rule keeps_at [OF keeps_sys_read], rule keeps_at,
      unfold Let_def, intro evolve keeps)
qed

lemma causal_list_loop [caus]: "causal g (list_loop sock ents)"
  by (induction ents) (auto intro!: caus evolve)

lemma causal_handle_cmd [caus]: "causal g (handle_cmd sock base s)"
proof -
  have copy: "causal g (copy_loop sock f)" "keeps evolves (copy_loop sock f)" for f
    by (auto intro: causalI causal_copy_loop keepsI keeps_copy_loop)
  have "causal g (send_header sock f)" for f
    unfolding send_header_def by (intro caus evolve)
  then have "causal g (send_file sock f)" for f
    unfolding send_file_def by (intro caus evolve copy)
  then have "causal g (FtServer.doGet sock base n)" for n
    unfolding FtServer.doGet_def by (intro caus evolve)
  moreover have "causal g (doList sock base)"
    unfolding doList_def by (auto intro!: caus evolve split: option.split)
  ultimately show ?thesis
    unfolding handle_cmd_def by (auto intro!: caus evolve split: option.split prod.split)
qed

lemma causal_serve [caus]: "causal g (serve n sock base)"
proof (induction n)
  case 0
  have "serve 0 sock base = Pair No_Fuel" by (rule ext) simp
  then show ?case by (simp add: caus)
next
  case (Suc n)
  have "serve (Suc n) sock base = bindIO (read_cmd sock \<lparr>cap = 255, chars = [], slack = []\<rparr>) (\<lambda>b.
     bindIO (handle_cmd sock base (chars b)) (\<lambda>quit. if quit then retIO () else serve n sock base))"
    by (rule ext) simp
  with Suc show ?case by (auto intro!: caus evolve cmd.causal_rl cmd.keeps_rl)
qed

text \<open>More rounds than are needed change nothing.\<close>

lemma serve_more:
  "fuelled (fst (serve n sock base w)) \<Longrightarrow> serve (n + k) sock base w = serve n sock base w"
proof (induction n arbitrary: w)
  case (Suc n)
  let ?b = "\<lparr>cap = 255, chars = [], slack = []\<rparr>"
  obtain r1 w1 where rd: "read_cmd sock ?b w = (r1, w1)" by fastforce
  show ?case
  proof (cases r1)
    case (Ret b)
    obtain r2 w2 where h: "handle_cmd sock base (chars b) w1 = (r2, w2)" by fastforce
    show ?thesis
    proof (cases r2)
      case (Ret quit)
      with Suc \<open>r1 = Ret b\<close> rd h show ?thesis by (cases quit) simp_all
    qed (use rd Ret h in simp_all)
  qed (use rd in simp_all)
qed simp

lemma causal_start_protocol [caus]: "causal sock (FtServer.start_protocol sock base)"
proof (intro causalI causal_atI)
  fix w r w' q assume lt: "sock < next_fd w" and run: "FtServer.start_protocol sock base w = (r, w')"
  let ?n = "Suc (rd_size (rds w sock))"
  have n: "serve ?n sock base w = (r, w')" using run by (simp only: FtServer.start_protocol_def)
  have "fuelled (fst (serve ?n sock base w))" using lt by (intro serve_fuel) simp_all
  from serve_more [OF this, of "rd_size q"] n have "serve (?n + rd_size q) sock base w = (r, w')" by simp
  moreover have "FtServer.start_protocol sock base (add_rds sock q w) = serve (?n + rd_size q) sock base (add_rds sock q w)"
    by (simp add: FtServer.start_protocol_def)
  ultimately show "(r = Blocked \<longrightarrow> ahead w' (snd (FtServer.start_protocol sock base (add_rds sock q w)))) \<and>
      (r \<noteq> Blocked \<longrightarrow> FtServer.start_protocol sock base (add_rds sock q w) = (r, add_rds sock q w'))"
    using causal_at_cases [OF causalD [OF causal_serve] lt] by metis
qed

section \<open>The client does not look ahead\<close>

lemma causal_currentTimeMillis [caus]: "causal g currentTimeMillis"
  unfolding currentTimeMillis_def by (auto intro!: caus evolve split: prod.split)

lemma causal_get_write [caus]: "causal g (get_write fd r)"
  unfolding get_write_def Let_def by (intro caus evolve)

lemma causal_get_loop [caus]: "causal g (get_loop sock fd sz tot)"
proof (rule causalI)
  fix w show "causal_at g w (get_loop sock fd sz tot)"
  proof (induction sock fd sz tot w rule: get_loop.induct)
    case (1 sock fd sz tot w)
    have eq: "get_loop sock fd sz tot = (if tot < sz then
        bindIO (sys_read sock 102400) (\<lambda>r. bindIO (get_write fd r) (\<lambda>rb. get_loop sock fd sz (tot + ucast rb)))
        else retIO tot)"
      by (rule ext) (simp add: get_loop.simps [of sock fd sz tot])
    show ?case
    proof (cases "tot < sz")
      case True
      have "causal_at g w1 (bindIO (get_write fd r) (\<lambda>rb. get_loop sock fd sz (tot + ucast rb)))"
        if rd: "sys_read sock 102400 w = (Ret r, w1)" for r w1
        by (rule causal_bind_at)
          (rule 1 [OF True rd] causalD [OF causal_get_write] keeps_at [OF keeps_get_write] keeps_at [OF keeps_get_loop] | assumption)+
      then have "causal_at g w (bindIO (sys_read sock 102400) (\<lambda>r.
          bindIO (get_write fd r) (\<lambda>rb. get_loop sock fd sz (tot + ucast rb))))"
        by (rule causal_bind_at [OF causalD [OF causal_sys_read] keeps_at [OF keeps_sys_read]]) (assumption, rule keeps_at, intro evolve)
      with True show ?thesis by (subst eq) simp
    next
      case False
      then show ?thesis by (subst eq) (simp add: causalD caus)
    qed
  qed
qed

lemma causal_handle_reply [caus]: "causal g (handle_reply sock loc b)"
  unfolding handle_reply_def FtClient.doGet_def Let_def by (auto intro!: caus evolve split: verdict.split)

lemma keeps_handle_reply [evolve]: "keeps evolves (handle_reply sock loc b)"
  unfolding handle_reply_def Let_def by (auto intro!: evolve split: verdict.split)

lemma client_causal [caus]: "causal g (FtClient.start_protocol sock remote loc)"
  unfolding FtClient.start_protocol_def by (intro caus evolve)

lemma client_keeps [evolve]: "keeps evolves (FtClient.start_protocol sock remote loc)"
  unfolding FtClient.start_protocol_def by (intro evolve)

section \<open>The two programs in conversation\<close>

record get_setup =
  srv :: os
  srv_sock :: int
  srv_dir :: string
  cli :: os
  cli_sock :: int
  cli_remote :: string
  cli_local :: string
  file_bytes :: string

abbreviation get_client :: "int \<Rightarrow> string \<Rightarrow> string \<Rightarrow> os \<Rightarrow> rd list \<Rightarrow> string" where
  "get_client cs name loc wc \<equiv> said cs (FtClient.start_protocol cs name loc) wc"

abbreviation get_server :: "int \<Rightarrow> string \<Rightarrow> os \<Rightarrow> rd list \<Rightarrow> string" where
  "get_server ss base ws \<equiv> said ss (FtServer.start_protocol ss base) ws"

definition get_reply :: "string \<Rightarrow> string" where
  "get_reply d = frame_of [''OK'', ''Size: '' @ dec (length d)] @ d"

lemma server_ready_with_rds [simp]: "server_ready (with_rds ss r ws) ss base name d = server_ready ws ss base name d"
  by (simp add: server_ready_def)

lemma client_ready_with_rds [simp]: "client_ready (with_rds cs r wc) cs name loc d = client_ready wc cs name loc d"
  by (simp add: client_ready_def)

text \<open>What the client can say, and what the server can say to it.\<close>

lemma get_client_said:
  assumes "client_ready wc cs name loc d"
  shows "prefix (get_client cs name loc wc r) (''GET '' @ name @ crlf2 @ ''QUIT'' @ crlf2)"
proof -
  have "\<exists>t \<in> {[], ''QUIT'' @ crlf2}. get_client cs name loc wc r = ''GET '' @ name @ crlf2 @ t"
    using client_says [of "with_rds cs r wc" name cs loc] assms by (auto simp: client_ready_def said_def)
  then show ?thesis by (auto simp only: same_prefix_prefix) simp_all
qed

lemma get_server_early:
  assumes "server_ready ws ss base name d" and "flowing rs" and "prefix (stream rs) (''GET '' @ name @ crlf2 @ ''QUIT'' @ crlf2)"
  shows "fst (FtServer.start_protocol ss base (with_rds ss rs ws)) \<in> {Blocked, Ret ()} \<and>
    prefix (get_server ss base ws rs) (get_reply d)"
proof -
  obtain q where q: "flowing (rs @ q)" "stream (rs @ q) = ''GET '' @ name @ crlf2 @ ''QUIT'' @ crlf2"
    using completed [OF assms(2,3)] .
  have sv: "server_ready (with_rds ss (rs @ q) ws) ss base name d" "flowing (rds (with_rds ss (rs @ q) ws) ss)"
    "stream (rds (with_rds ss (rs @ q) ws) ss) = ''GET '' @ name @ crlf2 @ ''QUIT'' @ crlf2"
    using assms(1) q by simp_all
  have "fst (FtServer.start_protocol ss base (with_rds ss (rs @ q) ws)) = Ret ()"
    by (rule server_sends(2) [OF sv]) simp_all
  then obtain w' where w': "FtServer.start_protocol ss base (with_rds ss (rs @ q) ws) = (Ret (), w')"
    by (cases "FtServer.start_protocol ss base (with_rds ss (rs @ q) ws)") auto
  have "outs w' ss = get_reply d" using server_sends(1) [OF sv] w' by (simp add: get_reply_def)
  moreover have ss: "ss < next_fd ws" using assms(1) by (simp add: server_ready_def)
  note e = early [OF causal_start_protocol keeps_start_protocol ss w']
  moreover have "prefix (get_server ss base ws rs) (get_server ss base ws (rs @ q))"
    by (rule said_grows [OF causal_start_protocol keeps_start_protocol ss])
  ultimately show ?thesis using w' by (auto simp: said_def)
qed

interpretation get: dialogue
  "\<lambda>p :: get_setup. get_client (cli_sock p) (cli_remote p) (cli_local p) (cli p)"
  "\<lambda>p. get_server (srv_sock p) (srv_dir p) (srv p)"
  "\<lambda>p. server_ready (srv p) (srv_sock p) (srv_dir p) (cli_remote p) (file_bytes p) \<and>
       client_ready (cli p) (cli_sock p) (cli_remote p) (cli_local p) (file_bytes p)"
  "\<lambda>p. length (get_reply (file_bytes p)) + length (cli_remote p) + 16"
proof
  fix p :: get_setup and r q rc rs
  assume ok: "server_ready (srv p) (srv_sock p) (srv_dir p) (cli_remote p) (file_bytes p) \<and>
       client_ready (cli p) (cli_sock p) (cli_remote p) (cli_local p) (file_bytes p)"
  then have fds: "srv_sock p < next_fd (srv p)" "cli_sock p < next_fd (cli p)"
    by (simp_all add: server_ready_def client_ready_def)
  show "prefix (get_client (cli_sock p) (cli_remote p) (cli_local p) (cli p) r) (get_client (cli_sock p) (cli_remote p) (cli_local p) (cli p) (r @ q))"
    by (rule said_grows [OF client_causal client_keeps fds(2)])
  show "prefix (get_server (srv_sock p) (srv_dir p) (srv p) r) (get_server (srv_sock p) (srv_dir p) (srv p) (r @ q))"
    by (rule said_grows [OF causal_start_protocol keeps_start_protocol fds(1)])
  assume f: "flowing rc" "flowing rs" and rs: "prefix (stream rs) (get_client (cli_sock p) (cli_remote p) (cli_local p) (cli p) rc)"
  note says = get_client_said [OF conjunct2 [OF ok], of rc]
  from get_server_early [OF conjunct1 [OF ok] f(2) prefix_order.trans [OF rs says]] says
  show "length (get_server (srv_sock p) (srv_dir p) (srv p) rs) + length (get_client (cli_sock p) (cli_remote p) (cli_local p) (cli p) rc)
      \<le> length (get_reply (file_bytes p)) + length (cli_remote p) + 16"
    by (auto dest!: prefix_length_le)
qed

lemma get_client_early:
  assumes "client_ready wc cs name loc d" and "length d < 2 ^ 63" and "flowing rc" and "prefix (stream rc) (get_reply d)"
  shows "\<exists>wc'. fst (FtClient.start_protocol cs name loc (with_rds cs rc wc)) \<in> {Blocked, Ret ()} \<and>
    ahead (snd (FtClient.start_protocol cs name loc (with_rds cs rc wc))) wc' \<and> outs wc' (next_fd wc) = d"
proof -
  obtain q where q: "flowing (rc @ q)" "stream (rc @ q) = get_reply d" using completed [OF assms(3,4)] .
  from assms(1) obtain a where c: "0 \<le> cs" "cs < next_fd wc" "clean_heap wc" "length name \<le> 1015"
    "accepting (wrs wc cs) (length name + 16)" "creats wc loc = Some a" "accepting a (length d)"
    by (auto simp: client_ready_def split: option.splits)
  let ?w = "with_rds cs (rc @ q) wc"
  have "\<exists>w'. FtClient.start_protocol cs name loc ?w = (Ret (), w') \<and> outs w' (next_fd ?w) = d \<and>
    created w' = created ?w @ [(loc, next_fd ?w)] \<and>
    outs w' cs = outs ?w cs @ ''GET '' @ name @ crlf2 @ ''QUIT'' @ crlf2 \<and> rds w' cs = []"
    by (rule fetch_ok [where r = "rc @ q"]) (use c q assms(2) in \<open>simp_all add: get_reply_def\<close>)
  then obtain w' where w': "FtClient.start_protocol cs name loc ?w = (Ret (), w')" "outs w' (next_fd wc) = d" by auto
  with early [OF client_causal client_keeps c(2) w'(1)] show ?thesis by auto
qed

section \<open>Properties\<close>

text \<open>
  C2: Whatever the network has delivered so far, and in whatever order and segments: neither
  program has crashed, what the client has stored is a prefix of the server's file, and what the
  server has said is a prefix of the one correct reply.
\<close>

theorem get_in_order:
  assumes "server_ready ws ss base name d" and "client_ready wc cs name loc d"
    and "(delivery (get_client cs name loc wc) (get_server ss base ws))\<^sup>*\<^sup>* ([], []) (rc, rs)"
    and "FtClient.start_protocol cs name loc (with_rds cs rc wc) = (r, wc')"
    and "FtServer.start_protocol ss base (with_rds ss rs ws) = (r', ws')"
  shows "r \<in> {Blocked, Ret ()} \<and> r' \<in> {Blocked, Ret ()} \<and>
    prefix (outs ws' ss) (frame_of [''OK'', ''Size: '' @ dec (length d)] @ d) \<and>
    (next_fd wc < next_fd wc' \<longrightarrow> prefix (outs wc' (next_fd wc)) d)"
proof -
  let ?p = "\<lparr>srv = ws, srv_sock = ss, srv_dir = base, cli = wc, cli_sock = cs, cli_remote = name, cli_local = loc, file_bytes = d\<rparr>"
  have "get.consistent ?p (rc, rs)" using assms(1-3) by (intro get.reach_consistent) simp_all
  then have c: "flowing rc" "flowing rs" "prefix (stream rc) (get_server ss base ws rs)"
    "prefix (stream rs) (get_client cs name loc wc rc)"
    by (simp_all add: get.consistent_def)
  note s = get_server_early [OF assms(1) c(2) prefix_order.trans [OF c(4) get_client_said [OF assms(2)]]]
  have "length d < 2 ^ 63" using assms(1) by (simp add: server_ready_def)
  from get_client_early [OF assms(2) this c(1) prefix_order.trans [OF c(3) conjunct2 [OF s]]] obtain v where
    "r \<in> {Blocked, Ret ()}" "ahead wc' v" "outs v (next_fd wc) = d" using assms(4) by auto
  with s assms(5) show ?thesis by (auto simp: said_def get_reply_def dest: ahead_outs)
qed

text \<open>
  C1: Every schedule of the network completes the transfer. No sequence of deliveries is longer
  than the number of bytes the two programs have for each other, and one that cannot be continued
  has let both programs return, with exactly the bytes of the server's file in the local file.
\<close>

theorem get_completes:
  assumes "server_ready ws ss base name d" and "client_ready wc cs name loc d"
    and "(delivery (get_client cs name loc wc) (get_server ss base ws) ^^ n) ([], []) (rc, rs)"
  shows "n \<le> length (frame_of [''OK'', ''Size: '' @ dec (length d)] @ d) + length name + 16 \<and>
    ((\<exists>st. delivery (get_client cs name loc wc) (get_server ss base ws) (rc, rs) st) \<or>
     (\<exists>ws' wc'. FtServer.start_protocol ss base (with_rds ss rs ws) = (Ret (), ws') \<and>
        FtClient.start_protocol cs name loc (with_rds cs rc wc) = (Ret (), wc') \<and>
        outs wc' (next_fd wc) = d \<and> created wc' = created wc @ [(loc, next_fd wc)]))"
proof (intro conjI disjCI)
  let ?p = "\<lparr>srv = ws, srv_sock = ss, srv_dir = base, cli = wc, cli_sock = cs, cli_remote = name, cli_local = loc, file_bytes = d\<rparr>"
  show "n \<le> length (frame_of [''OK'', ''Size: '' @ dec (length d)] @ d) + length name + 16"
    using get.run_length(1) [of n ?p "(rc, rs)"] assms by (simp add: get_reply_def)
  assume "\<nexists>ws' wc'. FtServer.start_protocol ss base (with_rds ss rs ws) = (Ret (), ws') \<and>
        FtClient.start_protocol cs name loc (with_rds cs rc wc) = (Ret (), wc') \<and>
        outs wc' (next_fd wc) = d \<and> created wc' = created wc @ [(loc, next_fd wc)]"
  moreover have "\<exists>ws' wc'. FtServer.start_protocol ss base (with_rds ss rs ws) = (Ret (), ws') \<and>
        FtClient.start_protocol cs name loc (with_rds cs rc wc) = (Ret (), wc') \<and>
        outs wc' (next_fd wc) = d \<and> created wc' = created wc @ [(loc, next_fd wc)]"
    if "\<nexists>st. delivery (get_client cs name loc wc) (get_server ss base ws) (rc, rs) st"
  proof -
    have st: "flowing rc" "flowing rs" "stream rc = get_server ss base ws rs" "stream rs = get_client cs name loc wc rc"
      using get.stuck_settled [of n ?p rc rs] assms that by simp_all
    have "wired (with_rds ss rs ws) ss (snd (FtClient.start_protocol cs name loc (with_rds cs rc wc))) cs"
      "wired (with_rds cs rc wc) cs (snd (FtServer.start_protocol ss base (with_rds ss rs ws))) ss"
      using st by (simp_all add: wired_def said_def)
    from get_roundtrip [where d = d, OF _ _ this] assms(1,2) show ?thesis by simp
  qed
  ultimately show "\<exists>st. delivery (get_client cs name loc wc) (get_server ss base ws) (rc, rs) st" by blast
qed

section \<open>An example\<close>

text \<open>The request, the reply and QUIT, each delivered in one piece.\<close>

lemma demo_ready:
  "server_ready demo_srv 7 ''/srv/'' ''a'' ''xyz''" "client_ready (demo_cli []) 4 ''a'' ''b'' ''xyz''"
  by (simp_all add: server_ready_def client_ready_def line_ok_def frame_of_def dec_small accepting_replicate)

definition demo_get :: string where "demo_get = ''GET a'' @ crlf2"
definition demo_quit :: string where "demo_quit = ''QUIT'' @ crlf2"
definition demo_reply :: string where "demo_reply = ''OK'' @ crlf @ ''Size: 3'' @ crlf2 @ ''xyz''"

lemma demo_texts:
  "demo_get \<noteq> []" "demo_quit \<noteq> []" "demo_reply \<noteq> []" "get_reply ''xyz'' = demo_reply"
  "demo_get = ''GET '' @ ''a'' @ crlf2"
  by (simp_all add: demo_get_def demo_quit_def demo_reply_def get_reply_def frame_of_def dec_small)

lemma demo_server_says:
  assumes "stream rs = demo_get @ t" and "t \<in> {[], demo_quit}" and "flowing rs"
  shows "get_server 7 ''/srv/'' demo_srv rs = demo_reply"
    and "t \<noteq> [] \<Longrightarrow> fst (FtServer.start_protocol 7 ''/srv/'' (with_rds 7 rs demo_srv)) = Ret ()"
proof -
  have w: "server_ready (with_rds 7 rs demo_srv) 7 ''/srv/'' ''a'' ''xyz''" "flowing (rds (with_rds 7 rs demo_srv) 7)"
    "stream (rds (with_rds 7 rs demo_srv) 7) = ''GET '' @ ''a'' @ crlf2 @ t" "t \<in> {[], ''QUIT'' @ crlf2}"
    using assms demo_ready(1) by (simp_all add: demo_texts(5) demo_quit_def)
  show "get_server 7 ''/srv/'' demo_srv rs = demo_reply"
    using server_sends(1) [OF w] demo_texts(4) by (simp add: said_def get_reply_def)
  show "t \<noteq> [] \<Longrightarrow> fst (FtServer.start_protocol 7 ''/srv/'' (with_rds 7 rs demo_srv)) = Ret ()"
    using server_sends(2) [OF w] .
qed

lemma demo_client_says:
  "prefix demo_get (get_client 4 ''a'' ''b'' (demo_cli []) [])"
  "get_client 4 ''a'' ''b'' (demo_cli []) [Rd_Data demo_reply] = demo_get @ demo_quit"
proof -
  let ?w = "with_rds 4 [] (demo_cli [])" and ?v = "with_rds 4 [Rd_Data demo_reply] (demo_cli [])"
  have "\<exists>t \<in> {[], ''QUIT'' @ crlf2}. outs (snd (FtClient.start_protocol 4 ''a'' ''b'' ?w)) 4 = outs ?w 4 @ ''GET '' @ ''a'' @ crlf2 @ t"
    by (rule client_says) (simp_all add: accepting_replicate)
  then show "prefix demo_get (get_client 4 ''a'' ''b'' (demo_cli []) [])" by (auto simp: said_def demo_get_def)
  have "\<exists>w'. FtClient.start_protocol 4 ''a'' ''b'' ?v = (Ret (), w') \<and> outs w' (next_fd ?v) = ''xyz'' \<and>
    created w' = created ?v @ [(''b'', next_fd ?v)] \<and>
    outs w' 4 = outs ?v 4 @ ''GET '' @ ''a'' @ crlf2 @ ''QUIT'' @ crlf2 \<and> rds w' 4 = []"
    by (rule fetch_ok [where r = "[Rd_Data demo_reply]" and a = "replicate 9 (Wr_Acc 1)"])
      (simp_all add: frame_of_def dec_small accepting_replicate demo_reply_def)
  then show "get_client 4 ''a'' ''b'' (demo_cli []) [Rd_Data demo_reply] = demo_get @ demo_quit"
    by (auto simp: said_def demo_get_def demo_quit_def)
qed

lemma demo_schedule:
  "(delivery (get_client 4 ''a'' ''b'' (demo_cli [])) (get_server 7 ''/srv/'' demo_srv) ^^ 3) ([], [])
     ([Rd_Data demo_reply], [Rd_Data demo_get, Rd_Data demo_quit])"
proof -
  let ?d = "delivery (get_client 4 ''a'' ''b'' (demo_cli [])) (get_server 7 ''/srv/'' demo_srv)"
  have "?d ([], []) ([], [] @ [Rd_Data demo_get])"
    by (rule to_server) (use demo_client_says(1) demo_texts in simp_all)
  moreover have "?d ([], [Rd_Data demo_get]) ([] @ [Rd_Data demo_reply], [Rd_Data demo_get])"
    by (rule to_client) (simp_all add: demo_server_says(1) [of _ "[]"] demo_texts)
  moreover have "?d ([Rd_Data demo_reply], [Rd_Data demo_get]) ([Rd_Data demo_reply], [Rd_Data demo_get] @ [Rd_Data demo_quit])"
    by (rule to_server) (simp_all add: demo_client_says(2) demo_texts)
  ultimately show ?thesis by (auto simp: numeral_3_eq_3)
qed

lemma get_completes_witness:
  "\<exists>ws' wc'. FtServer.start_protocol 7 ''/srv/'' (with_rds 7 [Rd_Data demo_get, Rd_Data demo_quit] demo_srv) = (Ret (), ws') \<and>
     FtClient.start_protocol 4 ''a'' ''b'' (with_rds 4 [Rd_Data demo_reply] (demo_cli [])) = (Ret (), wc') \<and>
     outs wc' 8 = ''xyz'' \<and> created wc' = [(''b'', 8)]"
proof -
  have "settled (get_client 4 ''a'' ''b'' (demo_cli [])) (get_server 7 ''/srv/'' demo_srv)
      ([Rd_Data demo_reply], [Rd_Data demo_get, Rd_Data demo_quit])"
    by (simp add: settled_def demo_server_says(1) [of _ demo_quit] demo_client_says(2) demo_texts)
  from settled_stuck [OF this] get_completes [OF demo_ready demo_schedule] show ?thesis by simp
qed

lemma get_in_order_witness:
  "\<exists>ws'. FtServer.start_protocol 7 ''/srv/'' (with_rds 7 [Rd_Data demo_get, Rd_Data demo_quit] demo_srv) = (Ret (), ws') \<and>
     prefix (outs ws' 7) demo_reply"
proof -
  have "(delivery (get_client 4 ''a'' ''b'' (demo_cli [])) (get_server 7 ''/srv/'' demo_srv))\<^sup>*\<^sup>* ([], [])
     ([Rd_Data demo_reply], [Rd_Data demo_get, Rd_Data demo_quit])"
    using demo_schedule by (rule relpowp_imp_rtranclp)
  note run = get_in_order [OF demo_ready this prod.collapse [symmetric] prod.collapse [symmetric]]
  let ?v = "FtServer.start_protocol 7 ''/srv/'' (with_rds 7 [Rd_Data demo_get, Rd_Data demo_quit] demo_srv)"
  have "fst ?v = Ret ()"
    by (rule demo_server_says(2) [of _ demo_quit]) (simp_all add: demo_texts)
  with run demo_texts(4) show ?thesis by (cases ?v) (simp add: get_reply_def)
qed

end
