(* ===== verification/List_Schedule.thy ===== *)
theory List_Schedule
  imports Get_Schedule
begin

text \<open>
  The directory listing over a network that delivers what it wants when it wants: the server
  of FileTransfer_Proyecto and \<open>get_list\<close> of its client as a transition system.
\<close>

section \<open>The client does not look ahead\<close>

lemma causal_newTCPClientSocket4 [caus]: "causal g (newTCPClientSocket4 a0 ip port)"
  unfolding newTCPClientSocket4_def getNewTCPSocket_def by (auto intro!: caus evolve split: prod.split)

lemma causal_closeTCPSocket [caus]: "causal g (closeTCPSocket fd)"
  unfolding closeTCPSocket_def by (intro caus evolve)

lemma get_list_tame [evolve, caus]: "keeps evolves (get_list a0 port ip)" "causal g (get_list a0 port ip)"
  unfolding get_list_def by (auto intro!: caus evolve)

section \<open>The two programs in conversation\<close>

record list_setup =
  dir_srv :: os
  dir_sock :: int
  dir_base :: string
  dir_names :: "string list"
  asking :: os
  asking_sock :: int
  asking_addr :: sockaddr_in
  asking_port :: u16
  asking_host :: "nat list"

abbreviation list_client :: "int \<Rightarrow> sockaddr_in \<Rightarrow> u16 \<Rightarrow> nat list \<Rightarrow> os \<Rightarrow> rd list \<Rightarrow> string" where
  "list_client cs a0 port host wc \<equiv> said cs (get_list a0 port (inet_ntop4 host)) wc"

definition list_ready :: "os \<Rightarrow> int \<Rightarrow> string \<Rightarrow> string list \<Rightarrow> os \<Rightarrow> int \<Rightarrow> nat list \<Rightarrow> bool" where
  "list_ready ws ss base es wc cs host \<longleftrightarrow>
     list_server_ready ws ss base es \<and> list_client_ready wc cs \<and> cs < next_fd wc \<and>
     length host = 4 \<and> (\<forall>v\<in>set host. v < 256) \<and> (listed es = [] \<or> lines_ok (listed es))"

lemma list_server_ready_with_rds [simp]: "list_server_ready (with_rds ss r ws) ss base es = list_server_ready ws ss base es"
  by (simp add: list_server_ready_def)

lemma list_client_ready_with_rds [simp]: "list_client_ready (with_rds cs r wc) cs = list_client_ready wc cs"
  by (simp add: list_client_ready_def clean_heap_def quiet_heap_def with_rds_def)

lemma list_client_said: "list_ready ws ss base es wc cs host \<Longrightarrow> list_client cs a0 port host wc r = ''LIST'' @ crlf2"
  unfolding list_ready_def said_def by (intro list_says) simp_all

lemma list_server_hears:
  assumes "list_ready ws ss base es wc cs host" and "flowing r" and "stream r = ''LIST'' @ crlf2"
  shows "\<exists>ws'. FtServer.start_protocol ss base (with_rds ss r ws) = (Blocked, ws') \<and> outs ws' ss = frame_of (listed es)"
  by (rule list_server_sends) (use assms in \<open>simp_all add: list_ready_def\<close>)

text \<open>A program that waits for input in the end has been waiting all the time.\<close>

lemma waiting_early:
  assumes "causal fd m" and "fd < next_fd w" and "m (with_rds fd (r @ q) w) = (Blocked, w')"
  shows "fst (m (with_rds fd r w)) = Blocked"
proof (rule ccontr)
  assume no: "fst (m (with_rds fd r w)) \<noteq> Blocked"
  obtain r1 w1 where m: "m (with_rds fd r w) = (r1, w1)" by fastforce
  have "fd < next_fd (with_rds fd r w)" using assms(2) by simp
  from causal_at_cases(2) [OF causalD [OF assms(1)] this m, of q] no m assms(3) show False
    by (simp add: add_rds_with_rds)
qed

lemma list_server_early:
  assumes "list_ready ws ss base es wc cs host" and "flowing r" and "prefix (stream r) (''LIST'' @ crlf2)"
  shows "fst (FtServer.start_protocol ss base (with_rds ss r ws)) = Blocked \<and>
    prefix (get_server ss base ws r) (frame_of (listed es))"
proof -
  obtain q where q: "flowing (r @ q)" "stream (r @ q) = ''LIST'' @ crlf2" using completed [OF assms(2,3)] .
  from list_server_hears [OF assms(1) q] obtain v where
    v: "FtServer.start_protocol ss base (with_rds ss (r @ q) ws) = (Blocked, v)" "outs v ss = frame_of (listed es)"
    by blast
  have ss: "ss < next_fd ws" using assms(1) by (simp add: list_ready_def list_server_ready_def)
  have "prefix (get_server ss base ws r) (get_server ss base ws (r @ q))"
    by (rule said_grows [OF causal_start_protocol keeps_start_protocol ss])
  with waiting_early [OF causal_start_protocol ss v(1)] v show ?thesis by (simp add: said_def)
qed

interpretation list: dialogue
  "\<lambda>p :: list_setup. list_client (asking_sock p) (asking_addr p) (asking_port p) (asking_host p) (asking p)"
  "\<lambda>p. get_server (dir_sock p) (dir_base p) (dir_srv p)"
  "\<lambda>p. list_ready (dir_srv p) (dir_sock p) (dir_base p) (dir_names p) (asking p) (asking_sock p) (asking_host p)"
  "\<lambda>p. length (frame_of (listed (dir_names p))) + 8"
proof
  fix p :: list_setup and r q rc rs
  assume ok: "list_ready (dir_srv p) (dir_sock p) (dir_base p) (dir_names p) (asking p) (asking_sock p) (asking_host p)"
  note says = list_client_said [OF ok]
  let ?C = "list_client (asking_sock p) (asking_addr p) (asking_port p) (asking_host p) (asking p)"
  let ?S = "get_server (dir_sock p) (dir_base p) (dir_srv p)"
  show "prefix (?C r) (?C (r @ q))" by (simp add: says)
  show "prefix (?S r) (?S (r @ q))"
    using ok by (intro said_grows [OF causal_start_protocol keeps_start_protocol])
      (simp add: list_ready_def list_server_ready_def)
  assume "flowing rs" "prefix (stream rs) (?C rc)"
  with list_server_early [OF ok, of rs] have "prefix (?S rs) (frame_of (listed (dir_names p)))" by (simp only: says)
  then show "length (?S rs) + length (?C rc) \<le> length (frame_of (listed (dir_names p))) + 8"
    by (simp add: says prefix_length_le)
qed

text \<open>What the client does with the whole listing.\<close>

lemma list_client_hears:
  assumes "list_ready ws ss base es wc cs host" and "flowing r" and "stream r = frame_of (listed es)"
    and "get_list a0 port (inet_ntop4 host) (with_rds cs r wc) = (a, wc')"
  shows "if listed es = [] then a = Blocked \<and> stdout wc' = stdout wc
    else a = Ret 0 \<and> stdout wc' = stdout wc @ body_of (listed es)"
proof -
  let ?r = "[Rd_Data (''LIST'' @ crlf2)]"
  have "flowing ?r" "stream ?r = ''LIST'' @ crlf2" by simp_all
  from list_server_hears [OF assms(1) this] obtain v where
    "FtServer.start_protocol ss base (with_rds ss ?r ws) = (Blocked, v)" "outs v ss = frame_of (listed es)" by blast
  with assms(2,3) have w: "wired (with_rds ss ?r ws) ss (snd (get_list a0 port (inet_ntop4 host) (with_rds cs r wc))) cs"
    "wired (with_rds cs r wc) cs (snd (FtServer.start_protocol ss base (with_rds ss ?r ws))) ss"
    using list_client_said [OF assms(1), of a0 port r] by (simp_all add: wired_def said_def)
  have ok: "list_server_ready (with_rds ss ?r ws) ss base es" "list_client_ready (with_rds cs r wc) cs"
    "length host = 4" "\<forall>v\<in>set host. v < 256" "listed es = [] \<or> lines_ok (listed es)"
    using assms(1) by (simp_all add: list_ready_def)
  show ?thesis
    using list_empty_deadlock [OF ok(1-4) _ w] list_roundtrip [OF ok(1-4) _ w] ok(5) assms(4) by auto
qed

section \<open>Properties\<close>

text \<open>
  C3: Every schedule of the network lists the directory. While it goes on the server never
  returns, and when nothing is left to deliver the client has printed the names the server
  found, dot entries excepted, one per line in the server's order, and has returned; but when
  there are none, both wait for ever on every schedule, with nothing printed.
\<close>

theorem list_completes:
  assumes "list_ready ws ss base es wc cs host"
    and "(delivery (list_client cs a0 port host wc) (get_server ss base ws) ^^ n) ([], []) (rc, rs)"
    and "get_list a0 port (inet_ntop4 host) (with_rds cs rc wc) = (a, wc')"
  shows "n \<le> length (frame_of (listed es)) + 8 \<and> fst (FtServer.start_protocol ss base (with_rds ss rs ws)) = Blocked \<and>
    ((\<exists>st. delivery (list_client cs a0 port host wc) (get_server ss base ws) (rc, rs) st) \<or>
     (if listed es = [] then a = Blocked \<and> stdout wc' = stdout wc
      else a = Ret 0 \<and> stdout wc' = stdout wc @ body_of (listed es)))"
proof -
  let ?p = "\<lparr>dir_srv = ws, dir_sock = ss, dir_base = base, dir_names = es, asking = wc, asking_sock = cs,
    asking_addr = a0, asking_port = port, asking_host = host\<rparr>"
  let ?d = "delivery (list_client cs a0 port host wc) (get_server ss base ws)"
  have n: "n \<le> length (frame_of (listed es)) + 8" and "list.consistent ?p (rc, rs)"
    using list.run_length [of n ?p "(rc, rs)"] assms(1,2) by simp_all
  then have "flowing rs" "prefix (stream rs) (''LIST'' @ crlf2)"
    using list_client_said [OF assms(1), of a0 port rc] by (simp_all add: list.consistent_def)
  from list_server_early [OF assms(1) this] have b: "fst (FtServer.start_protocol ss base (with_rds ss rs ws)) = Blocked" ..
  have "if listed es = [] then a = Blocked \<and> stdout wc' = stdout wc
      else a = Ret 0 \<and> stdout wc' = stdout wc @ body_of (listed es)" if "\<nexists>st. ?d (rc, rs) st"
  proof (rule list_client_hears [OF assms(1) _ _ assms(3)])
    have st: "flowing rc" "flowing rs" "stream rc = get_server ss base ws rs" "stream rs = ''LIST'' @ crlf2"
      using list.stuck_settled [of n ?p rc rs] assms(1,2) that list_client_said [OF assms(1), of a0 port rc] by simp_all
    then show "flowing rc" "stream rc = frame_of (listed es)"
      using list_server_hears [OF assms(1) st(2,4)] by (auto simp: said_def)
  qed
  with n b show ?thesis by blast
qed

text \<open>A directory of two files, the request and the listing delivered in one piece each.\<close>

definition demo_names :: "string list" where "demo_names = [''.'', ''..'', ''a'', ''b'']"

definition demo_host :: "nat list" where "demo_host = [127, 0, 0, 1]"

definition demo_addr :: sockaddr_in where
  "demo_addr = \<lparr>sin_family = 0, sin_port = 0, sin_addr = [], sin_zero = []\<rparr>"

lemma demo_listed: "listed demo_names = [''a'', ''b'']"
  by (simp add: listed_def demo_names_def)

lemma demo_list_ready: "list_ready (list_srv demo_names) 7 ''/srv/'' demo_names (demo_cli []) 4 demo_host"
  unfolding list_ready_def list_server_ready_def demo_listed
  using demo_list_client
  by (auto simp: frame_of_def accepting_replicate demo_host_def lines_ok_def line_ok_def demo_names_def demo_cli_def)

lemma demo_list_schedule:
  "(delivery (list_client 4 demo_addr 7000 demo_host (demo_cli [])) (get_server 7 ''/srv/'' (list_srv demo_names)) ^^ 2) ([], [])
     ([Rd_Data (frame_of [''a'', ''b''])], [Rd_Data (''LIST'' @ crlf2)])"
proof -
  let ?d = "delivery (list_client 4 demo_addr 7000 demo_host (demo_cli [])) (get_server 7 ''/srv/'' (list_srv demo_names))"
  have "?d ([], []) ([], [] @ [Rd_Data (''LIST'' @ crlf2)])"
    by (rule to_server) (simp_all add: list_client_said [OF demo_list_ready])
  moreover have "get_server 7 ''/srv/'' (list_srv demo_names) [Rd_Data (''LIST'' @ crlf2)] = frame_of [''a'', ''b'']"
    using list_server_hears [OF demo_list_ready, of "[Rd_Data (''LIST'' @ crlf2)]"] by (auto simp: said_def demo_listed)
  then have "?d ([], [Rd_Data (''LIST'' @ crlf2)]) ([] @ [Rd_Data (frame_of [''a'', ''b''])], [Rd_Data (''LIST'' @ crlf2)])"
    by (intro to_client) (simp_all add: frame_of_def)
  ultimately show ?thesis by (auto simp: numeral_2_eq_2)
qed

lemma list_completes_witness:
  "stdout (snd (get_list demo_addr 7000 (inet_ntop4 demo_host) (with_rds 4 [Rd_Data (frame_of [''a'', ''b''])] (demo_cli [])))) =
     ''a'' @ crlf @ ''b''"
proof -
  have "get_server 7 ''/srv/'' (list_srv demo_names) [Rd_Data (''LIST'' @ crlf2)] = frame_of [''a'', ''b'']"
    using list_server_hears [OF demo_list_ready, of "[Rd_Data (''LIST'' @ crlf2)]"] by (auto simp: said_def demo_listed)
  then have "settled (list_client 4 demo_addr 7000 demo_host (demo_cli [])) (get_server 7 ''/srv/'' (list_srv demo_names))
      ([Rd_Data (frame_of [''a'', ''b''])], [Rd_Data (''LIST'' @ crlf2)])"
    by (simp add: settled_def list_client_said [OF demo_list_ready])
  from settled_stuck [OF this] list_completes [OF demo_list_ready demo_list_schedule prod.collapse [symmetric]]
  show ?thesis by (simp add: demo_listed demo_cli_def)
qed

end
