(* ===== verification/Ping_Schedule.thy ===== *)
theory Ping_Schedule
  imports Ping Dialogue
begin

text \<open>
  tcp_ping over a network that delivers what it wants when it wants: one ping between the two
  sides as a transition system.
\<close>

section \<open>Neither side looks ahead\<close>

lemma ask_loop_eq:
  "ask_loop sock buf n tot =
     (if unat tot < n then bindIO (sys_write sock buf (int (unat tot)) (n - unat tot + 1)) (\<lambda>r.
          ask_loop sock buf n (tot + word_of_int r)) else retIO tot)"
  by (rule ext, subst ask_loop.simps) simp

lemma ask_loop_causal: "causal_at g w (ask_loop sock buf n tot) \<and> evolves w (snd (ask_loop sock buf n tot w))"
proof (induction sock buf n tot w rule: ask_loop.induct)
  case (1 sock buf n tot w)
  let ?wr = "sys_write sock buf (int (unat tot)) (n - unat tot + 1)"
  have keeps: "keeps evolves (ask_loop sock buf n t)" for t
  proof (rule keepsI)
    fix v show "evolves v (snd (ask_loop sock buf n t v))"
    proof (induction sock buf n t v rule: ask_loop.induct)
      case (1 sock buf n tot w)
      then show ?case by (cases "unat tot < n"; subst ask_loop_eq) (auto intro!: evolves_bind evolve)
    qed
  qed
  have "causal_at g w (bindIO ?wr (\<lambda>r. ask_loop sock buf n (tot + word_of_int r)))" if "unat tot < n"
  proof (rule causal_bind_at)
    fix r w1 assume "?wr w = (Ret r, w1)"
    with 1 [OF that this] show "causal_at g w1 (ask_loop sock buf n (tot + word_of_int r))" by blast
  qed (rule causalD [OF causal_sys_write] keeps_at [OF keeps_sys_write] keeps_at [OF keeps])+
  then have "causal_at g w (ask_loop sock buf n tot)"
    by (cases "unat tot < n"; subst ask_loop_eq) (simp_all add: causalD caus)
  then show ?case using keeps_at [OF keeps] by blast
qed

lemma ask_loop_tame [evolve, caus]:
  "keeps evolves (ask_loop sock buf n tot)" "causal g (ask_loop sock buf n tot)"
  using ask_loop_causal by (auto intro: keepsI causalI)

definition counted_read :: "string option \<Rightarrow> u32 \<times> string" where
  "counted_read r = (case r of None \<Rightarrow> (-1, []) | Some bs \<Rightarrow> (of_nat (length bs), bs))"

lemma collect_eq:
  "collect sock d tot =
     bindIO (sys_read sock 1024) (\<lambda>r.
       if 0 < fst (counted_read r) then
         bindIO (liftR (grow d tot (fst (counted_read r)) (snd (counted_read r)))) (\<lambda>d'.
           if d' ! unat (tot + fst (counted_read r) - 1) = NUL
           then retIO (fst (counted_read r), d', tot + fst (counted_read r))
           else collect sock d' (tot + fst (counted_read r)))
       else retIO (fst (counted_read r), d, tot))"
  by (rule ext, subst collect.simps) (auto simp: Let_def counted_read_def split: option.split intro!: bindIO_cong)

lemma answer_eq:
  "answer_loop sock rs buf tot =
     bindIO (sys_read sock (unat rs)) (\<lambda>r.
       if 0 < fst (counted_read r) then
         bindIO (liftR (land buf (unat tot) (snd (counted_read r)))) (\<lambda>buf'.
           if length buf' \<le> unat (tot + fst (counted_read r) - 1) then crashIO Out_Of_Bounds
           else if buf' ! unat (tot + fst (counted_read r) - 1) = NUL then retIO buf'
           else answer_loop sock rs buf' (tot + fst (counted_read r)))
       else retIO buf)"
  by (rule ext, subst answer_loop.simps) (auto simp: Let_def counted_read_def split: option.split intro!: bindIO_cong)

text \<open>A loop that does nothing but read is tame when each of its rounds is.\<close>

lemma reader_tame:
  assumes eq: "\<And>c. f c = bindIO (sys_read fd n) (step c)"
    and keeps: "\<And>c r w. (r \<noteq> Some [] \<Longrightarrow> \<forall>c'. evolves w (snd (f c' w))) \<Longrightarrow> evolves w (snd (step c r w))"
    and causal: "\<And>c r w. (r \<noteq> Some [] \<Longrightarrow> \<forall>c'. causal_at g w (f c')) \<Longrightarrow> causal_at g w (step c r)"
    and fuel: "\<And>c r w. (r \<noteq> Some [] \<Longrightarrow> \<forall>c'. fuelled (fst (f c' w))) \<Longrightarrow> fuelled (fst (step c r w))"
  shows "keeps evolves (f c)" and "causal g (f c)" and "unbounded (f c)"
proof -
  have k: "evolves w (snd (f c w))" for c w
  proof (induction "rd_size (rds w fd)" arbitrary: c w rule: less_induct)
    case less
    show ?case
    proof (subst eq, rule evolves_bind [OF keeps_sys_read])
      fix r w1 assume rd: "sys_read fd n w = (Ret r, w1)"
      show "evolves w1 (snd (step c r w1))"
        by (rule keeps) (use less sys_read_shrinks [OF rd] in blast)
    qed
  qed
  show "keeps evolves (f c)" by (rule keepsI) (rule k)
  have "causal_at g w (f c)" for c w
  proof (induction "rd_size (rds w fd)" arbitrary: c w rule: less_induct)
    case less
    show ?case
    proof (subst eq, rule causal_bind_at)
      fix r w1 assume rd: "sys_read fd n w = (Ret r, w1)"
      show "causal_at g w1 (step c r)"
        by (rule causal) (use less sys_read_shrinks [OF rd] in blast)
    next
      fix r w1 show "evolves w1 (snd (step c r w1))" by (rule keeps) (use k in blast)
    qed (rule causalD [OF causal_sys_read] keeps_at [OF keeps_sys_read])+
  qed
  then show "causal g (f c)" by (rule causalI)
  have "fuelled (fst (f c w))" for c w
  proof (induction "rd_size (rds w fd)" arbitrary: c w rule: less_induct)
    case less
    show ?case
    proof (subst eq, rule unbounded_bind_at [OF unboundedD [OF unbounded_sys(1)]])
      fix r w1 assume rd: "sys_read fd n w = (Ret r, w1)"
      show "fuelled (fst (step c r w1))" by (rule fuel) (use less sys_read_shrinks [OF rd] in blast)
    qed
  qed
  then show "unbounded (f c)" by (simp add: unbounded_def)
qed

lemma liftR_keeps:
  "(\<And>y. evolves w (snd (k y w))) \<Longrightarrow> evolves w (snd (bindIO (liftR x) k w))"
  by (cases x) (simp_all add: liftR_def bindIO_def)

lemma liftR_causal:
  assumes "\<And>y. causal_at g w (k y)"
  shows "causal_at g w (bindIO (liftR x) k)"
proof (cases x)
  case (Ret y)
  then have "bindIO (liftR x) k = k y" by (simp add: fun_eq_iff bindIO_liftR)
  with assms show ?thesis by simp
qed (auto intro!: causal_atI simp: liftR_def bindIO_def)

lemma liftR_fuelled:
  "fuelled x \<Longrightarrow> (\<And>y. fuelled (fst (k y w))) \<Longrightarrow> fuelled (fst (bindIO (liftR x) k w))"
  by (cases x) (simp_all add: liftR_def bindIO_def)

lemma grow_fuelled [simp]: "fuelled (grow d t n bs)" "fuelled (land d i bs)"
  by (simp_all add: grow_def land_def)

lemma counted_some: "0 < fst (counted_read r) \<Longrightarrow> r \<noteq> Some []"
  by (auto simp: counted_read_def)

lemma collect_tame: "keeps evolves (collect sock d t)" "causal g (collect sock d t)" "unbounded (collect sock d t)"
proof -
  let ?f = "\<lambda>(d, t). collect sock d t"
  define step where "step = (\<lambda>(d, t) r. if 0 < fst (counted_read r) then
         bindIO (liftR (grow d t (fst (counted_read r)) (snd (counted_read r)))) (\<lambda>d'.
           if d' ! unat (t + fst (counted_read r) - 1) = NUL
           then retIO (fst (counted_read r), d', t + fst (counted_read r))
           else collect sock d' (t + fst (counted_read r)))
       else retIO (fst (counted_read r), d, t))"
  have eq: "?f c = bindIO (sys_read sock 1024) (step c)" for c
    unfolding step_def by (simp add: collect_eq split: prod.split)
  have k: "evolves w (snd (step c r w))" if "r \<noteq> Some [] \<Longrightarrow> \<forall>c'. evolves w (snd (?f c' w))" for c r w
    unfolding step_def using that counted_some [of r] by (auto intro!: liftR_keeps split: prod.split)
  have c: "causal_at g w (step c r)" if "r \<noteq> Some [] \<Longrightarrow> \<forall>c'. causal_at g w (?f c')" for c r w
    unfolding step_def using that counted_some [of r]
    by (auto intro!: liftR_causal causalD [OF causal_pure(1)] split: prod.split)
  have u: "fuelled (fst (step c r w))" if "r \<noteq> Some [] \<Longrightarrow> \<forall>c'. fuelled (fst (?f c' w))" for c r w
    unfolding step_def using that counted_some [of r] by (auto intro!: liftR_fuelled split: prod.split)
  from reader_tame [of ?f, OF eq k c u, of "(d, t)"]
  show "keeps evolves (collect sock d t)" "causal g (collect sock d t)" "unbounded (collect sock d t)" by simp_all
qed

lemma answer_tame: "keeps evolves (answer_loop sock rs d t)" "causal g (answer_loop sock rs d t)" "unbounded (answer_loop sock rs d t)"
proof -
  let ?f = "\<lambda>(d, t). answer_loop sock rs d t"
  define step where "step = (\<lambda>(d, t) r. if 0 < fst (counted_read r) then
         bindIO (liftR (land d (unat t) (snd (counted_read r)))) (\<lambda>d'.
           if length d' \<le> unat (t + fst (counted_read r) - 1) then crashIO Out_Of_Bounds
           else if d' ! unat (t + fst (counted_read r) - 1) = NUL then retIO d'
           else answer_loop sock rs d' (t + fst (counted_read r)))
       else retIO d)"
  have eq: "?f c = bindIO (sys_read sock (unat rs)) (step c)" for c
    unfolding step_def by (simp add: answer_eq split: prod.split)
  have k: "evolves w (snd (step c r w))" if "r \<noteq> Some [] \<Longrightarrow> \<forall>c'. evolves w (snd (?f c' w))" for c r w
    unfolding step_def using that counted_some [of r] by (auto intro!: liftR_keeps split: prod.split)
  have c: "causal_at g w (step c r)" if "r \<noteq> Some [] \<Longrightarrow> \<forall>c'. causal_at g w (?f c')" for c r w
    unfolding step_def using that counted_some [of r]
    by (auto intro!: liftR_causal causalD [OF causal_pure(1)] causalD [OF causal_pure(2)] split: prod.split)
  have u: "fuelled (fst (step c r w))" if "r \<noteq> Some [] \<Longrightarrow> \<forall>c'. fuelled (fst (?f c' w))" for c r w
    unfolding step_def using that counted_some [of r] by (auto intro!: liftR_fuelled split: prod.split)
  from reader_tame [of ?f, OF eq k c u, of "(d, t)"]
  show "keeps evolves (answer_loop sock rs d t)" "causal g (answer_loop sock rs d t)" "unbounded (answer_loop sock rs d t)" by simp_all
qed

lemma PingListen_tame [evolve, caus]: "keeps evolves (PingListen sock)" "causal g (PingListen sock)"
  unfolding PingListen_def
  by (auto intro!: evolve caus collect_tame(1,2) echo.keeps_wl echo.causal_wl split: prod.split)

lemma PingListen_unbounded [unbd]: "unbounded (PingListen sock)"
  unfolding PingListen_def by (auto intro!: unbd collect_tame(3) echo.unbounded_wl split: prod.split)

lemma pingSend_tame [evolve, caus]: "keeps evolves (pingSend sock sz)" "causal g (pingSend sock sz)"
  unfolding pingSend_def Let_def by (auto intro!: evolve caus answer_tame(1,2))

section \<open>The server's loop has enough turns\<close>

text \<open>A run that neither returns nor ends for want of a bound: it waits, exits or dies of a fault.\<close>

definition endless :: "'a res \<Rightarrow> bool" where
  "endless r \<longleftrightarrow> fuelled r \<and> (\<forall>x. r \<noteq> Ret x)"

lemma endless_bind:
  assumes "fuelled (fst (m w))" and "\<And>x w'. m w = (Ret x, w') \<Longrightarrow> endless (fst (k x w'))"
  shows "endless (fst (bindIO m k w))"
  using assms by (cases "m w"; cases "fst (m w)") (auto simp: endless_def)

lemma waitConnection4_uses:
  "waitConnection4 s ip pn w = (Ret x, w') \<Longrightarrow> length (accepts w') < length (accepts w)"
  by (auto simp: waitConnection4_def sys_accept_def bindIO_def split: list.splits acc.splits if_splits)

lemma unbounded_waitConnection4: "unbounded (waitConnection4 s ip pn)"
  unfolding waitConnection4_def by (auto intro!: unbd split: acc.split)

lemma answer_rounds_endless: "length (accepts w) < n \<Longrightarrow> endless (fst (answer_rounds n s w))"
proof (induction n arbitrary: w)
  case (Suc n)
  have "endless (fst (bindIO (PingListen c) (\<lambda>_. bindIO (closeTCPSocket c) (\<lambda>_. answer_rounds n s)) w1))"
    if "length (accepts w1) < n" for c w1
  proof (rule endless_bind [OF unboundedD [OF PingListen_unbounded]])
    fix x w2 assume "PingListen c w1 = (Ret x, w2)"
    from keepsD [OF PingListen_tame(1) this] that have "length (accepts w2) < n"
      by (auto simp: evolves_def dest: suffix_length_le)
    with Suc.IH [of "w2\<lparr>evts := evts w2 @ [Ev_Close c]\<rparr>"]
    show "endless (fst (bindIO (closeTCPSocket c) (\<lambda>_. answer_rounds n s) w2))"
      by (simp add: closeTCPSocket_def sys_close_def bindIO_def)
  qed
  then show ?case
    using Suc.prems waitConnection4_uses unfolding answer_rounds.simps
    by (intro endless_bind [OF unboundedD [OF unbounded_waitConnection4]]) (fastforce split: prod.split)
qed simp

section \<open>The two sides in conversation\<close>

definition ask_ready :: "os \<Rightarrow> int \<Rightarrow> u32 \<Rightarrow> bool" where
  "ask_ready wc cs sz \<longleftrightarrow> cs < next_fd wc \<and> outs wc cs = [] \<and> 0 < unat sz \<and> unat sz < 2 ^ 22"

definition listen_ready :: "os \<Rightarrow> int \<Rightarrow> u32 \<Rightarrow> bool" where
  "listen_ready ws ss sz \<longleftrightarrow> ss < next_fd ws \<and> outs ws ss = [] \<and> accepting (wrs ws ss) (unat sz * 1024)"

record ping_setup =
  asker :: os
  ask_sock :: int
  kilobytes :: u32
  listener :: os
  listen_sock :: int

abbreviation ping_asks :: "int \<Rightarrow> u32 \<Rightarrow> os \<Rightarrow> rd list \<Rightarrow> string" where
  "ping_asks cs sz wc \<equiv> said cs (pingSend cs sz) wc"

abbreviation ping_answers :: "int \<Rightarrow> os \<Rightarrow> rd list \<Rightarrow> string" where
  "ping_answers ss ws \<equiv> said ss (PingListen ss) ws"

text \<open>The message, with its NUL.\<close>

definition ping_message :: "u32 \<Rightarrow> string" where
  "ping_message sz = ping_text (unat sz * 1024 - 1) @ [NUL]"

lemma length_ping_message: "0 < unat sz \<Longrightarrow> length (ping_message sz) = unat sz * 1024"
  by (simp add: ping_message_def)

text \<open>The write answers of the asking side matter: no write may fail, and none may stop just before
  the NUL, which is then never sent (\<open>ping_loses_nul\<close> shows what happens when one does).\<close>

definition asks_whole :: "os \<Rightarrow> int \<Rightarrow> u32 \<Rightarrow> bool" where
  "asks_whole wc cs sz \<longleftrightarrow> ask_ready wc cs sz \<and> takes_nul (wrs wc cs) (unat sz * 1024 - 1)"

text \<open>The asking side says its message, whatever it hears.\<close>

lemma asks: "asks_whole wc cs sz \<Longrightarrow> ping_asks cs sz wc r = ping_message sz"
  using pingSend_says [of sz "with_rds cs r wc" cs] by (simp add: asks_whole_def ask_ready_def said_def ping_message_def)

lemma ask_hears:
  assumes "asks_whole wc cs sz" and "flowing r" and "stream r = ping_message sz"
  shows "\<exists>wc'. pingSend cs sz (with_rds cs r wc) = (Ret True, wc')"
  using pingSend_hears [of sz "with_rds cs r wc" cs r "[]"] assms by (auto simp: asks_whole_def ask_ready_def ping_message_def)

lemma listen_hears:
  assumes "asks_whole wc cs sz" and "listen_ready ws ss sz" and "flowing r" and "stream r = ping_message sz"
  shows "\<exists>x ws'. PingListen ss (with_rds ss r ws) = (Ret x, ws') \<and> outs ws' ss = ping_message sz"
proof -
  let ?w = "with_rds ss r ws" and ?m = "ping_text (unat sz * 1024 - 1)"
  have sz: "0 < unat sz" "unat sz < 2 ^ 22" using assms(1) by (simp_all add: asks_whole_def ask_ready_def)
  have "rds ?w ss = r @ []" "NUL \<notin> set ?m" "length ?m + 2 < 2 ^ 32" "accepting (wrs ?w ss) (length ?m + 1)"
    using assms(2) sz ping_text_letters by (auto simp: listen_ready_def)
  from PingListen_message [OF this(1) assms(3) assms(4) [unfolded ping_message_def] this(2-4)] obtain x k where
    "PingListen ss ?w = (Ret x, wrote ss (?m @ [NUL]) k (with_rds ss [] ?w))" by blast
  with assms(2) show ?thesis by (simp add: ping_message_def listen_ready_def)
qed

lemma ask_early:
  assumes "asks_whole wc cs sz" and "flowing r" and "prefix (stream r) (ping_message sz)"
  shows "fst (pingSend cs sz (with_rds cs r wc)) \<in> {Blocked, Ret True}"
proof -
  obtain q where q: "flowing (r @ q)" "stream (r @ q) = ping_message sz" using completed [OF assms(2,3)] .
  from ask_hears [OF assms(1) q] obtain w' where "pingSend cs sz (with_rds cs (r @ q) wc) = (Ret True, w')" by blast
  with early [OF pingSend_tame(2,1) _ this] assms(1) show ?thesis by (simp add: asks_whole_def ask_ready_def)
qed

lemma listen_early:
  assumes "asks_whole wc cs sz" and "listen_ready ws ss sz" and "flowing r" and "prefix (stream r) (ping_message sz)"
  shows "\<exists>x. fst (PingListen ss (with_rds ss r ws)) \<in> {Blocked, Ret x} \<and> prefix (ping_answers ss ws r) (ping_message sz)"
proof -
  obtain q where q: "flowing (r @ q)" "stream (r @ q) = ping_message sz" using completed [OF assms(3,4)] .
  from listen_hears [OF assms(1,2) q] obtain x w' where
    w': "PingListen ss (with_rds ss (r @ q) ws) = (Ret x, w')" "outs w' ss = ping_message sz" by blast
  have ss: "ss < next_fd ws" using assms(2) by (simp add: listen_ready_def)
  have "prefix (ping_answers ss ws r) (ping_answers ss ws (r @ q))" by (rule said_grows [OF PingListen_tame(2,1) ss])
  with w' early [OF PingListen_tame(2,1) ss w'(1)] show ?thesis by (auto simp: said_def)
qed

interpretation ping: dialogue
  "\<lambda>p :: ping_setup. ping_asks (ask_sock p) (kilobytes p) (asker p)"
  "\<lambda>p. ping_answers (listen_sock p) (listener p)"
  "\<lambda>p. asks_whole (asker p) (ask_sock p) (kilobytes p) \<and> listen_ready (listener p) (listen_sock p) (kilobytes p)"
  "\<lambda>p. 2 * length (ping_message (kilobytes p))"
proof
  fix p :: ping_setup and r q rc rs
  assume ok: "asks_whole (asker p) (ask_sock p) (kilobytes p) \<and> listen_ready (listener p) (listen_sock p) (kilobytes p)"
  note asks = asks [OF conjunct1 [OF ok]]
  show "prefix (ping_asks (ask_sock p) (kilobytes p) (asker p) r) (ping_asks (ask_sock p) (kilobytes p) (asker p) (r @ q))"
    by (simp add: asks)
  show "prefix (ping_answers (listen_sock p) (listener p) r) (ping_answers (listen_sock p) (listener p) (r @ q))"
    using ok by (intro said_grows [OF PingListen_tame(2,1)]) (simp add: listen_ready_def)
  assume "flowing rs" "prefix (stream rs) (ping_asks (ask_sock p) (kilobytes p) (asker p) rc)"
  with listen_early [OF conjunct1 [OF ok] conjunct2 [OF ok], of rs] asks have
    "prefix (ping_answers (listen_sock p) (listener p) rs) (ping_message (kilobytes p))" by auto
  then show "length (ping_answers (listen_sock p) (listener p) rs) + length (ping_asks (ask_sock p) (kilobytes p) (asker p) rc)
      \<le> 2 * length (ping_message (kilobytes p))"
    by (simp add: asks prefix_length_le)
qed

section \<open>Properties\<close>

text \<open>
  C10: When every write takes at least a byte and none of the asking side stops just before the NUL,
  every schedule of the network completes a ping of less than 4 GB. No sequence of deliveries is longer than the message and its answer
  have bytes; while one is going on neither side crashes and the asking side does not report an
  error; one that cannot be continued has let both sides return, the asking side with success.
  The condition on the writes is needed: see \<open>ping_loses_nul\<close>. The answering side may have its
  writes cut anywhere.
\<close>

theorem ping_completes:
  assumes "ask_ready wc cs sz" and "takes_nul (wrs wc cs) (unat sz * 1024 - 1)" and "listen_ready ws ss sz"
    and "(delivery (ping_asks cs sz wc) (ping_answers ss ws) ^^ n) ([], []) (rc, rs)"
    and "pingSend cs sz (with_rds cs rc wc) = (a, wc')" and "PingListen ss (with_rds ss rs ws) = (b, ws')"
  shows "n \<le> 2048 * unat sz \<and> (a = Blocked \<or> a = Ret True) \<and> (b = Blocked \<or> (\<exists>x. b = Ret x)) \<and>
    ((\<exists>st. delivery (ping_asks cs sz wc) (ping_answers ss ws) (rc, rs) st) \<or> a = Ret True \<and> (\<exists>x. b = Ret x))"
proof -
  have w: "asks_whole wc cs sz" using assms(1,2) by (simp add: asks_whole_def)
  let ?p = "\<lparr>asker = wc, ask_sock = cs, kilobytes = sz, listener = ws, listen_sock = ss\<rparr>"
  have len: "length (ping_message sz) = unat sz * 1024"
    using assms(1) by (intro length_ping_message) (simp add: ask_ready_def)
  have n: "n \<le> 2 * length (ping_message sz)" and "ping.consistent ?p (rc, rs)"
    using ping.run_length [of n ?p "(rc, rs)"] w assms(3,4) by simp_all
  then have c: "flowing rc" "flowing rs" "prefix (stream rc) (ping_answers ss ws rs)" "prefix (stream rs) (ping_message sz)"
    by (simp_all add: ping.consistent_def asks [OF w])
  obtain x where b: "b = Blocked \<or> b = Ret x" and pre: "prefix (ping_answers ss ws rs) (ping_message sz)"
    using listen_early [OF w assms(3) c(2,4)] assms(6) by auto
  have a: "a = Blocked \<or> a = Ret True"
    using ask_early [OF w c(1) prefix_order.trans [OF c(3) pre]] assms(5) by simp
  have "a = Ret True \<and> (\<exists>x. b = Ret x)"
    if "\<nexists>st. delivery (ping_asks cs sz wc) (ping_answers ss ws) (rc, rs) st"
  proof -
    have st: "stream rc = ping_answers ss ws rs" "stream rs = ping_message sz"
      using ping.stuck_settled [of n ?p rc rs] w assms(3,4) that by (simp_all add: asks)
    from listen_hears [OF w assms(3) c(2) st(2)] obtain x v where
      v: "PingListen ss (with_rds ss rs ws) = (Ret x, v)" "outs v ss = ping_message sz" by blast
    with st(1) have "stream rc = ping_message sz" by (simp add: said_def)
    from ask_hears [OF w c(1) this] v(1) assms(5,6) show ?thesis by auto
  qed
  with n a b len show ?thesis by auto
qed

text \<open>
  C33: The server answers clients as long as there are any: it does not stop for the bound that its
  loop is given here, whatever the clients send and however they end, and the only value it can
  return is 1, when its socket could not be set up.
\<close>

theorem ping_server_endless:
  "endless (fst (Ping.start_server a0 iface port maxClients w)) \<or>
   fst (Ping.start_server a0 iface port maxClients w) = Ret 1 \<and>
   fst (newTCPServerSocket4 a0 iface port (int (unat maxClients)) w) = Ret (-1)"
proof -
  obtain r v where n: "newTCPServerSocket4 a0 iface port (int (unat maxClients)) w = (r, v)" by fastforce
  have "fuelled (fst (newTCPServerSocket4 a0 iface port (int (unat maxClients)) w))"
    by (auto simp: newTCPServerSocket4_def getNewTCPSocket_def sys_socket_def sys_bind_def
        sys_listen_def bindIO_def split: prod.split list.split)
  with n have r: "fuelled r" by simp
  have "endless (fst (bindIO (answer_rounds (Suc (length (accepts v))) s) (\<lambda>_. retIO (0 :: int)) v))" for s
  proof (rule endless_bind)
    have e: "endless (fst (answer_rounds (Suc (length (accepts v))) s v))" by (rule answer_rounds_endless) simp
    then show "fuelled (fst (answer_rounds (Suc (length (accepts v))) s v))" by (simp add: endless_def)
    fix x w' assume "answer_rounds (Suc (length (accepts v))) s v = (Ret x, w')"
    with e show "endless (fst (retIO (0 :: int) w'))" by (simp add: endless_def)
  qed
  with n r show ?thesis
    unfolding Ping.start_server_def by (cases r) (auto simp: endless_def fuelled_def simp del: answer_rounds.simps)
qed

section \<open>An example\<close>

text \<open>A ping of one kilobyte, the message and its answer delivered in one piece each.\<close>

definition sched_cli :: os where
  "sched_cli = idle\<lparr>next_fd := 9, wrs := (\<lambda>_. [])(4 := [Wr_Acc 1000, Wr_Acc 24])\<rparr>"

definition sched_srv :: os where
  "sched_srv = idle\<lparr>next_fd := 9, wrs := (\<lambda>_. [])(5 := replicate 1024 (Wr_Acc 7))\<rparr>"

lemma sched_ready: "asks_whole sched_cli 4 1" "listen_ready sched_srv 5 1"
  by (simp_all add: asks_whole_def ask_ready_def listen_ready_def sched_cli_def sched_srv_def accepting_replicate)

lemma sched_run:
  "(delivery (ping_asks 4 1 sched_cli) (ping_answers 5 sched_srv) ^^ 2) ([], [])
     ([Rd_Data (ping_message 1)], [Rd_Data (ping_message 1)])"
proof -
  let ?d = "delivery (ping_asks 4 1 sched_cli) (ping_answers 5 sched_srv)" and ?m = "ping_message 1"
  have ne: "?m \<noteq> []" by (simp add: ping_message_def)
  have "?d ([], []) ([], [] @ [Rd_Data ?m])"
    by (rule to_server) (simp_all add: ne asks [OF sched_ready(1)])
  moreover have "ping_answers 5 sched_srv [Rd_Data ?m] = ?m"
    using listen_hears [OF sched_ready, of "[Rd_Data ?m]"] ne by (auto simp: said_def)
  then have "?d ([], [Rd_Data ?m]) ([] @ [Rd_Data ?m], [Rd_Data ?m])"
    by (intro to_client) (simp_all add: ne)
  ultimately show ?thesis by (auto simp: numeral_2_eq_2)
qed

lemma ping_completes_witness:
  "fst (pingSend 4 1 (with_rds 4 [Rd_Data (ping_message 1)] sched_cli)) = Ret True"
proof -
  have "ping_answers 5 sched_srv [Rd_Data (ping_message 1)] = ping_message 1"
    using listen_hears [OF sched_ready, of "[Rd_Data (ping_message 1)]"]
    by (auto simp: said_def ping_message_def)
  then have "settled (ping_asks 4 1 sched_cli) (ping_answers 5 sched_srv)
      ([Rd_Data (ping_message 1)], [Rd_Data (ping_message 1)])"
    by (simp add: settled_def asks [OF sched_ready(1)])
  from settled_stuck [OF this] ping_completes [OF sched_ready(1) [unfolded asks_whole_def, THEN conjunct1]
      sched_ready(1) [unfolded asks_whole_def, THEN conjunct2] sched_ready(2) sched_run prod.collapse [symmetric] prod.collapse [symmetric]]
  show ?thesis by simp
qed

end
