(* ===== verification/Ping_Rounds.thy ===== *)
theory Ping_Rounds
  imports Ping
begin

text \<open>
  The loops of tcp_ping around single pings: the client's rounds, each over a connection of its
  own, and the server's clients, one after the other.
\<close>

section \<open>The client's rounds\<close>

text \<open>A connection that a ping succeeds over.\<close>

definition good_line :: "u32 \<Rightarrow> os \<Rightarrow> int \<Rightarrow> bool" where
  "good_line sz w k \<longleftrightarrow> 0 \<le> k \<and> takes_nul (wrs w k) (unat sz * 1024 - 1) \<and> flowing (rds w k) \<and>
     stream (rds w k) = ping_text (unat sz * 1024 - 1) @ [NUL]"

definition sent_line :: "u32 \<Rightarrow> string \<Rightarrow> nat \<Rightarrow> u64 \<Rightarrow> string" where
  "sent_line sz ip i ms = dec_int (sint (of_nat i :: u32)) @ TAB # ''Sent'' @ TAB # '' '' @ dec_int (sint sz) @ '' KB'' @
     TAB # '' to '' @ ip @ '' on'' @ TAB # '' '' @ dec (unat ms) @ '' ms'' @ [LF]"

text \<open>One round, from the \<open>i\<close>-th, over the next socket.\<close>

lemma ask_round:
  assumes "i < cnt" and "0 < unat sz" and "unat sz < 2 ^ 22" and "length os = 4" and "\<forall>v\<in>set os. v < 256"
    and "socks w = k # ks" and "connects w = 0 # cs" and "good_line sz w k"
  shows "\<exists>j w'. ask_rounds a0 (inet_ntop4 os) port cnt sz i w = ask_rounds a0 (inet_ntop4 os) port cnt sz (i + 1) w' \<and>
     socks w' = ks \<and> connects w' = cs \<and> clock w' = clock w \<and> ticks w' = ticks w + 2 \<and>
     outs w' = (outs w)(k := outs w k @ ping_text (unat sz * 1024 - 1) @ [NUL]) \<and>
     rds w' = (rds w)(k := []) \<and> wrs w' = (wrs w)(k := drop j (wrs w k)) \<and>
     stdout w' = stdout w @ sent_line sz (inet_ntop4 os) (unat i) (reading w (Suc (ticks w)) - reading w (ticks w))"
proof -
  let ?ip = "inet_ntop4 os" and ?m = "ping_text (unat sz * 1024 - 1) @ [NUL]"
  let ?w1 = "w\<lparr>ticks := Suc (ticks w)\<rparr>"
  let ?w2 = "connected ?w1 ks cs k (net_addr a0 os (ucast port))"
  let ?w3 = "?w2\<lparr>ticks := Suc (Suc (ticks w))\<rparr>"
  from assms(8) have k: "0 \<le> k" "takes_nul (wrs ?w3 k) (unat sz * 1024 - 1)" "flowing (rds ?w3 k)" "stream (rds ?w3 k) = ?m"
    by (simp_all add: good_line_def)
  have "rds ?w3 k = rds ?w3 k @ []" by simp
  from pingSend_hears [OF assms(2,3) k(2) this k(3,4)] obtain j where
    ps: "pingSend k sz ?w3 = (Ret True, with_rds k [] (wrote k ?m j ?w3))" by blast
  have t1: "currentTimeMillis w = (Ret (reading w (ticks w)), ?w1)" by (rule currentTimeMillis_reading)
  have nc: "newTCPClientSocket4 a0 ?ip (ucast port) ?w1 = (Ret k, ?w2)"
    by (rule newTCPClientSocket4_ok [OF assms(4,5)]) (use assms(6,7) k(1) in simp_all)
  have t2: "currentTimeMillis ?w2 = (Ret (reading w (Suc (ticks w))), ?w3)"
    by (simp add: currentTimeMillis_run reading_def)
  let ?line = "sent_line sz ?ip (unat i) (reading w (Suc (ticks w)) - reading w (ticks w))"
  let ?w4 = "with_rds k [] (wrote k ?m j ?w3)"
  let ?w' = "?w4\<lparr>stdout := stdout w @ ?line, evts := evts ?w4 @ [Ev_Close k]\<rparr>"
  have "ask_rounds a0 ?ip port cnt sz i w = ask_rounds a0 ?ip port cnt sz (i + 1) ?w'"
    using assms(1) t1 nc t2 ps
    by (subst ask_rounds.simps) (simp add: bindIO_def sys_printf_def closeTCPSocket_def sys_close_def sent_line_def)
  moreover have "socks ?w' = ks \<and> connects ?w' = cs" by (simp add: connected_def)
  ultimately show ?thesis by (intro exI [of _ j] exI [of _ ?w']) simp
qed

lemma ask_rounds_run:
  assumes "unat i + length ks = unat cnt" and "0 < unat sz" and "unat sz < 2 ^ 22"
    and "length os = 4" and "\<forall>v\<in>set os. v < 256" and "distinct ks"
    and "socks w = ks @ ss" and "connects w = replicate (length ks) 0 @ cs" and "\<forall>k\<in>set ks. good_line sz w k"
  shows "\<exists>w'. ask_rounds a0 (inet_ntop4 os) port cnt sz i w = (Ret (), w') \<and>
     (\<forall>k\<in>set ks. outs w' k = outs w k @ ping_text (unat sz * 1024 - 1) @ [NUL]) \<and>
     (\<forall>k. k \<notin> set ks \<longrightarrow> outs w' k = outs w k) \<and>
     stdout w' = stdout w @ concat (map (\<lambda>j. sent_line sz (inet_ntop4 os) (unat i + j)
        (reading w (ticks w + 2 * j + 1) - reading w (ticks w + 2 * j))) [0..<length ks])"
  using assms
proof (induction ks arbitrary: i w)
  case Nil
  then have "\<not> i < cnt" by (simp add: word_less_nat_alt)
  then show ?case by (subst ask_rounds.simps) simp
next
  case (Cons k ks)
  let ?ip = "inet_ntop4 os" and ?m = "ping_text (unat sz * 1024 - 1) @ [NUL]"
  have lt: "i < cnt" using Cons.prems(1) by (simp add: word_less_nat_alt)
  have i1: "unat (i + 1) = unat i + 1"
    using unat_add_of_nat [of i 1] Cons.prems(1) unsigned_less [of cnt, where 'a = nat] by simp
  have "socks w = k # (ks @ ss)" "connects w = 0 # (replicate (length ks) 0 @ cs)" "good_line sz w k"
    using Cons.prems(7-9) by simp_all
  from ask_round [OF lt Cons.prems(2-5) this] obtain j w1 where
    run: "ask_rounds a0 ?ip port cnt sz i w = ask_rounds a0 ?ip port cnt sz (i + 1) w1"
    and w1: "socks w1 = ks @ ss" "connects w1 = replicate (length ks) 0 @ cs" "clock w1 = clock w" "ticks w1 = ticks w + 2"
      "outs w1 = (outs w)(k := outs w k @ ?m)" "rds w1 = (rds w)(k := [])" "wrs w1 = (wrs w)(k := drop j (wrs w k))"
      "stdout w1 = stdout w @ sent_line sz ?ip (unat i) (reading w (Suc (ticks w)) - reading w (ticks w))"
    by blast
  have rd: "reading w1 n = reading w n" for n by (simp add: reading_def w1(3))
  have "k \<notin> set ks" "distinct ks" using Cons.prems(6) by simp_all
  then have "\<forall>k\<in>set ks. good_line sz w1 k"
    using Cons.prems(9) w1(6,7) by (auto simp: good_line_def)
  moreover have "unat (i + 1) + length ks = unat cnt" using Cons.prems(1) i1 by simp
  ultimately obtain w' where w': "ask_rounds a0 ?ip port cnt sz (i + 1) w1 = (Ret (), w')"
    "\<forall>k\<in>set ks. outs w' k = outs w1 k @ ?m" "\<forall>k. k \<notin> set ks \<longrightarrow> outs w' k = outs w1 k"
    "stdout w' = stdout w1 @ concat (map (\<lambda>j. sent_line sz ?ip (unat (i + 1) + j)
        (reading w1 (ticks w1 + 2 * j + 1) - reading w1 (ticks w1 + 2 * j))) [0..<length ks])"
    using Cons.IH [OF _ Cons.prems(2-5) \<open>distinct ks\<close> w1(1,2)] by blast
  have "map (\<lambda>j. sent_line sz ?ip (unat i + j) (reading w (ticks w + 2 * j + 1) - reading w (ticks w + 2 * j))) [0..<Suc (length ks)] =
      sent_line sz ?ip (unat i) (reading w (Suc (ticks w)) - reading w (ticks w)) #
      map (\<lambda>j. sent_line sz ?ip (unat (i + 1) + j)
        (reading w1 (ticks w1 + 2 * j + 1) - reading w1 (ticks w1 + 2 * j))) [0..<length ks]"
    by (simp add: upt_conv_Cons map_Suc_upt [symmetric] i1 w1(4) rd o_def del: upt_Suc)
  with run w' w1(5,8) \<open>k \<notin> set ks\<close> show ?case by (intro exI [of _ w']) auto
qed

section \<open>The server's clients\<close>

text \<open>A client that sends the message \<open>m\<close>, in any segmentation, and takes the answer.\<close>

definition good_client :: "os \<Rightarrow> int \<Rightarrow> string \<Rightarrow> bool" where
  "good_client w c m \<longleftrightarrow> c \<noteq> -1 \<and> flowing (rds w c) \<and> stream (rds w c) = m @ [NUL] \<and> NUL \<notin> set m \<and>
     length m + 2 < 2 ^ 32 \<and> accepting (wrs w c) (length m + 1)"

lemma answer_round_run:
  assumes "accepts w = Acc c a # r" and "good_client w c m"
  shows "\<exists>k w'. answer_rounds (Suc n) s w = answer_rounds n s w' \<and> accepts w' = r \<and>
     outs w' = (outs w)(c := outs w c @ m @ [NUL]) \<and> rds w' = (rds w)(c := []) \<and>
     wrs w' = (wrs w)(c := drop k (wrs w c)) \<and> evts w' = evts w @ [Ev_Close c]"
proof -
  let ?w1 = "w\<lparr>accepts := r\<rparr>"
  have g: "flowing (rds ?w1 c)" "stream (rds ?w1 c) = m @ [NUL]" "NUL \<notin> set m" "length m + 2 < 2 ^ 32"
    "accepting (wrs ?w1 c) (length m + 1)" "rds ?w1 c = rds ?w1 c @ []" "c \<noteq> -1"
    using assms(2) by (simp_all add: good_client_def)
  from PingListen_message [OF g(6,1-5)] obtain x k where
    pl: "PingListen c ?w1 = (Ret x, wrote c (m @ [NUL]) k (with_rds c [] ?w1))" by blast
  let ?w2 = "wrote c (m @ [NUL]) k (with_rds c [] ?w1)"
  let ?w' = "?w2\<lparr>evts := evts ?w2 @ [Ev_Close c]\<rparr>"
  obtain ip pn where "waitConnection4 s (Some []) (Some 0) w = (Ret (c, ip, pn), ?w1)"
    using waitConnection4_run(2) [OF assms(1)] g(7) by simp
  with pl have "answer_rounds (Suc n) s w = answer_rounds n s ?w'"
    by (simp add: closeTCPSocket_def sys_close_def bindIO_def)
  then show ?thesis by (intro exI [of _ k] exI [of _ ?w']) simp
qed

lemma answer_rounds_run:
  assumes "accepts w = map (\<lambda>(c, m, a). Acc c a) cs" and "distinct (map fst cs)"
    and "\<forall>(c, m, a)\<in>set cs. good_client w c m" and "length cs < n"
  shows "\<exists>w'. answer_rounds n s w = (Blocked, w') \<and>
     (\<forall>(c, m, a)\<in>set cs. outs w' c = outs w c @ m @ [NUL]) \<and>
     (\<forall>c. c \<notin> fst ` set cs \<longrightarrow> outs w' c = outs w c) \<and>
     evts w' = evts w @ map (\<lambda>x. Ev_Close (fst x)) cs"
  using assms
proof (induction cs arbitrary: w n)
  case Nil
  then obtain n' where "n = Suc n'" by (cases n) auto
  with Nil show ?case by (simp add: waitConnection4_run bindIO_def)
next
  case (Cons x cs)
  obtain c m a where x: "x = (c, m, a)" by (cases x)
  obtain n' where n: "n = Suc n'" "length cs < n'" using Cons.prems(4) by (cases n) auto
  have "accepts w = Acc c a # map (\<lambda>(c, m, a). Acc c a) cs" "good_client w c m"
    using Cons.prems(1,3) by (simp_all add: x)
  from answer_round_run [OF this, of n' s] obtain k w1 where
    run: "answer_rounds n s w = answer_rounds n' s w1" and
    w1: "accepts w1 = map (\<lambda>(c, m, a). Acc c a) cs" "outs w1 = (outs w)(c := outs w c @ m @ [NUL])"
      "rds w1 = (rds w)(c := [])" "wrs w1 = (wrs w)(c := drop k (wrs w c))" "evts w1 = evts w @ [Ev_Close c]"
    unfolding n(1) by blast
  have c: "c \<notin> fst ` set cs" "distinct (map fst cs)" using Cons.prems(2) by (simp_all add: x)
  then have "\<forall>(c, m, a)\<in>set cs. good_client w1 c m"
    using Cons.prems(3) by (force simp: good_client_def w1(3,4) split: prod.split)
  from Cons.IH [OF w1(1) c(2) this n(2)] obtain w' where
    w': "answer_rounds n' s w1 = (Blocked, w')" "\<forall>(c, m, a)\<in>set cs. outs w' c = outs w1 c @ m @ [NUL]"
      "\<forall>c. c \<notin> fst ` set cs \<longrightarrow> outs w' c = outs w1 c" "evts w' = evts w1 @ map (\<lambda>x. Ev_Close (fst x)) cs"
    by blast
  have "outs w' d = outs w d @ m' @ [NUL]" if "(d, m', a') \<in> set (x # cs)" for d m' a'
  proof (cases "(d, m', a') \<in> set cs")
    case True
    with w'(2) have "outs w' d = outs w1 d @ m' @ [NUL]" by blast
    moreover have "d \<noteq> c" using True c(1) by force
    ultimately show ?thesis by (simp add: w1(2))
  next
    case False
    with that x have "d = c" "m' = m" by simp_all
    with w'(3) c(1) show ?thesis by (simp add: w1(2))
  qed
  moreover have "outs w' d = outs w d" if "d \<notin> fst ` set (x # cs)" for d
    using that w'(3) w1(2) x by simp
  ultimately show ?case using run w'(1,4) w1(5) x by (intro exI [of _ w']) auto
qed

section \<open>Properties\<close>

text \<open>
  C12: The client pings as often as it is told: over connections that work it opens one after the
  other, sends the whole message on each, reports each round with the time that the connection
  took, and returns true.
\<close>

theorem ping_client_rounds:
  assumes "0 < unat sz" and "unat sz < 2 ^ 22" and "length os = 4" and "\<forall>v\<in>set os. v < 256"
    and "length ks = unat cnt" and "distinct ks" and "socks w = ks @ ss" and "connects w = replicate (length ks) 0 @ cs"
    and "\<forall>k\<in>set ks. good_line sz w k"
  shows "\<exists>w'. Ping.start_client a0 (inet_ntop4 os) port cnt sz w = (Ret True, w') \<and>
     (\<forall>k\<in>set ks. outs w' k = outs w k @ ping_text (unat sz * 1024 - 1) @ [NUL]) \<and>
     stdout w' = stdout w @ concat (map (\<lambda>j. sent_line sz (inet_ntop4 os) j
        (reading w (ticks w + 2 * j + 1) - reading w (ticks w + 2 * j))) [0..<unat cnt])"
proof -
  have "unat (0 :: u32) + length ks = unat cnt" using assms(5) by simp
  from ask_rounds_run [OF this assms(1-4,6-9), of a0 port] obtain w' where
    w': "ask_rounds a0 (inet_ntop4 os) port cnt sz 0 w = (Ret (), w')"
      "\<forall>k\<in>set ks. outs w' k = outs w k @ ping_text (unat sz * 1024 - 1) @ [NUL]"
      "stdout w' = stdout w @ concat (map (\<lambda>j. sent_line sz (inet_ntop4 os) (unat (0 :: u32) + j)
        (reading w (ticks w + 2 * j + 1) - reading w (ticks w + 2 * j))) [0..<length ks])" by blast
  with assms(5) show ?thesis by (intro exI [of _ w']) (simp add: Ping.start_client_def)
qed

text \<open>
  C11: The server answers its clients one after the other, each with exactly the message it sent up to
  and with its NUL, whatever the segmentation of the messages and however little each write accepts;
  it closes every connection in turn, sends nothing to anyone else and then waits for the next client.
\<close>

theorem ping_server_serves:
  assumes "length os = 4" and "\<forall>v\<in>set os. v < 256" and "socks w = [s]" and "s \<noteq> -1" and "binds w = [0]" and "listens w = [0]"
    and "accepts w = map (\<lambda>(c, m, a). Acc c a) cs" and "distinct (map fst cs)"
    and "\<forall>(c, m, a)\<in>set cs. good_client w c m"
  shows "\<exists>w'. Ping.start_server a0 (inet_ntop4 os) port maxClients w = (Blocked, w') \<and>
     (\<forall>(c, m, a)\<in>set cs. outs w' c = outs w c @ m @ [NUL]) \<and>
     (\<forall>c. c \<notin> fst ` set cs \<longrightarrow> outs w' c = outs w c) \<and>
     evts w' = evts w @ [Ev_Bind s (net_addr a0 os port), Ev_Listen s (int (unat maxClients))] @
       map (\<lambda>x. Ev_Close (fst x)) cs"
proof -
  let ?w1 = "listening w [] [] [] s (net_addr a0 os port) (int (unat maxClients))"
  have n: "newTCPServerSocket4 a0 (inet_ntop4 os) port (int (unat maxClients)) w = (Ret s, ?w1)"
    by (rule newTCPServerSocket4_ok [OF assms(1,2)]) (use assms(3,5,6) in simp_all)
  have "\<forall>(c, m, a)\<in>set cs. good_client ?w1 c m" "accepts ?w1 = map (\<lambda>(c, m, a). Acc c a) cs"
    using assms(7,9) by (simp_all add: good_client_def)
  moreover have "length cs < Suc (length (accepts ?w1))" using assms(7) by simp
  ultimately obtain w' where w': "answer_rounds (Suc (length (accepts ?w1))) s ?w1 = (Blocked, w')"
    "\<forall>(c, m, a)\<in>set cs. outs w' c = outs ?w1 c @ m @ [NUL]" "\<forall>c. c \<notin> fst ` set cs \<longrightarrow> outs w' c = outs ?w1 c"
    "evts w' = evts ?w1 @ map (\<lambda>x. Ev_Close (fst x)) cs"
    using answer_rounds_run [OF _ assms(8)] by blast
  have "Ping.start_server a0 (inet_ntop4 os) port maxClients w = (Blocked, w')"
    using n assms(4) w'(1) by (simp add: Ping.start_server_def del: answer_rounds.simps)
  moreover have "evts ?w1 = evts w @ [Ev_Bind s (net_addr a0 os port), Ev_Listen s (int (unat maxClients))]"
    by (simp add: listening_def)
  ultimately show ?thesis using w'(2-4) by (intro exI [of _ w']) simp
qed

section \<open>Examples\<close>

text \<open>Two pings of a kilobyte, and a server with two clients.\<close>

definition two_pings :: os where
  "two_pings = idle\<lparr>socks := [4, 5], connects := [0, 0], wrs := (\<lambda>_. [Wr_Acc 1024]),
     rds := (\<lambda>_. [Rd_Data (ping_text 1023), Rd_Data [NUL]])\<rparr>"

lemma two_pings_sel [simp]:
  "socks two_pings = [4, 5]" "connects two_pings = [0, 0]" "wrs two_pings k = [Wr_Acc 1024]" "outs two_pings k = []"
  "rds two_pings k = [Rd_Data (ping_text 1023), Rd_Data [NUL]]" "stdout two_pings = []" "ticks two_pings = 0"
  by (simp_all add: two_pings_def idle_def)

lemma ping_client_rounds_witness:
  "\<exists>w'. Ping.start_client \<lparr>sin_family = 0, sin_port = 0, sin_addr = [], sin_zero = []\<rparr> (inet_ntop4 [127, 0, 0, 1]) 5001 2 1 two_pings =
       (Ret True, w') \<and>
     stdout w' = concat (map (\<lambda>j. sent_line 1 (inet_ntop4 [127, 0, 0, 1]) j
       (reading two_pings (2 * j + 1) - reading two_pings (2 * j))) [0, 1])"
proof -
  have ne: "ping_text 1023 \<noteq> []" by (metis length_ping_text list.size(3) zero_neq_numeral)
  have g: "\<forall>k\<in>set [4, 5]. good_line 1 two_pings k" using ne by (simp add: good_line_def)
  have up: "[0..<2] = [0, 1 :: nat]" by (simp add: upt_rec)
  from ping_client_rounds [of 1 "[127, 0, 0, 1]" "[4, 5]" 2 two_pings "[]" "[]" "\<lparr>sin_family = 0, sin_port = 0, sin_addr = [], sin_zero = []\<rparr>" 5001] g
  show ?thesis by (auto simp: up)
qed

definition two_clients :: os where
  "two_clients = idle\<lparr>socks := [3], binds := [0], listens := [0],
     accepts := [Acc 4 \<lparr>sin_family = 2, sin_port = 9, sin_addr = [10, 0, 0, 7], sin_zero = []\<rparr>,
       Acc 5 \<lparr>sin_family = 2, sin_port = 9, sin_addr = [10, 0, 0, 8], sin_zero = []\<rparr>],
     wrs := (\<lambda>_. replicate 9 (Wr_Acc 2)),
     rds := (\<lambda>_. [])(4 := [Rd_Data ''AB'', Rd_Data [CHR ''C'', NUL]], 5 := [Rd_Data [CHR ''X'', NUL]])\<rparr>"

lemma ping_server_serves_witness:
  "\<exists>w'. Ping.start_server \<lparr>sin_family = 0, sin_port = 0, sin_addr = [], sin_zero = []\<rparr> (inet_ntop4 [0, 0, 0, 0]) 5001 5 two_clients =
       (Blocked, w') \<and> outs w' 4 = [CHR ''A'', CHR ''B'', CHR ''C'', NUL] \<and> outs w' 5 = [CHR ''X'', NUL]"
  using ping_server_serves [of "[0, 0, 0, 0]" two_clients 3
      "[(4, ''ABC'', \<lparr>sin_family = 2, sin_port = 9, sin_addr = [10, 0, 0, 7], sin_zero = []\<rparr>),
        (5, ''X'', \<lparr>sin_family = 2, sin_port = 9, sin_addr = [10, 0, 0, 8], sin_zero = []\<rparr>)]"
      "\<lparr>sin_family = 0, sin_port = 0, sin_addr = [], sin_zero = []\<rparr>" 5001 5]
  by (auto simp: two_clients_def good_client_def accepting_replicate)

end
