(* ===== verification/Isolation.thy ===== *)
theory Isolation
  imports Evolve
begin

text \<open>
  Which connections a program leaves alone: all that were open when it started but its own.
  Descriptors from \<open>L\<close> on are the ones it opens itself, and the only ones it closes.
\<close>

definition alone :: "int \<Rightarrow> int \<Rightarrow> os \<Rightarrow> os \<Rightarrow> bool" where
  "alone L fd w w' \<longleftrightarrow> (L \<le> next_fd w \<longrightarrow> next_fd w \<le> next_fd w' \<and> accepts w' = accepts w \<and> forks w' = forks w \<and>
     created w' = created w \<and> (\<exists>cl. evts w' = evts w @ map Ev_Close cl \<and> (\<forall>d\<in>set cl. L \<le> d)) \<and>
     (\<forall>f<L. f \<noteq> fd \<longrightarrow> rds w' f = rds w f \<and> wrs w' f = wrs w f \<and> outs w' f = outs w f))"

named_theorems isol \<open>programs that leave the other connections alone\<close>

lemma alone_refl [simp]: "alone L fd w w"
  by (simp add: alone_def)

lemma closes_trans:
  "\<exists>cl. ev = eu @ map Ev_Close cl \<and> (\<forall>d\<in>set cl. P d) \<Longrightarrow> \<exists>cl. ew = ev @ map Ev_Close cl \<and> (\<forall>d\<in>set cl. P d) \<Longrightarrow>
   \<exists>cl. ew = eu @ map Ev_Close cl \<and> (\<forall>d\<in>set cl. P d)"
  by (metis Un_iff append.assoc map_append set_append)

lemma alone_trans: "alone L fd u v \<Longrightarrow> alone L fd v w \<Longrightarrow> alone L fd u w"
  unfolding alone_def using closes_trans [of "evts v" "evts u" "\<lambda>d. L \<le> d" "evts w"] by auto

lemma transp_alone: "transp (alone L fd)"
  by (rule transpI) (rule alone_trans)

lemma alone_wrote: "alone L fd w (wrote fd bs k w)"
  by (simp add: alone_def)

lemma alone_with_rds: "f = fd \<or> L \<le> f \<Longrightarrow> alone L fd w (with_rds f q w)"
  by (auto simp: alone_def)

lemma isol_bind [isol]:
  "keeps (alone L fd) m \<Longrightarrow> (\<And>x. keeps (alone L fd) (k x)) \<Longrightarrow> keeps (alone L fd) (bindIO m k)"
  by (rule keeps_bindIO [OF transp_alone])

lemma isol_bind_at:
  assumes "keeps (alone L fd) m" and "\<And>x w'. m w = (Ret x, w') \<Longrightarrow> alone L fd w' (snd (k x w'))"
  shows "alone L fd w (snd (bindIO m k w))"
proof -
  obtain r w' where m: "m w = (r, w')" by fastforce
  with assms(1) have "alone L fd w w'" by (rule keepsD)
  with m assms(2) show ?thesis by (cases r) (auto intro: alone_trans)
qed

lemma isol_pure [isol]:
  "keeps (alone L fd) (retIO x)" "keeps (alone L fd) (crashIO f)" "keeps (alone L fd) (liftR r)"
  "keeps (alone L fd) (Pair r)"
  by (simp_all add: keeps_def)

lemma isol_if [isol]:
  "(b \<Longrightarrow> keeps R m) \<Longrightarrow> (\<not> b \<Longrightarrow> keeps R m') \<Longrightarrow> keeps R (if b then m else m')"
  by simp

lemma isol_read [isol]: "f = fd \<or> L \<le> f \<Longrightarrow> keeps (alone L fd) (sys_read f n)"
  by (rule keepsI) (metis sys_read_state alone_with_rds prod.collapse)

lemma isol_misc [isol]:
  "keeps (alone L fd) (sys_fstat_size f)" "keeps (alone L fd) (sys_opendir p)"
  by (simp_all add: keeps_def sys_fstat_size_def sys_opendir_def)

text \<open>Closing a descriptor the program has not opened itself is not leaving it alone.\<close>

lemma isol_close [isol]: "L \<le> f \<Longrightarrow> keeps (alone L fd) (sys_close f)"
  by (auto simp: keeps_def alone_def sys_close_def intro!: exI [of _ "[f]"])

text \<open>A file that is opened gets a new descriptor.\<close>

lemma isol_open:
  assumes "keeps (alone L fd) (k (-1))" and "\<And>f. L \<le> f \<Longrightarrow> keeps (alone L fd) (k f)"
  shows "keeps (alone L fd) (bindIO (sys_open_rd p) k)"
proof (rule keepsI)
  fix w show "alone L fd w (snd (bindIO (sys_open_rd p) k w))"
  proof (cases "L \<le> next_fd w")
    case True
    show ?thesis
    proof (cases "files w p")
      case None
      with assms(1) show ?thesis
        by (simp add: keeps_def sys_open_rd_def bindIO_def)
    next
      case (Some f)
      obtain w1 where w1: "sys_open_rd p w = (Ret (next_fd w), w1)" "alone L fd w w1"
        using True Some by (simp add: sys_open_rd_def alone_def)
      with assms(2) [OF True] show ?thesis by (auto simp: keeps_def intro: alone_trans)
    qed
  qed (simp add: alone_def)
qed

end
