(* ===== verification/FtAccept.thy ===== *)
theory FtAccept
  imports FtServer Isolation
begin

text \<open>
  FileTransfer_Proyecto/server.c as a whole: what a conversation leaves alone, and what each of the
  processes does that \<open>start_server\<close> forks.
\<close>

section \<open>A conversation is alone with its client\<close>

lemma isol_sendLine [isol]: "keeps (alone L sock) (sendLine sock s)"
  by (rule keepsI) (metis ln.line_wrote alone_wrote)

lemma isol_read_cmd [isol]: "keeps (alone L sock) (read_cmd sock b)"
  by (rule keepsI) (metis cmd.rl_state alone_with_rds)

lemma isol_copy_loop:
  assumes "L \<le> f"
  shows "alone L sock w (snd (copy_loop sock f w))"
  using assms
proof (induction sock f w rule: copy_loop.induct)
  case (1 sock f w)
  have chunk: "keeps (alone L sock) (chunk_loop sock buf rb 0)" for buf rb
    by (rule keepsI) (metis chunk.wl_wrote alone_wrote)
  from 1 show ?case
    by (subst copy_loop.simps, intro isol_bind_at isol_read)
      (auto simp: Let_def intro!: isol_bind_at chunk)
qed

lemma isol_list_loop [isol]: "keeps (alone L sock) (list_loop sock ents)"
  by (induction ents) (auto intro!: isol)

lemma isol_handle_cmd [isol]: "keeps (alone L sock) (handle_cmd sock base s)"
proof -
  have "keeps (alone L sock) (send_file sock f)" if "L \<le> f" for f
    unfolding send_file_def send_header_def by (intro isol keepsI isol_copy_loop that)
  then have "keeps (alone L sock) (doGet sock base n)" for n
    unfolding doGet_def by (intro isol_open) (auto intro!: isol)
  moreover have "keeps (alone L sock) (doList sock base)"
    unfolding doList_def by (auto intro!: isol split: option.split)
  ultimately show ?thesis
    unfolding handle_cmd_def by (auto intro!: isol split: option.split prod.split)
qed

lemma isol_serve [isol]: "keeps (alone L sock) (serve n sock base)"
proof (induction n)
  case (Suc n)
  have "keeps (alone L sock) (bindIO (read_cmd sock \<lparr>cap = 255, chars = [], slack = []\<rparr>) (\<lambda>b.
     bindIO (handle_cmd sock base (chars b)) (\<lambda>quit. if quit then retIO () else serve n sock base)))"
    by (intro isol Suc.IH)
  then show ?case by (simp add: keeps_def)
qed (simp add: keeps_def)

lemma isol_start_protocol: "keeps (alone L sock) (start_protocol sock base)"
  using isol_serve unfolding keeps_def start_protocol_def by blast

section \<open>One process\<close>

text \<open>A client that sends the requests \<open>xs\<close> and QUIT, in any segmentation, and takes the replies.\<close>

definition good_session :: "os \<Rightarrow> string \<Rightarrow> int \<Rightarrow> request list \<Rightarrow> bool" where
  "good_session w base c xs \<longleftrightarrow> 0 \<le> c \<and> c < next_fd w \<and> list_all (request_ok w base) xs \<and> flowing (rds w c) \<and>
     stream (rds w c) = concat (map (\<lambda>x. frame_of [request_line x]) xs) @ frame_of [''QUIT''] \<and>
     accepting (wrs w c) (length (concat (map (reply w base) xs)))"

lemma session_run:
  assumes "good_session w base c xs" and "quiet_heap w"
  shows "\<exists>w'. start_protocol c base w = (Ret (), w') \<and> outs w' c = outs w c @ concat (map (reply w base) xs)"
proof -
  have g: "list_all (request_ok w base) xs" "0 \<le> c" "c < next_fd w" "rds w c = rds w c @ []" "flowing (rds w c)"
    "stream (rds w c) = concat (map (\<lambda>x. frame_of [request_line x]) xs) @ frame_of [''QUIT'']"
    "accepting (wrs w c) (length (concat (map (reply w base) xs)))"
    using assms(1) by (simp_all add: good_session_def)
  from start_protocol_requests [OF g(1-3) assms(2) g(4-7)] obtain w' r' n where
    w': "start_protocol c base w = serve (Suc n) c base w'" "outs w' c = outs w c @ concat (map (reply w base) xs)"
    "rds w' c = r' @ []" "flowing r'" "stream r' = frame_of [''QUIT'']" "quiet_heap w'" by blast
  from serve_quit [OF w'(6,3,4,5), of n base] w'(1,2) show ?thesis by simp
qed

lemma evolves_session:
  assumes "evolves w w'" and "rds w' c = rds w c" and "wrs w' c = wrs w c" and "good_session w base c xs"
  shows "good_session w' base c xs"
proof -
  have "request_ok w' base = request_ok w base" "reply w' base = reply w base"
    using assms(1) by (auto simp: evolves_request_ok evolves_reply)
  with assms(2-4) evolves_next_fd [OF assms(1)] show ?thesis by (simp add: good_session_def)
qed

text \<open>What the process with the answer \<open>p\<close> of \<open>fork\<close> says to the client.\<close>

definition share :: "os \<Rightarrow> string \<Rightarrow> request list \<Rightarrow> int \<Rightarrow> string" where
  "share w base xs p = (if p = 0 then concat (map (reply w base) xs) else [])"

lemma accept_round:
  assumes "accepts w = Acc c a # r" and "forks w = p # ps" and "0 \<le> p" and "good_session w base c xs" and "quiet_heap w"
  shows "\<exists>w'. accept_loop (Suc n) ss base w = accept_loop n ss base w' \<and> accepts w' = r \<and> forks w' = ps \<and> evolves w w' \<and>
     outs w' c = outs w c @ share w base xs p \<and>
     (\<forall>f<next_fd w. f \<noteq> c \<longrightarrow> rds w' f = rds w f \<and> wrs w' f = wrs w f \<and> outs w' f = outs w f)"
proof -
  let ?w1 = "w\<lparr>accepts := r\<rparr>"
  let ?w2 = "?w1\<lparr>forks := ps, evts := evts w @ [Ev_Fork p]\<rparr>"
  have c: "c \<noteq> -1" using assms(4) by (auto simp: good_session_def)
  have fr: "evolves w ?w2" using assms(1,2) by (auto simp: evolves_def suffix_def)
  have fk: "sys_fork ?w1 = (Ret p, ?w2)" using assms(2) by (simp add: sys_fork_def)
  obtain ip pn where wt: "waitConnection4 ss (Some []) (Some 0) w = (Ret (c, ip, pn), ?w1)"
    using waitConnection4_run(2) [OF assms(1)] c by simp
  show ?thesis
  proof (cases "p = 0")
    case True
    have "good_session ?w2 base c xs" by (rule evolves_session [OF fr _ _ assms(4)]) simp_all
    moreover have "quiet_heap ?w2" using assms(5) evolves_quiet_heap [OF fr] by simp
    ultimately obtain w3 where w3: "start_protocol c base ?w2 = (Ret (), w3)"
      "outs w3 c = outs ?w2 c @ concat (map (reply ?w2 base) xs)" using session_run by blast
    have al: "alone (next_fd w) c ?w2 w3" by (rule keepsD [OF isol_start_protocol w3(1)])
    have ev: "evolves ?w2 w3" by (rule keepsD [OF keeps_start_protocol w3(1)])
    let ?w' = "w3\<lparr>evts := evts w3 @ [Ev_Close c]\<rparr>"
    have "accept_loop (Suc n) ss base w = accept_loop n ss base ?w'"
      using wt c fk w3(1) True by (simp add: closeTCPSocket_def sys_close_def bindIO_def)
    moreover have "evolves w ?w'"
      using evolves_trans [OF fr ev] by (auto simp: evolves_def intro: prefix_order.trans)
    ultimately show ?thesis
      using al w3(2) True evolves_reply [OF fr] by (intro exI [of _ ?w']) (simp add: alone_def share_def cong: map_cong)
  next
    case False
    let ?w' = "?w2\<lparr>evts := evts ?w2 @ [Ev_Close c]\<rparr>"
    have "accept_loop (Suc n) ss base w = accept_loop n ss base ?w'"
      using wt c fk False assms(3) by (simp add: closeTCPSocket_def sys_close_def bindIO_def)
    moreover have "evolves w ?w'" using fr by (simp add: evolves_def)
    ultimately show ?thesis using False by (intro exI [of _ ?w']) (simp add: share_def)
  qed
qed

lemma accept_loop_run:
  assumes "accepts w = map (\<lambda>(c, xs, a). Acc c a) cs" and "forks w = ps" and "length ps = length cs" and "\<forall>p\<in>set ps. 0 \<le> p"
    and "distinct (map fst cs)" and "\<forall>(c, xs, a)\<in>set cs. good_session w base c xs" and "quiet_heap w" and "length cs < n"
  shows "\<exists>w'. accept_loop n ss base w = (Blocked, w') \<and>
     (\<forall>((c, xs, a), p)\<in>set (zip cs ps). outs w' c = outs w c @ share w base xs p) \<and>
     (\<forall>f<next_fd w. f \<notin> fst ` set cs \<longrightarrow> outs w' f = outs w f)"
  using assms
proof (induction cs arbitrary: w ps n)
  case Nil
  then obtain n' where "n = Suc n'" by (cases n) auto
  with Nil show ?case by (simp add: waitConnection4_run bindIO_def)
next
  case (Cons x cs)
  obtain c xs a where x: "x = (c, xs, a)" by (cases x)
  obtain p ps' where ps: "ps = p # ps'" using Cons.prems(3) by (cases ps) auto
  obtain n' where n: "n = Suc n'" "length cs < n'" using Cons.prems(8) by (cases n) auto
  have g: "accepts w = Acc c a # map (\<lambda>(c, xs, a). Acc c a) cs" "forks w = p # ps'" "0 \<le> p" "good_session w base c xs"
    using Cons.prems(1,2,4,6) by (simp_all add: x ps)
  from accept_round [OF g Cons.prems(7), of n' ss] obtain w1 where
    run: "accept_loop n ss base w = accept_loop n' ss base w1" and
    w1: "accepts w1 = map (\<lambda>(c, xs, a). Acc c a) cs" "forks w1 = ps'" "evolves w w1" "outs w1 c = outs w c @ share w base xs p"
      "\<forall>f<next_fd w. f \<noteq> c \<longrightarrow> rds w1 f = rds w f \<and> wrs w1 f = wrs w f \<and> outs w1 f = outs w f"
    unfolding n(1) by blast
  have c: "c \<notin> fst ` set cs" "distinct (map fst cs)" using Cons.prems(5) by (simp_all add: x)
  have old: "d < next_fd w \<and> d \<noteq> c" if "(d, ys, b) \<in> set cs" for d ys b
    using that Cons.prems(6) c(1) by (force simp: good_session_def)
  have "\<forall>(d, ys, b)\<in>set cs. good_session w1 base d ys"
  proof safe
    fix d ys b assume d: "(d, ys, b) \<in> set cs"
    with Cons.prems(6) have "good_session w base d ys" by auto
    with old [OF d] w1(5) show "good_session w1 base d ys" by (intro evolves_session [OF w1(3)]) simp_all
  qed
  moreover have "quiet_heap w1" using Cons.prems(7) evolves_quiet_heap [OF w1(3)] by simp
  moreover have "length ps' = length cs" "\<forall>p\<in>set ps'. 0 \<le> p" using Cons.prems(3,4) by (simp_all add: ps)
  ultimately obtain w' where w': "accept_loop n' ss base w1 = (Blocked, w')"
    "\<forall>((c, xs, a), p)\<in>set (zip cs ps'). outs w' c = outs w1 c @ share w1 base xs p"
    "\<forall>f<next_fd w1. f \<notin> fst ` set cs \<longrightarrow> outs w' f = outs w1 f"
    using Cons.IH [OF w1(1,2) _ _ c(2) _ _ n(2)] by blast
  have sh: "share w1 base ys q = share w base ys q" for ys q
    by (simp add: share_def evolves_reply [OF w1(3)] cong: map_cong)
  have nf: "next_fd w \<le> next_fd w1" using w1(3) by (simp add: evolves_def)
  have "outs w' d = outs w d @ share w base ys q" if "((d, ys, b), q) \<in> set (zip (x # cs) ps)" for d ys b q
  proof (cases "((d, ys, b), q) \<in> set (zip cs ps')")
    case True
    then have "(d, ys, b) \<in> set cs" by (rule set_zip_leftD)
    from old [OF this] w1(5) have "outs w1 d = outs w d" by blast
    with True w'(2) sh show ?thesis by fastforce
  next
    case False
    with that have "d = c" "ys = xs" "q = p" by (simp_all add: x ps)
    moreover have "c < next_fd w1" using g(4) nf by (simp add: good_session_def)
    ultimately show ?thesis using w'(3) c(1) w1(4) by simp
  qed
  moreover have "outs w' f = outs w f" if "f < next_fd w" "f \<notin> fst ` set (x # cs)" for f
    using that w'(3) w1(5) nf x by simp
  ultimately show ?case using run w'(1) by (intro exI [of _ w']) auto
qed

section \<open>Properties\<close>

text \<open>
  C6: A client cannot reach another client's connection through the server. Whatever it sends and
  however its conversation ends, by QUIT, in a wait or in a crash, the server has not read from,
  written to, used up anything of or closed any other descriptor that was open; it has created no
  file, accepted no connection and not forked. All it did to descriptors besides reading and
  writing is to close some that it opened itself (those from \<open>next_fd w\<close> on).
\<close>

theorem server_isolates:
  assumes "start_protocol sock base w = (r, w')" and "f < next_fd w" and "f \<noteq> sock"
  shows "rds w' f = rds w f \<and> wrs w' f = wrs w f \<and> outs w' f = outs w f \<and>
    accepts w' = accepts w \<and> forks w' = forks w \<and> created w' = created w \<and>
    (\<exists>cl. evts w' = evts w @ map Ev_Close cl \<and> f \<notin> set cl \<and> (\<forall>d\<in>set cl. next_fd w \<le> d))"
proof -
  have "alone (next_fd w) sock w w'" by (rule keepsD [OF isol_start_protocol assms(1)])
  moreover from this obtain cl where "evts w' = evts w @ map Ev_Close cl" "\<forall>d\<in>set cl. next_fd w \<le> d"
    by (auto simp: alone_def)
  ultimately show ?thesis using assms(2,3) by (intro conjI exI [of _ cl]) (auto simp: alone_def)
qed

lemma server_isolates_witness:
  "outs (snd (start_protocol 7 ''/srv/'' demo_srv)) 5 = [] \<and> accepts (snd (start_protocol 7 ''/srv/'' demo_srv)) = [] \<and>
   Ev_Close 5 \<notin> set (evts (snd (start_protocol 7 ''/srv/'' demo_srv)))"
  using server_isolates [OF prod.collapse [symmetric], of 5 demo_srv 7 "''/srv/''"] by (auto simp: demo_srv_def)

text \<open>
  C5: What each process of the server does. The answers of \<open>fork\<close> say which process it is: 0 where it
  is the child, a positive number where it is the parent. To exactly the clients for which it is
  the child it sends the whole of their replies, to all others and to every other connection
  nothing, whatever the segmentation of the requests. It never ends: a child goes on to accept
  clients of its own beside its parent.
\<close>

theorem server_process:
  assumes "socks w = [s]" and "s \<noteq> -1" and "binds w = [0]" and "listens w = [0]"
    and "accepts w = map (\<lambda>(c, xs, a). Acc c a) cs" and "forks w = ps" and "length ps = length cs" and "\<forall>p\<in>set ps. 0 \<le> p"
    and "distinct (map fst cs)" and "\<forall>(c, xs, a)\<in>set cs. good_session w base c xs" and "quiet_heap w"
  shows "\<exists>w'. start_server a0 port base w = (Blocked, w') \<and>
     (\<forall>((c, xs, a), p)\<in>set (zip cs ps). outs w' c = outs w c @ (if p = 0 then concat (map (reply w base) xs) else [])) \<and>
     (\<forall>f<next_fd w. f \<notin> fst ` set cs \<longrightarrow> outs w' f = outs w f)"
proof -
  let ?w1 = "listening w [] [] [] s (net_addr a0 [0, 0, 0, 0] port) 5"
  have ip: "inet_ntop4 [0, 0, 0, 0] = ''0.0.0.0''" by code_simp
  have n: "newTCPServerSocket4 a0 ''0.0.0.0'' port 5 w = (Ret s, ?w1)"
    using newTCPServerSocket4_ok [of "[0, 0, 0, 0]" w s "[]" "[]" "[]" a0 port 5] assms(1,3,4) unfolding ip by simp
  have ev: "evolves w ?w1" by (rule keepsD [OF keeps_newTCPServerSocket4 n])
  have "\<forall>(c, xs, a)\<in>set cs. good_session ?w1 base c xs"
    using assms(10) by (auto intro!: evolves_session [OF ev])
  moreover have "quiet_heap ?w1" using assms(11) evolves_quiet_heap [OF ev] by simp
  moreover have "accepts ?w1 = map (\<lambda>(c, xs, a). Acc c a) cs" "forks ?w1 = ps" "length cs < Suc (length (accepts ?w1))"
    using assms(5,6) by (simp_all add: listening_def)
  ultimately obtain w' where w': "accept_loop (Suc (length (accepts ?w1))) s base ?w1 = (Blocked, w')"
    "\<forall>((c, xs, a), p)\<in>set (zip cs ps). outs w' c = outs ?w1 c @ share ?w1 base xs p"
    "\<forall>f<next_fd ?w1. f \<notin> fst ` set cs \<longrightarrow> outs w' f = outs ?w1 f"
    using accept_loop_run [OF _ _ assms(7-9)] by blast
  have "share ?w1 base ys q = (if q = 0 then concat (map (reply w base) ys) else [])" for ys q
    by (simp add: share_def evolves_reply [OF ev] cong: map_cong)
  moreover have "start_server a0 port base w = (Blocked, w')"
    using n assms(2) w'(1) by (simp add: start_server_def del: accept_loop.simps)
  ultimately show ?thesis using w'(2,3) by (intro exI [of _ w']) simp
qed

text \<open>The child of the second \<open>fork\<close>: the first client is another process's.\<close>

definition demo_host :: sockaddr_in where
  "demo_host = \<lparr>sin_family = 2, sin_port = 9, sin_addr = [10, 0, 0, 7], sin_zero = []\<rparr>"

definition second_child :: os where
  "second_child = demo_srv\<lparr>socks := [3], binds := [0], listens := [0], accepts := [Acc 6 demo_host, Acc 7 demo_host],
     forks := [4711, 0], rds := (rds demo_srv)(6 := [Rd_Data (''LIST'' @ crlf2), Rd_Data (''QUIT'' @ crlf2)]),
     wrs := (wrs demo_srv)(6 := replicate 64 (Wr_Acc 2))\<rparr>"

lemma server_process_witness:
  "\<exists>w'. start_server \<lparr>sin_family = 0, sin_port = 0, sin_addr = [], sin_zero = []\<rparr> 7000 ''/srv/'' second_child = (Blocked, w') \<and>
     outs w' 6 = [] \<and> outs w' 7 = ''OK'' @ crlf @ ''Size: 3'' @ crlf2 @ ''xyz'' @ ''a'' @ crlf2"
proof -
  let ?cs = "[(6, [List_Dir], demo_host), (7, [Get ''a'', List_Dir], demo_host)]"
  have rp: "reply second_child = reply demo_srv" and ok: "request_ok second_child = request_ok demo_srv"
    using evolves_reply evolves_request_ok by (intro ext, case_tac xa; simp add: second_child_def)+
  have o: "outs second_child 6 = []" "outs second_child 7 = []" by (simp_all add: second_child_def demo_srv_def)
  have "good_session second_child ''/srv/'' 6 [List_Dir]"
    unfolding good_session_def rp ok demo_srv_out by (simp add: second_child_def accepting_replicate frame_of_def)
  moreover have "good_session second_child ''/srv/'' 7 [Get ''a'', List_Dir]"
    unfolding good_session_def rp ok demo_srv_out using demo_srv_ok
    by (simp add: second_child_def accepting_replicate frame_of_def)
  ultimately have "\<forall>(c, xs, a)\<in>set ?cs. good_session second_child ''/srv/'' c xs" by simp
  moreover have "quiet_heap second_child" by (simp add: second_child_def demo_srv_def quiet_heap_def)
  ultimately have "\<exists>w'. start_server \<lparr>sin_family = 0, sin_port = 0, sin_addr = [], sin_zero = []\<rparr> 7000 ''/srv/'' second_child = (Blocked, w') \<and>
     (\<forall>((c, xs, a), p)\<in>set (zip ?cs [4711, 0 :: int]). outs w' c = outs second_child c @
        (if p = 0 then concat (map (reply second_child ''/srv/'') xs) else [])) \<and>
     (\<forall>f<next_fd second_child. f \<notin> fst ` set ?cs \<longrightarrow> outs w' f = outs second_child f)"
    by (intro server_process [of _ 3]) (simp_all add: second_child_def)
  then obtain w' where run: "start_server \<lparr>sin_family = 0, sin_port = 0, sin_addr = [], sin_zero = []\<rparr> 7000 ''/srv/'' second_child = (Blocked, w')"
    and w': "\<forall>((c, xs, a), p)\<in>set (zip ?cs [4711, 0 :: int]). outs w' c = outs second_child c @
        (if p = 0 then concat (map (reply demo_srv ''/srv/'') xs) else [])" unfolding rp by blast
  from w' o have "outs w' 6 = []" "outs w' 7 = concat (map (reply demo_srv ''/srv/'') [Get ''a'', List_Dir])" by simp_all
  with run show ?thesis unfolding demo_srv_out by blast
qed

end
