(* ===== verification/Spec2Isabelle.thy ===== *)
theory Spec2Isabelle
  imports FileTransfer FileSend Ping Raw Linux_Sniffer Pcap_Sniffer Client_Args Server_Args Transfer_Args Ping_Args
    Hello Udp_Bounded Bcast_Sender List_Schedule Ping_Schedule Ping_Rounds FtAccept
begin

text \<open>
  Verification of the networking programs of this repository: two file transfer programs over
  TCP and one over UDP, a ping over TCP, an echo server, a greeting server with its client, a
  listener for broadcasts with its sender, a raw ICMP echo request and two packet sniffers.

  THE PARTS AND WHERE THEY ARE MODELLED.

  FileTransfer_Proyecto is a server that answers GET, LIST and QUIT, a client that fetches one
  file, and a client that lists the directory. \<open>Netlib\<close> is netlib/tcp.c (addresses,
  sockets, accepting a connection). \<open>FtServer\<close> is server.c: \<open>sendLine\<close>,
  \<open>doList\<close>, \<open>doGet\<close>, the command loop (\<open>read_cmd\<close>,
  \<open>handle_cmd\<close>, \<open>serve\<close>, \<open>start_protocol\<close>) and the accept
  loop (\<open>accept_loop\<close>, \<open>start_server\<close>). \<open>FtClient\<close> is
  client.c: \<open>start_client\<close>, \<open>get_list\<close>, \<open>start_protocol\<close>,
  \<open>doGet\<close>; \<open>Clock\<close> is its \<open>currentTimeMillis\<close>.
  \<open>Frame\<close> is the loop body that both sides share: append what was read, test for the
  empty line, cut it off. \<open>Client_Args\<close> and \<open>Server_Args\<close> are
  main_client.c, main_list.c and main_server.c.

  file_transfer sends one file as the content of a connection: \<open>FileSend\<close> is its
  client.c and server.c, \<open>Transfer_Args\<close> its file_transfer.c and main.c. tcp_ping
  echoes messages: \<open>Ping\<close> is ping.c, client.c and server.c, \<open>Ping_Args\<close>
  is tcp_ping.c and main.c. \<open>Args\<close> holds what the five argument loops share. Both
  directories hold copies of netlib/tcp.c that differ in one debug level, and file_transfer holds a
  copy of ping.c that it does not use.

  raw/main.c builds and sends an echo request by hand: \<open>Raw\<close> holds the checksum, the
  packet and \<open>main_raw\<close>. Sniffer/pcap_clase.c is \<open>Pcap_Sniffer\<close>,
  Sniffer/linux_raw/main.c is \<open>Linux_Sniffer\<close>; \<open>Packet\<close> holds the headers
  as records with their bytes on the wire, and \<open>Hexdump\<close> the function
  \<open>dump\<close>, of which the three programs have identical copies.

  simple_socket/echo_server.c is \<open>Echo\<close> (the loop over one connection is
  \<open>echo_conn\<close>, the accept loop \<open>accept_turns\<close>),
  simple_socket/simple_hello.c is \<open>Hello\<close> (\<open>greet_turns\<close>,
  \<open>run_server\<close>, \<open>run_client\<close>). \<open>Udp_Server\<close> and
  \<open>Udp_Client\<close> are server.c and client.c of UDP_FileTransfer,
  \<open>Udp_Transfer\<close> puts them together; \<open>Bcast\<close> is bdcast/listen.c and
  \<open>Bcast_Sender\<close> bdcast/sender.c, read with the parenthesis that its line 40 lacks.
  They share \<open>Datagram\<close>: \<open>recvfrom\<close>, \<open>sendto\<close> and a state
  that adds datagrams to the system.

  THE MODEL. A C call is a function from a state to a result and a state (\<open>Prelude\<close>):
  it returns, blocks for want of an answer of the environment, exits, or dies of a fault;
  out-of-bounds accesses, null pointers, overflowing string buffers and divisions by zero are
  faults, with one exception, below. The state of the TCP programs is the operating system (\<open>Posix\<close>): for each
  system call the answers the kernel will give, and what the program has done to the outside. The
  theorems quantify over the answers, so they cover every segmentation and every partial write, and
  errors except where a hypothesis says that none occurs. \<open>Libc\<close> holds the string functions and the heap strings of the programs. The
  raw and sniffer programs use a smaller state, the console (\<open>Console\<close>); the answers
  they get are arguments. Unsigned integers are words of their width; signed counters that cannot
  overflow on the inputs are integers, and a signed value that becomes a length is converted where
  the code converts it.

  MEMORY THAT IS NOT THE PROGRAM'S. The exception is the test for the end of a message
  (server.c 96 and 97, client.c 69 and 106): while the string has fewer than four characters it
  looks at the bytes before its heap block. Every run does this on its first byte, so a fault there
  would leave nothing to prove; the model answers the read from \<open>heap_pre\<close>, and only the
  write that follows when those bytes complete the terminator is a fault. \<open>harmless_heap\<close>
  is the exact condition on these bytes for reading a command to be safe on every input
  (\<open>read_cmd_safe\<close>); the other theorems about file transfer assume \<open>quiet_heap\<close>,
  that the byte before a block is NUL, which implies it. The client also takes the length of a
  fresh block of \<open>malloc\<close> (client.c 65 and 102); its contents are \<open>heap_junk\<close>, and
  \<open>clean_heap\<close> adds the assumption that it starts with NUL. Both hold of a fresh process
  with the usual allocator, and neither is promised by C.

  THE NETWORK. Two programs that talk to each other are a transition system
  (\<open>Dialogue\<close>): a state holds what has been delivered to each side so far, a step
  delivers some more bytes of what the other side has said by then, in a segment of any length. The
  network chooses the order and the segments. \<open>Causal\<close> is what makes this a model of
  running programs: a program that blocks for want of input has sent what it has sent, and more
  input neither takes that back nor changes a run that did not block. \<open>Get_Schedule\<close>
  (a file), \<open>List_Schedule\<close> (a directory) and \<open>Ping_Schedule\<close> (a ping)
  prove that no program of the three pairs looks ahead, and follow every schedule.

  INTERFACES. The loops that write until everything is written are interfaces, with an
  interpretation for every loop of the programs: \<open>write_all\<close> and
  \<open>line_sender\<close>, extended in \<open>do_write32\<close>, \<open>sender32\<close>,
  \<open>while_write32\<close> and \<open>while_int\<close> by the counters the code uses
  (\<open>Write_All\<close>, \<open>Sender\<close>, \<open>U32_Loops\<close>,
  \<open>Int_Loops\<close>). \<open>frame_reader\<close> is the contract of the three loops that
  read a message byte by byte, \<open>decoder\<close> that of the seven header decoders of the
  sniffers, \<open>option_body\<close> and \<open>option_syntax\<close> that of the bodies of the
  argument loops, \<open>turn_loop\<close> that of the accept loops of simple_socket. The storing
  loop of the UDP client is one more interpretation of \<open>while_int\<close>.
  \<open>dialogue\<close> is the interface of two programs in conversation: what each has said only
  grows, and is bounded; its lemmas give the invariant of all reachable states, that a run is never
  stuck before everything is delivered, and a bound on the length of runs. It has three
  interpretations, \<open>get\<close>, \<open>list\<close> and \<open>ping\<close>.

  WHAT THE LEMMAS SHOW. \<open>Evolve\<close>: which parts of the state no program changes, and
  that loops with a bound do not reach it. \<open>Frame\<close>: a message is read whole whatever
  its segmentation, and the buffers stay well formed. \<open>FtServer\<close>,
  \<open>FtClient\<close>: each request and each reply, then a whole session;
  \<open>FileTransfer\<close> wires the two programs to each other. \<open>FileSend\<close>,
  \<open>Ping\<close>: the same for the other pairs; what the receiver of \<open>FileSend\<close>
  has stored at each moment. \<open>Get_Schedule\<close>, \<open>List_Schedule\<close>,
  \<open>Ping_Schedule\<close>: under every schedule of the network nothing crashes, the stored
  file is a part of the server's, and every schedule ends with the transfer, the listing or the
  ping done, the listing of an empty directory excepted. \<open>Isolation\<close> is a calculus of
  what a program leaves alone, closing included; \<open>FtAccept\<close> applies it to the conversations of the file
  server and shows what each of its processes sends to whom. \<open>Ping_Rounds\<close>: all rounds
  of the ping client, all clients of the ping server. \<open>Raw\<close>: the checksum against
  ones' complement addition. \<open>Hexdump\<close>: the dump against rows of sixteen bytes.
  \<open>Packet\<close>, \<open>Pcap_Sniffer\<close>, \<open>Linux_Sniffer\<close>: the printed
  text is that of the header fields the programs print, when decoding is memory safe, and how a
  capture ends. \<open>Echo\<close>,
  \<open>Hello\<close>: whole conversations, and the ones that never end.
  \<open>Udp_Client\<close>: \<open>kept\<close> and \<open>counted\<close> say what the client
  stores and what it takes for received; \<open>Udp_Transfer\<close>: a transfer, with and without
  a lost block, when the uninitialised counters of the two programs happen to be 0;
  \<open>Udp_Bounded\<close>: what any sequence of datagrams at all can make the client write,
  whatever its counter holds at the start. \<open>Bcast\<close>: the printed lines, up to the datagram that fills the buffer;
  \<open>Bcast_Sender\<close>: what is broadcast is heard. \<open>Args\<close> and the theories on
  it: command lines of well-formed options are understood, and every command line is read safely.

  BOUNDS. \<open>serve\<close>, \<open>accept_loop\<close> and \<open>answer_rounds\<close> take a
  bound that is one more than the answers left to read or accept, and each round uses one up;
  \<open>start_protocol_ends\<close>, \<open>start_server_result\<close> and
  \<open>ping_server_endless\<close> prove that they are never reached, \<open>serve_more\<close>
  that a larger bound changes nothing. \<open>accept_turns\<close> and \<open>greet_turns\<close>
  have the same bound, and \<open>turns_end\<close> proves that it is enough. All other loops are
  functions that end by their own measure: the answers left, or the counter of the loop.

  NOT MODELLED: \<open>malloc\<close> and its relatives returning NULL, SIGPIPE, errno and
  everything that goes to stderr (the debug macro and the error messages; what a debug message reads
  past the end of an array is a fault all the same, \<open>debug_text\<close>), running totals that only
  reach debug messages, \<open>setsockopt\<close> of the sniffer (its result is ignored). A use of
  memory outside its object is a fault of the model even where a real run might survive it. The
  structures of the headers are laid out as on a little-endian machine with the usual bit-field
  order. The copies of netlib/tcp.c and ping.c in other directories have no definitions of their
  own: they are the same functions, but for the level of one debug message. Variables that the UDP
  programs and simple_hello.c read before they set them are arguments of the model.
\<close>

section \<open>Properties that span components\<close>

text \<open>The echo request of raw/main.c, as headers.\<close>

definition sent_ip :: ip_hd where
  "sent_ip = \<lparr>ip_version = 4, ip_tos = 0, ip_length = 92, ip_id = 1, ip_frag = 0, ip_ttl = 10,
     ip_protocol = 1, ip_check = 48873, ip_saddr = [192, 168, 56, 101], ip_daddr = [192, 168, 56, 1],
     ip_options = []\<rparr>"

definition sent_icmp :: icmp_hd where
  "sent_icmp = \<lparr>icmp_type = 8, icmp_code = 0, icmp_checksum = 53177, icmp_rest = 655380\<rparr>"

definition sent_frame :: "eth_hd \<Rightarrow> frame" where
  "sent_frame e = \<lparr>fr_eth = e, fr_ip = sent_ip, fr_l4 = L4_Icmp sent_icmp, fr_data = replicate 64 (CHR ''A'')\<rparr>"

lemma sent_headers:
  "ip_ok sent_ip" "icmp_ok sent_icmp" "request = ip_wire sent_ip @ wire (icmp_bytes sent_icmp) @ replicate 64 (CHR ''A'')"
  by (simp_all add: ip_ok_def ip_fixed_def ip_ihl_def options_ok_def bytes_ok_def be16_def be32_def sent_ip_def
      icmp_ok_def icmp_bytes_def sent_icmp_def request_def request_ip_def request_icmp_def ip_wire_def wire_def
      char_values)

lemma sent_frame_wire: "eth_ok e \<Longrightarrow> frame_ok (sent_frame e) \<and> frame_wire (sent_frame e) = wire (eth_bytes e) @ request"
  using sent_headers eth_fields(1) [of e, OF _ refl]
  by (simp add: frame_ok_def frame_wire_def sent_frame_def BUFFER_SIZE_def request_facts)
    (simp add: sent_ip_def)

text \<open>C30: The sniffer shows what the other program sends: when the datagram that raw/main.c hands to
  the kernel arrives in an Ethernet frame, linux_raw prints its addresses, the echo request and
  the dump of the 64 letters.\<close>

theorem request_sniffed:
  assumes "0 \<le> sock" and "0 \<le> opt" and "0 \<le> snd_r"
    and "main_raw sock opt snd_r err (Rcv d) \<lparr>text_out = [], sent = []\<rparr> = (Ret 0, t)"
    and "sent t = [datagram]" and "eth_ok e"
  shows "Linux_Sniffer.main [''sniffer'', ''eth0''] 3 junk [Rcv (wire (eth_bytes e) @ datagram)] s =
     (Blocked, printed (''..:: Basic Network Sniffer ::..'' @ [LF] @ frame_spec (sent_frame e)) s)"
proof -
  have "datagram = request" using main_raw_sent [OF assms(1-4)] assms(5) by simp
  moreover have f: "frame_ok (sent_frame e)" "frame_wire (sent_frame e) = wire (eth_bytes e) @ request"
    using sent_frame_wire [OF assms(6)] by simp_all
  ultimately show ?thesis
    using receive_frames [of "[sent_frame e]" junk] by (simp add: Linux_Sniffer.main_def)
qed

theorem request_sniffed_witness:
  "\<exists>t. main_raw 3 0 92 [] (Rcv (replicate 92 (CHR ''x''))) \<lparr>text_out = [], sent = []\<rparr> = (Ret 0, t) \<and>
     Linux_Sniffer.main [''sniffer'', ''eth0''] 3 [] [Rcv (wire (eth_bytes demo_eth) @ hd (sent t))]
       \<lparr>text_out = [], sent = []\<rparr> =
     (Blocked, printed (''..:: Basic Network Sniffer ::..'' @ [LF] @ frame_spec (sent_frame demo_eth))
       \<lparr>text_out = [], sent = []\<rparr>)"
proof -
  let ?c = "\<lparr>text_out = [], sent = []\<rparr>"
  obtain t where t: "main_raw 3 0 92 [] (Rcv (replicate 92 (CHR ''x''))) ?c = (Ret 0, t)"
    by (simp add: main_raw_reply)
  then have s: "sent t = [request]" using main_raw_sent [OF _ _ _ t] by simp
  from request_sniffed [OF _ _ _ t s demo_ok(1), of "[]" ?c] t s show ?thesis by auto
qed

end
